(* ===== verification/Clavis_Prelude.thy ===== *)
theory Clavis_Prelude
  imports Main "HOL-Library.Word" "HOL-Library.AList"
begin

text \<open>
  Shared vocabulary of the development: the Go types the sources use (64-bit integers,
  durations, instants, pointers, maps), the outcome of a call that may panic, the
  interface of a Go map as a locale with its interpretation on association lists, and a
  generic transition-system locale whose invariant rules every component reuses.
\<close>

section \<open>Fact collections\<close>

named_theorems go_time_simps \<open>instants and durations\<close>
named_theorems inv_intros \<open>preservation of component invariants by single operations\<close>

section \<open>Integers, durations, instants\<close>

text \<open>
  \<open>uint64\<close> values are words read by \<open>unat\<close>; \<open>int64\<close> values (among them
  \<open>time.Duration\<close>) are words read by \<open>sint\<close>, so additions wrap as in Go.
  A \<open>time.Time\<close> without monotonic reading is an instant: nanoseconds since the Unix
  epoch as an unbounded integer, because Go keeps seconds in an \<open>int64\<close> of its own and
  adding one \<open>Duration\<close> to an instant given by an \<open>int64\<close> of nanoseconds is exact.
  Reading an instant back with \<open>UnixNano\<close> truncates to 64 bits.
\<close>

type_synonym uint64 = "64 word"
type_synonym int64 = "64 word"
type_synonym duration = int64
type_synonym time = int

definition max_int64 :: int64 where
  "max_int64 = 0x7FFFFFFFFFFFFFFF"

definition second :: duration where
  "second = 1000000000"

definition millisecond :: duration where
  "millisecond = 1000000"

definition zero_time :: time where
  "zero_time = - 62135596800000000000"

definition is_zero :: "time \<Rightarrow> bool" where
  "is_zero t \<longleftrightarrow> t = zero_time"

definition time_unix :: "int64 \<Rightarrow> time" where
  "time_unix n = sint n"

definition unix_nano :: "time \<Rightarrow> int64" where
  "unix_nano t = word_of_int t"

definition time_add :: "time \<Rightarrow> duration \<Rightarrow> time" where
  "time_add t d = t + sint d"

lemma sint64_lower: "- (2 ^ 63) \<le> sint (x :: int64)"
  using sint_greater_eq [of x] by simp

lemma sint64_upper: "sint (x :: int64) < 2 ^ 63"
  using sint_less [of x] by simp

lemma sint_max_int64 [simp]: "sint max_int64 = 2 ^ 63 - 1"
  by (simp add: max_int64_def)

lemma sint64_of_int:
  "- (2 ^ 63) \<le> k \<Longrightarrow> k < 2 ^ 63 \<Longrightarrow> sint (word_of_int k :: int64) = k"
  by (simp add: sint_sbintrunc' signed_take_bit_int_eq_self)

lemma sint64_minus:
  assumes "- (2 ^ 63) \<le> sint a - sint b" and "sint a - sint b < 2 ^ 63"
  shows "sint (a - b :: int64) = sint a - sint b"
proof -
  have "a - b = word_of_int (sint a - sint b)" by simp
  then show ?thesis using sint64_of_int [OF assms] by metis
qed

lemma sint64_times:
  assumes "- (2 ^ 63) \<le> sint a * sint b" and "sint a * sint b < 2 ^ 63"
  shows "sint (a * b :: int64) = sint a * sint b"
proof -
  have "a * b = word_of_int (sint a * sint b)" by simp
  then show ?thesis using sint64_of_int [OF assms] by metis
qed

lemma unat_Suc64:
  assumes "unat (n :: uint64) + 1 < 2 ^ 64"
  shows "unat (n + 1) = unat n + 1"
  using assms by (simp add: unat_word_ariths)

lemma unix_nano_time_unix [simp, go_time_simps]: "unix_nano (time_unix n) = n"
  by (simp add: unix_nano_def time_unix_def)

lemma time_unix_unix_nano [go_time_simps]:
  "- (2 ^ 63) \<le> t \<Longrightarrow> t < 2 ^ 63 \<Longrightarrow> time_unix (unix_nano t) = t"
  by (simp add: unix_nano_def time_unix_def sint64_of_int)

section \<open>Pointers, panics\<close>

text \<open>A Go pointer is \<open>None\<close> (nil) or the value it points to; a call either returns or panics.\<close>

type_synonym 'a ptr = "'a option"

datatype 'a go = Ret 'a | Panic

definition returns :: "'a go \<Rightarrow> bool" where
  "returns r \<longleftrightarrow> r \<noteq> Panic"

lemma returns_simps [simp]: "returns (Ret x)" "\<not> returns Panic"
  by (simp_all add: returns_def)

section \<open>Go maps\<close>

text \<open>
  What the code relies on of a Go map: lookup after assignment and deletion, at most one
  entry per key, and an enumeration of the entries in some order.
\<close>

locale go_map =
  fixes lookup :: "'m \<Rightarrow> 'k \<Rightarrow> 'v option"
    and assign :: "'k \<Rightarrow> 'v \<Rightarrow> 'm \<Rightarrow> 'm"
    and remove :: "'k \<Rightarrow> 'm \<Rightarrow> 'm"
    and entries :: "'m \<Rightarrow> ('k \<times> 'v) list"
    and invar :: "'m \<Rightarrow> bool"
  assumes lookup_assign: "invar m \<Longrightarrow> lookup (assign k v m) = (lookup m)(k \<mapsto> v)"
    and lookup_remove: "invar m \<Longrightarrow> lookup (remove k m) = (lookup m)(k := None)"
    and lookup_entries: "invar m \<Longrightarrow> lookup m = map_of (entries m)"
    and distinct_entries: "invar m \<Longrightarrow> distinct (map fst (entries m))"
    and invar_assign: "invar m \<Longrightarrow> invar (assign k v m)"
    and invar_remove: "invar m \<Longrightarrow> invar (remove k m)"
begin

lemma entries_iff: "invar m \<Longrightarrow> (k, v) \<in> set (entries m) \<longleftrightarrow> lookup m k = Some v"
  by (simp add: lookup_entries distinct_entries)

lemma entries_assign:
  "invar m \<Longrightarrow> (k', v') \<in> set (entries (assign k v m)) \<longleftrightarrow>
     (if k' = k then v' = v else (k', v') \<in> set (entries m))"
  by (auto simp: entries_iff lookup_assign invar_assign)

lemma entries_remove:
  "invar m \<Longrightarrow> (k', v') \<in> set (entries (remove k m)) \<longleftrightarrow>
     k' \<noteq> k \<and> (k', v') \<in> set (entries m)"
  by (auto simp: entries_iff lookup_remove invar_remove)

lemma remove_commute:
  "invar m \<Longrightarrow> lookup (remove a (remove b m)) = lookup (remove b (remove a m))"
  by (auto simp: lookup_remove invar_remove fun_eq_iff)

lemma remove_assign:
  "invar m \<Longrightarrow> lookup m k = None \<Longrightarrow> lookup (remove k (assign k v m)) = lookup m"
  by (auto simp: lookup_remove lookup_assign invar_assign)

lemma length_entries: "invar m \<Longrightarrow> length (entries m) = card (dom (lookup m))"
  using distinct_entries [of m] distinct_card [of "map fst (entries m)"]
  by (simp add: lookup_entries dom_map_of_conv_image_fst)

end

text \<open>
  The model keeps a map as an association list without repeated keys. The order of the
  list stands for the iteration order Go leaves unspecified.
\<close>

type_synonym ('k, 'v) gomap = "('k \<times> 'v) list"

abbreviation mget :: "('k, 'v) gomap \<Rightarrow> 'k \<Rightarrow> 'v option" where
  "mget \<equiv> map_of"

abbreviation mput :: "'k \<Rightarrow> 'v \<Rightarrow> ('k, 'v) gomap \<Rightarrow> ('k, 'v) gomap" where
  "mput \<equiv> AList.update"

abbreviation mdel :: "'k \<Rightarrow> ('k, 'v) gomap \<Rightarrow> ('k, 'v) gomap" where
  "mdel \<equiv> AList.delete"

definition map_ok :: "('k, 'v) gomap \<Rightarrow> bool" where
  "map_ok m \<longleftrightarrow> distinct (map fst m)"

interpretation gm: go_map mget mput mdel "\<lambda>m. m" map_ok
  by unfold_locales
    (simp_all add: map_ok_def update_conv' delete_conv' distinct_update distinct_delete)

lemma map_ok_Nil [simp]: "map_ok []"
  by (simp add: map_ok_def)

lemmas map_ok_intros [simp, inv_intros] = gm.invar_assign gm.invar_remove
lemmas mget_simps [simp] = gm.lookup_assign gm.lookup_remove

text \<open>A map variable may be nil: it reads as empty, deleting is a no-op, storing panics.\<close>

definition mapIndex :: "'v \<Rightarrow> ('k, 'v) gomap ptr \<Rightarrow> 'k \<Rightarrow> 'v" where
  "mapIndex zero m k =
     (case m of None \<Rightarrow> zero | Some es \<Rightarrow> (case mget es k of None \<Rightarrow> zero | Some v \<Rightarrow> v))"

definition mapStore :: "('k, 'v) gomap ptr \<Rightarrow> 'k \<Rightarrow> 'v \<Rightarrow> ('k, 'v) gomap ptr go" where
  "mapStore m k v = (case m of None \<Rightarrow> Panic | Some es \<Rightarrow> Ret (Some (mput k v es)))"

definition mapRemove :: "('k, 'v) gomap ptr \<Rightarrow> 'k \<Rightarrow> ('k, 'v) gomap ptr" where
  "mapRemove m k = map_option (mdel k) m"

lemma mapIndex_empty [simp]: "mapIndex zero None k = zero" "mapIndex zero (Some []) k = zero"
  by (simp_all add: mapIndex_def)

lemma mapIndex_mapStore:
  "mapStore m k v = Ret m' \<Longrightarrow> mapIndex zero m' j = (if j = k then v else mapIndex zero m j)"
  by (auto simp: mapIndex_def mapStore_def update_conv' split: option.splits)

lemma mapIndex_mapRemove [simp]:
  "mapIndex zero (mapRemove m k) j = (if j = k then zero else mapIndex zero m j)"
  by (cases m) (simp_all add: mapIndex_def mapRemove_def delete_conv')

lemma mapStore_nonnil: "mapStore m k v = Ret m' \<Longrightarrow> m' \<noteq> None"
  by (auto simp: mapStore_def split: option.splits)

lemma mapStore_Ret: "m \<noteq> None \<Longrightarrow> \<exists>m'. mapStore m k v = Ret m'"
  by (auto simp: mapStore_def)

lemma mapRemove_None [simp]: "mapRemove m k = None \<longleftrightarrow> m = None"
  by (simp add: mapRemove_def)

section \<open>Transition systems\<close>

text \<open>
  A component as a machine: a step function over events that may refuse to step
  (\<open>None\<close>), a guard on the states and events for which preservation is promised, and an
  invariant. The clients prove one lemma per operation; the locale lifts it to runs.
\<close>

fun run_opt :: "('s \<Rightarrow> 'e \<Rightarrow> 's option) \<Rightarrow> 's \<Rightarrow> 'e list \<Rightarrow> 's option" where
  "run_opt step s [] = Some s"
| "run_opt step s (e # es) =
     (case step s e of None \<Rightarrow> None | Some s' \<Rightarrow> run_opt step s' es)"

lemma run_opt_append:
  "run_opt step s (xs @ ys) =
     (case run_opt step s xs of None \<Rightarrow> None | Some s' \<Rightarrow> run_opt step s' ys)"
  by (induction xs arbitrary: s) (auto split: option.splits)

locale machine =
  fixes step :: "'s \<Rightarrow> 'e \<Rightarrow> 's option"
    and inv :: "nat \<Rightarrow> 's \<Rightarrow> bool"
    and budget :: nat
  assumes step_inv: "inv n s \<Longrightarrow> n < budget \<Longrightarrow> step s e = Some s' \<Longrightarrow> inv (Suc n) s'"
    and step_total: "inv n s \<Longrightarrow> n < budget \<Longrightarrow> step s e \<noteq> None"
begin

lemma run_inv:
  "inv n s \<Longrightarrow> n + length es \<le> budget \<Longrightarrow> run_opt step s es = Some s' \<Longrightarrow>
     inv (n + length es) s'"
proof (induction es arbitrary: n s)
  case Nil
  then show ?case by simp
next
  case (Cons e es)
  from Cons.prems obtain t where t: "step s e = Some t" "run_opt step t es = Some s'"
    by (auto split: option.splits)
  have "inv (Suc n) t"
    using step_inv [OF Cons.prems(1) _ t(1)] Cons.prems(2) by simp
  then show ?case using Cons.IH [of "Suc n" t] t(2) Cons.prems(2) by simp
qed

lemma run_total:
  "inv n s \<Longrightarrow> n + length es \<le> budget \<Longrightarrow> \<exists>s'. run_opt step s es = Some s'"
proof (induction es arbitrary: n s)
  case Nil
  then show ?case by simp
next
  case (Cons e es)
  from Cons.prems have n: "n < budget" by simp
  obtain t where t: "step s e = Some t"
    using step_total [OF Cons.prems(1) n] by auto
  have "inv (Suc n) t" by (rule step_inv [OF Cons.prems(1) n t])
  then show ?case using Cons.IH [of "Suc n" t] t Cons.prems(2) by simp
qed

end

section \<open>Promises over sequences of calls\<close>

text \<open>
  A component whose calls return an answer and a new state, in any order. A promise is a
  condition on states that every allowed call keeps, and under which every allowed call
  returns and answers as promised; the locale lifts it to sequences of calls.
\<close>

fun run_calls :: "('s \<Rightarrow> 'o \<Rightarrow> ('a \<times> 's) go) \<Rightarrow> 's \<Rightarrow> 'o list \<Rightarrow> ('a list \<times> 's) go" where
  "run_calls step s [] = Ret ([], s)"
| "run_calls step s (op # ops) =
     (case step s op of
        Panic \<Rightarrow> Panic
      | Ret (a, s') \<Rightarrow>
          (case run_calls step s' ops of Panic \<Rightarrow> Panic | Ret (as, s'') \<Rightarrow> Ret (a # as, s'')))"

text \<open>First with a budget, which calls may consume: counters that must not overflow.\<close>

locale paid_promise =
  fixes step :: "'s \<Rightarrow> 'o \<Rightarrow> ('a \<times> 's) go"
    and holds_for :: "nat \<Rightarrow> 's \<Rightarrow> bool"
    and cost :: "'o \<Rightarrow> nat"
    and allowed :: "'o \<Rightarrow> bool"
    and honoured :: "'o \<Rightarrow> 'a \<Rightarrow> bool"
  assumes keeps_paid: "holds_for (cost op + k) s \<Longrightarrow> allowed op \<Longrightarrow> step s op = Ret (a, s') \<Longrightarrow> holds_for k s'"
    and answers_paid: "holds_for (cost op + k) s \<Longrightarrow> allowed op \<Longrightarrow> step s op = Ret (a, s') \<Longrightarrow> honoured op a"
    and returns_paid: "holds_for (cost op + k) s \<Longrightarrow> allowed op \<Longrightarrow> step s op \<noteq> Panic"
begin

lemma run_paid:
  assumes "holds_for (sum_list (map cost ops) + k) s" and "list_all allowed ops"
  shows "\<exists>as s'. run_calls step s ops = Ret (as, s') \<and> holds_for k s' \<and> list_all2 honoured ops as"
  using assms
proof (induction ops arbitrary: s)
  case (Cons op ops)
  then have paid: "holds_for (cost op + (sum_list (map cost ops) + k)) s" and op: "allowed op"
    by (simp_all add: add.assoc)
  then obtain a t where t: "step s op = Ret (a, t)"
    using returns_paid [OF paid op] by (cases "step s op") auto
  moreover have "holds_for (sum_list (map cost ops) + k) t" by (rule keeps_paid [OF paid op t])
  moreover have "honoured op a" by (rule answers_paid [OF paid op t])
  ultimately show ?case using Cons.IH Cons.prems(2) by fastforce
qed simp

end

locale promise =
  fixes step :: "'s \<Rightarrow> 'o \<Rightarrow> ('a \<times> 's) go"
    and holds :: "'s \<Rightarrow> bool"
    and allowed :: "'o \<Rightarrow> bool"
    and honoured :: "'o \<Rightarrow> 'a \<Rightarrow> bool"
  assumes keeps: "holds s \<Longrightarrow> allowed op \<Longrightarrow> step s op = Ret (a, s') \<Longrightarrow> holds s'"
    and answers: "holds s \<Longrightarrow> allowed op \<Longrightarrow> step s op = Ret (a, s') \<Longrightarrow> honoured op a"
    and returns: "holds s \<Longrightarrow> allowed op \<Longrightarrow> step s op \<noteq> Panic"

sublocale promise \<subseteq> paid: paid_promise step "\<lambda>k. holds" "\<lambda>op. 0" allowed honoured
  using keeps answers returns by unfold_locales

context promise
begin

lemma run:
  assumes "holds s" and "list_all allowed ops"
  shows "\<exists>as s'. run_calls step s ops = Ret (as, s') \<and> holds s' \<and> list_all2 honoured ops as"
  by (rule paid.run_paid [OF assms])

end

end
