(* ===== verification/Domain_Model.thy ===== *)
theory Domain_Model
  imports Clavis_Prelude
begin

text \<open>
  Package \<open>internal/domain\<close>: leases, locks, cluster members and the sentinel errors; and
  the error values the layers above build from them with \<open>fmt.Errorf\<close> and their own
  error types, together with \<open>errors.Is\<close>.
\<close>

section \<open>Errors\<close>

datatype sentinel =
    ErrLeaseNotFound
  | ErrLeaseExpired
  | ErrInvalidLeaseTTL
  | ErrInvalidTimestamp
  | ErrLockNotFound
  | ErrLockAlreadyHeld
  | ErrNotLockOwner
  | ErrNodeNotFound
  | ErrInvalidClusterNode
  | ErrUnknownCommand

text \<open>The errors of the Raft library that the sources name, and any other error it returns.\<close>

datatype raft_error =
    ErrNotLeader
  | ErrLeadershipLost
  | ErrLeadershipTransferInProgress
  | ErrRaftShutdown
  | RaftOther string

text \<open>
  A Go error value: a sentinel, one of the two error types of the service layer, an error
  of the Raft library, an opaque error with its message, or \<open>fmt.Errorf("...: %w", err)\<close>.
  The message of a wrapping is kept as a label only: no code branches on it.
\<close>

datatype goerr =
    Sentinel sentinel
  | InvalidArgumentError string
  | NotLeaderError string
  | RaftError raft_error
  | OtherError string
  | Wrapped string goerr

fun unwrap_all :: "goerr \<Rightarrow> goerr" where
  "unwrap_all (Wrapped msg e) = unwrap_all e"
| "unwrap_all e = e"

definition errors_Is :: "goerr \<Rightarrow> sentinel \<Rightarrow> bool" where
  "errors_Is e s \<longleftrightarrow> unwrap_all e = Sentinel s"

definition errors_Is_raft :: "goerr \<Rightarrow> raft_error \<Rightarrow> bool" where
  "errors_Is_raft e r \<longleftrightarrow> unwrap_all e = RaftError r"

section \<open>Leases, locks, members\<close>

record Lease =
  Lease_LeaseID :: uint64
  Lease_OwnerID :: string
  Lease_ExpiresAtUnixNano :: int64
  Lease_TTL :: duration

definition ExpiresAt :: "Lease \<Rightarrow> time" where
  "ExpiresAt l = time_unix (Lease_ExpiresAtUnixNano l)"

record Lock =
  Lock_Name :: string
  Lock_OwnerID :: string
  Lock_FencingToken :: uint64
  Lock_LeaseID :: uint64

record ClusterMember =
  Member_NodeID :: string
  Member_RaftAddress :: string
  Member_GRPCAddress :: string

end
