(* ===== verification/Raftlog.thy ===== *)
theory Raftlog
  imports Domain_Model
begin

text \<open>
  Package \<open>internal/raftlog\<close>: the commands of a Raft log entry. The message structs and
  their nil-safe getters follow \<open>command.pb.go\<close> (a getter on a nil message returns the
  zero value); the constructors follow \<open>command.go\<close>. \<open>CommandType\<close> is an open
  \<open>int32\<close> enumeration, so it stays a 32-bit word and unknown numbers are possible.
\<close>

section \<open>Command types and messages\<close>

type_synonym CommandType = "32 word"

definition COMMAND_TYPE_UNSPECIFIED :: CommandType where "COMMAND_TYPE_UNSPECIFIED = 0"
definition COMMAND_TYPE_CREATE_LEASE :: CommandType where "COMMAND_TYPE_CREATE_LEASE = 1"
definition COMMAND_TYPE_RENEW_LEASE :: CommandType where "COMMAND_TYPE_RENEW_LEASE = 2"
definition COMMAND_TYPE_ACQUIRE_LOCK :: CommandType where "COMMAND_TYPE_ACQUIRE_LOCK = 3"
definition COMMAND_TYPE_RELEASE_LOCK :: CommandType where "COMMAND_TYPE_RELEASE_LOCK = 4"
definition COMMAND_TYPE_EXPIRE_LEASE :: CommandType where "COMMAND_TYPE_EXPIRE_LEASE = 5"
definition COMMAND_TYPE_UPSERT_ENDPOINT :: CommandType where "COMMAND_TYPE_UPSERT_ENDPOINT = 6"
definition COMMAND_TYPE_REMOVE_ENDPOINT :: CommandType where "COMMAND_TYPE_REMOVE_ENDPOINT = 7"

lemmas command_type_defs =
  COMMAND_TYPE_UNSPECIFIED_def COMMAND_TYPE_CREATE_LEASE_def COMMAND_TYPE_RENEW_LEASE_def
  COMMAND_TYPE_ACQUIRE_LOCK_def COMMAND_TYPE_RELEASE_LOCK_def COMMAND_TYPE_EXPIRE_LEASE_def
  COMMAND_TYPE_UPSERT_ENDPOINT_def COMMAND_TYPE_REMOVE_ENDPOINT_def

record CreateLeaseCommand =
  Create_OwnerId :: string
  Create_TtlNanos :: int64
  Create_CreateAtUnixNano :: int64

record RenewLeaseCommand =
  Renew_LeaseId :: uint64
  Renew_RenewedAtUnixNano :: int64

record AcquireLockCommand =
  Acquire_LockName :: string
  Acquire_OwnerId :: string
  Acquire_LeaseId :: uint64
  Acquire_AcquiredAtUnixNano :: int64

record ReleaseLockCommand =
  Release_LockName :: string
  Release_LeaseId :: uint64

record ExpireLeaseCommand =
  Expire_LeaseId :: uint64
  Expire_ExpiredAtUnixNano :: int64

record UpsertEndpointCommand =
  Upsert_NodeId :: string
  Upsert_GrpcAddress :: string

record RemoveEndpointCommand =
  Remove_NodeId :: string

datatype CommandWrapper_Payload =
    CommandWrapper_CreateLease "CreateLeaseCommand ptr"
  | CommandWrapper_RenewLease "RenewLeaseCommand ptr"
  | CommandWrapper_AcquireLock "AcquireLockCommand ptr"
  | CommandWrapper_ReleaseLock "ReleaseLockCommand ptr"
  | CommandWrapper_ExpireLease "ExpireLeaseCommand ptr"
  | CommandWrapper_UpsertEndpoint "UpsertEndpointCommand ptr"
  | CommandWrapper_RemoveEndpoint "RemoveEndpointCommand ptr"

text \<open>The payload is an interface value: \<open>None\<close> is the nil interface.\<close>

record CommandWrapper =
  Wrapper_Type :: CommandType
  Wrapper_Payload :: "CommandWrapper_Payload option"

section \<open>Getters\<close>

definition Create_GetOwnerId :: "CreateLeaseCommand ptr \<Rightarrow> string" where
  "Create_GetOwnerId x = (case x of None \<Rightarrow> '''' | Some c \<Rightarrow> Create_OwnerId c)"

definition Create_GetTtlNanos :: "CreateLeaseCommand ptr \<Rightarrow> int64" where
  "Create_GetTtlNanos x = (case x of None \<Rightarrow> 0 | Some c \<Rightarrow> Create_TtlNanos c)"

definition Create_GetCreateAtUnixNano :: "CreateLeaseCommand ptr \<Rightarrow> int64" where
  "Create_GetCreateAtUnixNano x = (case x of None \<Rightarrow> 0 | Some c \<Rightarrow> Create_CreateAtUnixNano c)"

definition Acquire_GetLockName :: "AcquireLockCommand ptr \<Rightarrow> string" where
  "Acquire_GetLockName x = (case x of None \<Rightarrow> '''' | Some c \<Rightarrow> Acquire_LockName c)"

definition Acquire_GetOwnerId :: "AcquireLockCommand ptr \<Rightarrow> string" where
  "Acquire_GetOwnerId x = (case x of None \<Rightarrow> '''' | Some c \<Rightarrow> Acquire_OwnerId c)"

definition Acquire_GetLeaseId :: "AcquireLockCommand ptr \<Rightarrow> uint64" where
  "Acquire_GetLeaseId x = (case x of None \<Rightarrow> 0 | Some c \<Rightarrow> Acquire_LeaseId c)"

definition Release_GetLockName :: "ReleaseLockCommand ptr \<Rightarrow> string" where
  "Release_GetLockName x = (case x of None \<Rightarrow> '''' | Some c \<Rightarrow> Release_LockName c)"

definition Release_GetLeaseId :: "ReleaseLockCommand ptr \<Rightarrow> uint64" where
  "Release_GetLeaseId x = (case x of None \<Rightarrow> 0 | Some c \<Rightarrow> Release_LeaseId c)"

definition Expire_GetLeaseId :: "ExpireLeaseCommand ptr \<Rightarrow> uint64" where
  "Expire_GetLeaseId x = (case x of None \<Rightarrow> 0 | Some c \<Rightarrow> Expire_LeaseId c)"

definition Upsert_GetNodeId :: "UpsertEndpointCommand ptr \<Rightarrow> string" where
  "Upsert_GetNodeId x = (case x of None \<Rightarrow> '''' | Some c \<Rightarrow> Upsert_NodeId c)"

definition Upsert_GetGrpcAddress :: "UpsertEndpointCommand ptr \<Rightarrow> string" where
  "Upsert_GetGrpcAddress x = (case x of None \<Rightarrow> '''' | Some c \<Rightarrow> Upsert_GrpcAddress c)"

definition Remove_GetNodeId :: "RemoveEndpointCommand ptr \<Rightarrow> string" where
  "Remove_GetNodeId x = (case x of None \<Rightarrow> '''' | Some c \<Rightarrow> Remove_NodeId c)"

definition GetType :: "CommandWrapper ptr \<Rightarrow> CommandType" where
  "GetType x = (case x of None \<Rightarrow> COMMAND_TYPE_UNSPECIFIED | Some w \<Rightarrow> Wrapper_Type w)"

definition GetPayload :: "CommandWrapper ptr \<Rightarrow> CommandWrapper_Payload option" where
  "GetPayload x = (case x of None \<Rightarrow> None | Some w \<Rightarrow> Wrapper_Payload w)"

definition GetCreateLease :: "CommandWrapper ptr \<Rightarrow> CreateLeaseCommand ptr" where
  "GetCreateLease x =
     (case GetPayload x of Some (CommandWrapper_CreateLease c) \<Rightarrow> c | _ \<Rightarrow> None)"

definition GetRenewLease :: "CommandWrapper ptr \<Rightarrow> RenewLeaseCommand ptr" where
  "GetRenewLease x =
     (case GetPayload x of Some (CommandWrapper_RenewLease c) \<Rightarrow> c | _ \<Rightarrow> None)"

definition GetAcquireLock :: "CommandWrapper ptr \<Rightarrow> AcquireLockCommand ptr" where
  "GetAcquireLock x =
     (case GetPayload x of Some (CommandWrapper_AcquireLock c) \<Rightarrow> c | _ \<Rightarrow> None)"

definition GetReleaseLock :: "CommandWrapper ptr \<Rightarrow> ReleaseLockCommand ptr" where
  "GetReleaseLock x =
     (case GetPayload x of Some (CommandWrapper_ReleaseLock c) \<Rightarrow> c | _ \<Rightarrow> None)"

definition GetExpireLease :: "CommandWrapper ptr \<Rightarrow> ExpireLeaseCommand ptr" where
  "GetExpireLease x =
     (case GetPayload x of Some (CommandWrapper_ExpireLease c) \<Rightarrow> c | _ \<Rightarrow> None)"

definition GetUpsertEndpoint :: "CommandWrapper ptr \<Rightarrow> UpsertEndpointCommand ptr" where
  "GetUpsertEndpoint x =
     (case GetPayload x of Some (CommandWrapper_UpsertEndpoint c) \<Rightarrow> c | _ \<Rightarrow> None)"

definition GetRemoveEndpoint :: "CommandWrapper ptr \<Rightarrow> RemoveEndpointCommand ptr" where
  "GetRemoveEndpoint x =
     (case GetPayload x of Some (CommandWrapper_RemoveEndpoint c) \<Rightarrow> c | _ \<Rightarrow> None)"

lemmas getter_defs =
  Create_GetOwnerId_def Create_GetTtlNanos_def Create_GetCreateAtUnixNano_def
  Acquire_GetLockName_def Acquire_GetOwnerId_def Acquire_GetLeaseId_def
  Release_GetLockName_def Release_GetLeaseId_def Expire_GetLeaseId_def
  Upsert_GetNodeId_def Upsert_GetGrpcAddress_def Remove_GetNodeId_def
  GetType_def GetPayload_def GetCreateLease_def GetRenewLease_def GetAcquireLock_def
  GetReleaseLock_def GetExpireLease_def GetUpsertEndpoint_def GetRemoveEndpoint_def

section \<open>Constructors\<close>

definition NewCreateLeaseCmd :: "string \<Rightarrow> duration \<Rightarrow> time \<Rightarrow> CommandWrapper" where
  "NewCreateLeaseCmd ownerID ttl now =
     \<lparr>Wrapper_Type = COMMAND_TYPE_CREATE_LEASE,
      Wrapper_Payload = Some (CommandWrapper_CreateLease (Some
        \<lparr>Create_OwnerId = ownerID, Create_TtlNanos = ttl,
         Create_CreateAtUnixNano = unix_nano now\<rparr>))\<rparr>"

definition NewAcquireLockCmd :: "string \<Rightarrow> string \<Rightarrow> uint64 \<Rightarrow> CommandWrapper" where
  "NewAcquireLockCmd lockName ownerID leaseID =
     \<lparr>Wrapper_Type = COMMAND_TYPE_ACQUIRE_LOCK,
      Wrapper_Payload = Some (CommandWrapper_AcquireLock (Some
        \<lparr>Acquire_LockName = lockName, Acquire_OwnerId = ownerID,
         Acquire_LeaseId = leaseID, Acquire_AcquiredAtUnixNano = 0\<rparr>))\<rparr>"

definition NewReleaseLockCmd :: "string \<Rightarrow> uint64 \<Rightarrow> CommandWrapper" where
  "NewReleaseLockCmd lockName leaseID =
     \<lparr>Wrapper_Type = COMMAND_TYPE_RELEASE_LOCK,
      Wrapper_Payload = Some (CommandWrapper_ReleaseLock (Some
        \<lparr>Release_LockName = lockName, Release_LeaseId = leaseID\<rparr>))\<rparr>"

definition NewExpireLeaseCmd :: "uint64 \<Rightarrow> CommandWrapper" where
  "NewExpireLeaseCmd leaseID =
     \<lparr>Wrapper_Type = COMMAND_TYPE_EXPIRE_LEASE,
      Wrapper_Payload = Some (CommandWrapper_ExpireLease (Some
        \<lparr>Expire_LeaseId = leaseID, Expire_ExpiredAtUnixNano = 0\<rparr>))\<rparr>"

definition NewUpsertEndpointCmd :: "string \<Rightarrow> string \<Rightarrow> CommandWrapper" where
  "NewUpsertEndpointCmd nodeID grpcAddress =
     \<lparr>Wrapper_Type = COMMAND_TYPE_UPSERT_ENDPOINT,
      Wrapper_Payload = Some (CommandWrapper_UpsertEndpoint (Some
        \<lparr>Upsert_NodeId = nodeID, Upsert_GrpcAddress = grpcAddress\<rparr>))\<rparr>"

definition NewRemoveEndpointCmd :: "string \<Rightarrow> CommandWrapper" where
  "NewRemoveEndpointCmd nodeID =
     \<lparr>Wrapper_Type = COMMAND_TYPE_REMOVE_ENDPOINT,
      Wrapper_Payload = Some (CommandWrapper_RemoveEndpoint (Some
        \<lparr>Remove_NodeId = nodeID\<rparr>))\<rparr>"

lemmas constructor_defs =
  NewCreateLeaseCmd_def NewAcquireLockCmd_def NewReleaseLockCmd_def NewExpireLeaseCmd_def
  NewUpsertEndpointCmd_def NewRemoveEndpointCmd_def

text \<open>The fields a handler reads from a constructed command are the constructor's arguments.\<close>

lemma create_cmd_fields [simp]:
  "GetType (Some (NewCreateLeaseCmd ow ttl now)) = COMMAND_TYPE_CREATE_LEASE"
  "Create_GetOwnerId (GetCreateLease (Some (NewCreateLeaseCmd ow ttl now))) = ow"
  "Create_GetTtlNanos (GetCreateLease (Some (NewCreateLeaseCmd ow ttl now))) = ttl"
  "Create_GetCreateAtUnixNano (GetCreateLease (Some (NewCreateLeaseCmd ow ttl now))) = unix_nano now"
  by (simp_all add: NewCreateLeaseCmd_def getter_defs)

lemma acquire_cmd_fields [simp]:
  "GetType (Some (NewAcquireLockCmd n ow i)) = COMMAND_TYPE_ACQUIRE_LOCK"
  "Acquire_GetLockName (GetAcquireLock (Some (NewAcquireLockCmd n ow i))) = n"
  "Acquire_GetOwnerId (GetAcquireLock (Some (NewAcquireLockCmd n ow i))) = ow"
  "Acquire_GetLeaseId (GetAcquireLock (Some (NewAcquireLockCmd n ow i))) = i"
  by (simp_all add: NewAcquireLockCmd_def getter_defs)

lemma release_cmd_fields [simp]:
  "GetType (Some (NewReleaseLockCmd n i)) = COMMAND_TYPE_RELEASE_LOCK"
  "Release_GetLockName (GetReleaseLock (Some (NewReleaseLockCmd n i))) = n"
  "Release_GetLeaseId (GetReleaseLock (Some (NewReleaseLockCmd n i))) = i"
  by (simp_all add: NewReleaseLockCmd_def getter_defs)

lemma expire_cmd_fields [simp]:
  "GetType (Some (NewExpireLeaseCmd i)) = COMMAND_TYPE_EXPIRE_LEASE"
  "Expire_GetLeaseId (GetExpireLease (Some (NewExpireLeaseCmd i))) = i"
  by (simp_all add: NewExpireLeaseCmd_def getter_defs)

lemma upsert_cmd_fields [simp]:
  "GetType (Some (NewUpsertEndpointCmd n a)) = COMMAND_TYPE_UPSERT_ENDPOINT"
  "Upsert_GetNodeId (GetUpsertEndpoint (Some (NewUpsertEndpointCmd n a))) = n"
  "Upsert_GetGrpcAddress (GetUpsertEndpoint (Some (NewUpsertEndpointCmd n a))) = a"
  by (simp_all add: NewUpsertEndpointCmd_def getter_defs)

lemma remove_cmd_fields [simp]:
  "GetType (Some (NewRemoveEndpointCmd n)) = COMMAND_TYPE_REMOVE_ENDPOINT"
  "Remove_GetNodeId (GetRemoveEndpoint (Some (NewRemoveEndpointCmd n))) = n"
  by (simp_all add: NewRemoveEndpointCmd_def getter_defs)

end
