(* ===== verification/FSM_Model.thy ===== *)
theory FSM_Model
  imports Raftlog
begin

text \<open>
  \<open>internal/state/fsm.go\<close>: the replicated state machine. The record holds the three maps
  (locks and leases through pointers, as in the code) and the two counters. Every handler
  takes the state and returns its Go result pair, the new state and the lock names passed to
  \<open>lockFreed\<close>, in call order: the hook runs inside \<open>Apply\<close> and must not call back, so
  its effect on the rest of the node is determined by that list. A dereference of a nil
  pointer is the outcome \<open>Panic\<close>.
\<close>

section \<open>State\<close>

record FSM =
  locks :: "(string, Lock ptr) gomap"
  leases :: "(uint64, Lease ptr) gomap"
  endpoints :: "(string, string) gomap"
  fencingCounter :: uint64
  nextLeaseID :: uint64

definition NewFSM :: FSM where
  "NewFSM = \<lparr>locks = [], leases = [], endpoints = [], fencingCounter = 0, nextLeaseID = 1\<rparr>"

record CreateLeaseResponse =
  CreateResp_LeaseID :: uint64
  CreateResp_ExpiresAt :: time
  CreateResp_TTL :: duration

record AcquireLockResponse =
  AcquireResp_FencingToken :: uint64
  AcquireResp_LeaseTTL :: duration

text \<open>\<open>LocksReleased\<close> counts entries of a map in memory, far below the range of a Go \<open>int\<close>.\<close>

record ExpireLeaseResponse =
  ExpireResp_LocksReleased :: nat

text \<open>The untyped response: nil or one of the typed responses.\<close>

datatype response =
    NilResponse
  | RespCreateLease CreateLeaseResponse
  | RespAcquireLock AcquireLockResponse
  | RespExpireLease ExpireLeaseResponse

type_synonym apply_result = "(goerr + response) \<times> FSM \<times> string list"

section \<open>Handlers\<close>

definition commandTime :: "int64 \<Rightarrow> goerr + time" where
  "commandTime unixNano =
     (if sint unixNano \<le> 0 then Inl (Sentinel ErrInvalidTimestamp)
      else Inr (time_unix unixNano))"

definition leaseExpiryAt :: "time \<Rightarrow> duration \<Rightarrow> goerr + time" where
  "leaseExpiryAt start ttl =
     (let maxExpiryNanos = max_int64 - unix_nano start in
      if sint ttl \<le> 0 \<or> sint maxExpiryNanos \<le> 0 \<or> sint ttl > sint maxExpiryNanos
      then Inl (Sentinel ErrInvalidLeaseTTL)
      else Inr (time_add start ttl))"

definition applyCreateLease :: "FSM \<Rightarrow> CreateLeaseCommand ptr \<Rightarrow> apply_result" where
  "applyCreateLease f cmd =
     (let ttl = Create_GetTtlNanos cmd in
      if sint ttl \<le> 0 then (Inl (Sentinel ErrInvalidLeaseTTL), f, [])
      else
        (case commandTime (Create_GetCreateAtUnixNano cmd) of
           Inl err \<Rightarrow> (Inl err, f, [])
         | Inr createdAt \<Rightarrow>
             (case leaseExpiryAt createdAt ttl of
                Inl err \<Rightarrow> (Inl err, f, [])
              | Inr expiresAt \<Rightarrow>
                  (let leaseID = nextLeaseID f;
                       lease = \<lparr>Lease_LeaseID = leaseID, Lease_OwnerID = Create_GetOwnerId cmd,
                                Lease_ExpiresAtUnixNano = unix_nano expiresAt, Lease_TTL = ttl\<rparr>
                   in (Inr (RespCreateLease
                          \<lparr>CreateResp_LeaseID = leaseID, CreateResp_ExpiresAt = expiresAt,
                           CreateResp_TTL = ttl\<rparr>),
                       f\<lparr>nextLeaseID := nextLeaseID f + 1,
                         leases := mput leaseID (Some lease) (leases f)\<rparr>,
                       [])))))"

definition applyAcquireLock :: "FSM \<Rightarrow> AcquireLockCommand ptr \<Rightarrow> apply_result go" where
  "applyAcquireLock f cmd =
     (case mget (leases f) (Acquire_GetLeaseId cmd) of
        None \<Rightarrow> Ret (Inl (Sentinel ErrLeaseNotFound), f, [])
      | Some None \<Rightarrow> Panic
      | Some (Some lease) \<Rightarrow>
          (if Lease_OwnerID lease \<noteq> Acquire_GetOwnerId cmd
           then Ret (Inl (Sentinel ErrNotLockOwner), f, [])
           else
             (case mget (locks f) (Acquire_GetLockName cmd) of
                Some None \<Rightarrow> Panic
              | Some (Some existingLock) \<Rightarrow>
                  (if Lock_LeaseID existingLock = Acquire_GetLeaseId cmd
                   then Ret (Inr (RespAcquireLock
                          \<lparr>AcquireResp_FencingToken = Lock_FencingToken existingLock,
                           AcquireResp_LeaseTTL = Lease_TTL lease\<rparr>), f, [])
                   else Ret (Inl (Sentinel ErrLockAlreadyHeld), f, []))
              | None \<Rightarrow>
                  (let fencingToken = fencingCounter f + 1;
                       lock = \<lparr>Lock_Name = Acquire_GetLockName cmd,
                               Lock_OwnerID = Acquire_GetOwnerId cmd,
                               Lock_FencingToken = fencingToken,
                               Lock_LeaseID = Acquire_GetLeaseId cmd\<rparr>
                   in Ret (Inr (RespAcquireLock
                          \<lparr>AcquireResp_FencingToken = fencingToken,
                           AcquireResp_LeaseTTL = Lease_TTL lease\<rparr>),
                        f\<lparr>fencingCounter := fencingToken,
                          locks := mput (Acquire_GetLockName cmd) (Some lock) (locks f)\<rparr>,
                        [])))))"

definition applyReleaseLock :: "FSM \<Rightarrow> ReleaseLockCommand ptr \<Rightarrow> apply_result go" where
  "applyReleaseLock f cmd =
     (case mget (locks f) (Release_GetLockName cmd) of
        None \<Rightarrow> Ret (Inl (Sentinel ErrLockNotFound), f, [])
      | Some None \<Rightarrow> Panic
      | Some (Some lock) \<Rightarrow>
          (if Lock_LeaseID lock \<noteq> Release_GetLeaseId cmd
           then Ret (Inl (Sentinel ErrNotLockOwner), f, [])
           else Ret (Inr NilResponse,
                  f\<lparr>locks := mdel (Release_GetLockName cmd) (locks f)\<rparr>,
                  [Release_GetLockName cmd])))"

text \<open>
  The loop of \<open>applyExpireLease\<close> over the lock map: the entries still to visit, the map
  (entries are deleted while ranging, which Go allows), the count and the freed names.
\<close>

fun expireLoop :: "uint64 \<Rightarrow> (string, Lock ptr) gomap \<Rightarrow> (string, Lock ptr) gomap \<Rightarrow> nat \<Rightarrow>
    string list \<Rightarrow> ((string, Lock ptr) gomap \<times> nat \<times> string list) go" where
  "expireLoop leaseID [] m locksReleased freed = Ret (m, locksReleased, freed)"
| "expireLoop leaseID ((lockName, None) # es) m locksReleased freed = Panic"
| "expireLoop leaseID ((lockName, Some lock) # es) m locksReleased freed =
     (if Lock_LeaseID lock = leaseID
      then expireLoop leaseID es (mdel lockName m) (Suc locksReleased) (freed @ [lockName])
      else expireLoop leaseID es m locksReleased freed)"

definition applyExpireLease :: "FSM \<Rightarrow> ExpireLeaseCommand ptr \<Rightarrow> apply_result go" where
  "applyExpireLease f cmd =
     (case mget (leases f) (Expire_GetLeaseId cmd) of
        None \<Rightarrow> Ret (Inr (RespExpireLease \<lparr>ExpireResp_LocksReleased = 0\<rparr>), f, [])
      | Some None \<Rightarrow> Panic
      | Some (Some lease) \<Rightarrow>
          (case expireLoop (Lease_LeaseID lease) (locks f) (locks f) 0 [] of
             Panic \<Rightarrow> Panic
           | Ret (m, locksReleased, freed) \<Rightarrow>
               Ret (Inr (RespExpireLease \<lparr>ExpireResp_LocksReleased = locksReleased\<rparr>),
                 f\<lparr>locks := m, leases := mdel (Lease_LeaseID lease) (leases f)\<rparr>,
                 freed)))"

definition applyUpsertEndpoint :: "FSM \<Rightarrow> UpsertEndpointCommand ptr \<Rightarrow> apply_result" where
  "applyUpsertEndpoint f cmd =
     (if Upsert_GetNodeId cmd = '''' \<or> Upsert_GetGrpcAddress cmd = ''''
      then (Inl (Sentinel ErrInvalidClusterNode), f, [])
      else (Inr NilResponse,
            f\<lparr>endpoints := mput (Upsert_GetNodeId cmd) (Upsert_GetGrpcAddress cmd) (endpoints f)\<rparr>,
            []))"

definition applyRemoveEndpoint :: "FSM \<Rightarrow> RemoveEndpointCommand ptr \<Rightarrow> apply_result" where
  "applyRemoveEndpoint f cmd =
     (if Remove_GetNodeId cmd = '''' then (Inl (Sentinel ErrInvalidClusterNode), f, [])
      else (Inr NilResponse, f\<lparr>endpoints := mdel (Remove_GetNodeId cmd) (endpoints f)\<rparr>, []))"

definition Apply :: "FSM \<Rightarrow> CommandWrapper ptr \<Rightarrow> apply_result go" where
  "Apply f cmd =
     (if GetType cmd = COMMAND_TYPE_CREATE_LEASE then Ret (applyCreateLease f (GetCreateLease cmd))
      else if GetType cmd = COMMAND_TYPE_RENEW_LEASE then Ret (Inr NilResponse, f, [])
      else if GetType cmd = COMMAND_TYPE_ACQUIRE_LOCK then applyAcquireLock f (GetAcquireLock cmd)
      else if GetType cmd = COMMAND_TYPE_RELEASE_LOCK then applyReleaseLock f (GetReleaseLock cmd)
      else if GetType cmd = COMMAND_TYPE_EXPIRE_LEASE then applyExpireLease f (GetExpireLease cmd)
      else if GetType cmd = COMMAND_TYPE_UPSERT_ENDPOINT
        then Ret (applyUpsertEndpoint f (GetUpsertEndpoint cmd))
      else if GetType cmd = COMMAND_TYPE_REMOVE_ENDPOINT
        then Ret (applyRemoveEndpoint f (GetRemoveEndpoint cmd))
      else Ret (Inl (Wrapped ''unknown command type'' (Sentinel ErrUnknownCommand)), f, []))"

section \<open>Reads\<close>

definition GetLock :: "FSM \<Rightarrow> string \<Rightarrow> Lock option go" where
  "GetLock f lockName =
     (case mget (locks f) lockName of
        None \<Rightarrow> Ret None | Some None \<Rightarrow> Panic | Some (Some lock) \<Rightarrow> Ret (Some lock))"

definition GetLease :: "FSM \<Rightarrow> uint64 \<Rightarrow> Lease option go" where
  "GetLease f leaseID =
     (case mget (leases f) leaseID of
        None \<Rightarrow> Ret None | Some None \<Rightarrow> Panic | Some (Some lease) \<Rightarrow> Ret (Some lease))"

definition GetEndpoint :: "FSM \<Rightarrow> string \<Rightarrow> string option" where
  "GetEndpoint f nodeID = mget (endpoints f) nodeID"

record Stats =
  Stats_Locks :: nat
  Stats_Leases :: nat
  Stats_FencingCounter :: uint64

definition FSM_Stats :: "FSM \<Rightarrow> Stats" where
  "FSM_Stats f = \<lparr>Stats_Locks = length (locks f), Stats_Leases = length (leases f),
                  Stats_FencingCounter = fencingCounter f\<rparr>"

fun derefAll :: "(uint64, Lease ptr) gomap \<Rightarrow> Lease list go" where
  "derefAll [] = Ret []"
| "derefAll ((k, None) # es) = Panic"
| "derefAll ((k, Some lease) # es) =
     (case derefAll es of Panic \<Rightarrow> Panic | Ret ls \<Rightarrow> Ret (lease # ls))"

definition Leases :: "FSM \<Rightarrow> Lease list go" where
  "Leases f = derefAll (leases f)"

section \<open>Hook\<close>

text \<open>
  \<open>lockFreed\<close> calls the registered hook, if any; the hook acts on the state \<open>'q\<close> of the
  component that registered it.
\<close>

definition lockFreed :: "(string \<Rightarrow> 'q \<Rightarrow> 'q) option \<Rightarrow> string \<Rightarrow> 'q \<Rightarrow> 'q" where
  "lockFreed onLockFreed lockName q =
     (case onLockFreed of None \<Rightarrow> q | Some fn \<Rightarrow> fn lockName q)"

definition runHook :: "(string \<Rightarrow> 'q \<Rightarrow> 'q) option \<Rightarrow> string list \<Rightarrow> 'q \<Rightarrow> 'q" where
  "runHook onLockFreed freed q = fold (lockFreed onLockFreed) freed q"

end
