(* ===== verification/FSM_Invariants.thy ===== *)
theory FSM_Invariants
  imports FSM_Model
begin

text \<open>
  Correctness of the state machine of \<open>fsm.go\<close>, part 1: well-formedness (no nil pointer
  and no repeated key), the business invariant of the type comment, the closed form of the
  expiry loop, preservation by every handler, and the interpretation of the generic
  machine: any log of fewer than \<open>2 ^ 64 - 2\<close> commands is applied without a panic.
\<close>

section \<open>Views of the state\<close>

definition lock_at :: "FSM \<Rightarrow> string \<Rightarrow> Lock option" where
  "lock_at f n = Option.bind (mget (locks f) n) id"

definition lease_at :: "FSM \<Rightarrow> uint64 \<Rightarrow> Lease option" where
  "lease_at f i = Option.bind (mget (leases f) i) id"

definition fsm_wf :: "FSM \<Rightarrow> bool" where
  "fsm_wf f \<longleftrightarrow> map_ok (locks f) \<and> map_ok (leases f) \<and> map_ok (endpoints f) \<and>
     (\<forall>n. mget (locks f) n \<noteq> Some None) \<and> (\<forall>i. mget (leases f) i \<noteq> Some None)"

lemma lock_at_iff: "fsm_wf f \<Longrightarrow> mget (locks f) n = Some p \<longleftrightarrow> (\<exists>k. p = Some k \<and> lock_at f n = Some k)"
  by (cases p) (auto simp: fsm_wf_def lock_at_def bind_eq_Some_conv)

lemma lock_at_None: "fsm_wf f \<Longrightarrow> mget (locks f) n = None \<longleftrightarrow> lock_at f n = None"
  by (cases "mget (locks f) n") (auto simp: fsm_wf_def lock_at_def, metis not_None_eq)

lemma lease_at_iff: "fsm_wf f \<Longrightarrow> mget (leases f) i = Some p \<longleftrightarrow> (\<exists>l. p = Some l \<and> lease_at f i = Some l)"
  by (cases p) (auto simp: fsm_wf_def lease_at_def bind_eq_Some_conv)

lemma lease_at_None: "fsm_wf f \<Longrightarrow> mget (leases f) i = None \<longleftrightarrow> lease_at f i = None"
  by (cases "mget (leases f) i") (auto simp: fsm_wf_def lease_at_def, metis not_None_eq)

lemmas view_iffs = lock_at_iff lock_at_None lease_at_iff lease_at_None

text \<open>The invariant the type comment of \<open>FSM\<close> lists, over the views.\<close>

definition lease_ok :: "FSM \<Rightarrow> uint64 \<Rightarrow> Lease \<Rightarrow> bool" where
  "lease_ok f i l \<longleftrightarrow> Lease_LeaseID l = i \<and> 0 < unat i \<and> unat i < unat (nextLeaseID f) \<and>
     0 < sint (Lease_TTL l) \<and> 0 < sint (Lease_ExpiresAtUnixNano l)"

definition lock_ok :: "FSM \<Rightarrow> string \<Rightarrow> Lock \<Rightarrow> bool" where
  "lock_ok f n k \<longleftrightarrow> Lock_Name k = n \<and>
     0 < unat (Lock_FencingToken k) \<and> unat (Lock_FencingToken k) \<le> unat (fencingCounter f) \<and>
     (\<exists>l. lease_at f (Lock_LeaseID k) = Some l \<and> Lease_OwnerID l = Lock_OwnerID k)"

definition fsm_inv :: "FSM \<Rightarrow> bool" where
  "fsm_inv f \<longleftrightarrow> fsm_wf f \<and> 0 < unat (nextLeaseID f) \<and>
     (\<forall>i l. lease_at f i = Some l \<longrightarrow> lease_ok f i l) \<and>
     (\<forall>n k. lock_at f n = Some k \<longrightarrow> lock_ok f n k) \<and>
     (\<forall>n m k k'. lock_at f n = Some k \<longrightarrow> lock_at f m = Some k' \<longrightarrow>
        Lock_FencingToken k = Lock_FencingToken k' \<longrightarrow> n = m) \<and>
     (\<forall>n a. GetEndpoint f n = Some a \<longrightarrow> n \<noteq> [] \<and> a \<noteq> [])"

lemma fsm_inv_wf: "fsm_inv f \<Longrightarrow> fsm_wf f"
  by (simp add: fsm_inv_def)

lemma fsm_inv_leaseD: "fsm_inv f \<Longrightarrow> lease_at f i = Some l \<Longrightarrow> lease_ok f i l"
  by (simp add: fsm_inv_def)

lemma fsm_inv_lockD: "fsm_inv f \<Longrightarrow> lock_at f n = Some k \<Longrightarrow> lock_ok f n k"
  by (simp add: fsm_inv_def)

lemma fsm_inv_tokenD:
  "fsm_inv f \<Longrightarrow> lock_at f n = Some k \<Longrightarrow> lock_at f m = Some k' \<Longrightarrow>
     Lock_FencingToken k = Lock_FencingToken k' \<Longrightarrow> n = m"
  unfolding fsm_inv_def by blast

lemma fsm_inv_endpointD: "fsm_inv f \<Longrightarrow> GetEndpoint f n = Some a \<Longrightarrow> n \<noteq> [] \<and> a \<noteq> []"
  by (simp add: fsm_inv_def)

lemma fsm_inv_endpoint_map:
  "fsm_inv f \<Longrightarrow> mget (endpoints f) n = Some a \<Longrightarrow> n \<noteq> [] \<and> a \<noteq> []"
  using fsm_inv_endpointD by (simp add: GetEndpoint_def)

lemma fsm_invI:
  assumes "fsm_wf f" and "0 < unat (nextLeaseID f)"
    and "\<And>i l. lease_at f i = Some l \<Longrightarrow> lease_ok f i l"
    and "\<And>n k. lock_at f n = Some k \<Longrightarrow> lock_ok f n k"
    and "\<And>n m k k'. lock_at f n = Some k \<Longrightarrow> lock_at f m = Some k' \<Longrightarrow>
      Lock_FencingToken k = Lock_FencingToken k' \<Longrightarrow> n = m"
    and "\<And>n a. GetEndpoint f n = Some a \<Longrightarrow> n \<noteq> [] \<and> a \<noteq> []"
  shows "fsm_inv f"
  unfolding fsm_inv_def using assms by blast

lemma fsm_inv_NewFSM [inv_intros]: "fsm_inv NewFSM"
  by (simp add: fsm_inv_def fsm_wf_def NewFSM_def lock_at_def lease_at_def GetEndpoint_def)

section \<open>Views after updates\<close>

lemma lock_at_simps [simp]:
  "map_ok (locks f) \<Longrightarrow>
     lock_at (f\<lparr>fencingCounter := c, locks := mput n p (locks f)\<rparr>) = (lock_at f)(n := p)"
  "map_ok (locks f) \<Longrightarrow> lock_at (f\<lparr>locks := mdel n (locks f)\<rparr>) = (lock_at f)(n := None)"
  "lock_at (f\<lparr>leases := ls\<rparr>) = lock_at f"
  "lock_at (f\<lparr>endpoints := es\<rparr>) = lock_at f"
  "lock_at (f\<lparr>nextLeaseID := i\<rparr>) = lock_at f"
  by (auto simp: lock_at_def fun_eq_iff)

lemma lease_at_simps [simp]:
  "map_ok (leases f) \<Longrightarrow>
     lease_at (f\<lparr>nextLeaseID := j, leases := mput i p (leases f)\<rparr>) = (lease_at f)(i := p)"
  "lease_at (f\<lparr>fencingCounter := c\<rparr>) = lease_at f"
  "lease_at (f\<lparr>locks := ks\<rparr>) = lease_at f"
  "lease_at (f\<lparr>endpoints := es\<rparr>) = lease_at f"
  by (auto simp: lease_at_def fun_eq_iff)

section \<open>The expiry loop\<close>

definition held_by_lease :: "uint64 \<Rightarrow> string \<times> Lock ptr \<Rightarrow> bool" where
  "held_by_lease i e \<longleftrightarrow> (case snd e of None \<Rightarrow> False | Some k \<Rightarrow> Lock_LeaseID k = i)"

definition names_of_lease :: "uint64 \<Rightarrow> (string, Lock ptr) gomap \<Rightarrow> string list" where
  "names_of_lease i es = map fst (filter (held_by_lease i) es)"

lemma expireLoop_eq:
  "None \<notin> snd ` set es \<Longrightarrow>
     expireLoop i es m n freed =
       Ret (fold mdel (names_of_lease i es) m, n + length (names_of_lease i es),
            freed @ names_of_lease i es)"
proof (induction i es m n freed rule: expireLoop.induct)
  case (3 i name lock es m n freed)
  then have "None \<notin> snd ` set es" by auto
  with 3 show ?case by (auto simp: names_of_lease_def held_by_lease_def)
qed (auto simp: names_of_lease_def)

lemma map_ok_fold_mdel: "map_ok m \<Longrightarrow> map_ok (fold mdel ns m)"
  by (induction ns arbitrary: m) auto

lemma mget_fold_mdel:
  "map_ok m \<Longrightarrow> mget (fold mdel ns m) n = (if n \<in> set ns then None else mget m n)"
  by (induction ns arbitrary: m) auto

lemma wf_no_nil_lock: "fsm_wf f \<Longrightarrow> None \<notin> snd ` set (locks f)"
  by (auto simp: fsm_wf_def map_ok_def)

lemma wf_no_nil_lease: "fsm_wf f \<Longrightarrow> None \<notin> snd ` set (leases f)"
  by (auto simp: fsm_wf_def map_ok_def)

lemma names_of_lease_iff:
  assumes "fsm_wf f"
  shows "n \<in> set (names_of_lease i (locks f)) \<longleftrightarrow>
    (\<exists>k. lock_at f n = Some k \<and> Lock_LeaseID k = i)"
proof -
  have "n \<in> set (names_of_lease i (locks f)) \<longleftrightarrow>
      (\<exists>p. (n, p) \<in> set (locks f) \<and> held_by_lease i (n, p))"
    by (auto simp: names_of_lease_def image_iff)
  also have "\<dots> \<longleftrightarrow> (\<exists>p. mget (locks f) n = Some p \<and> held_by_lease i (n, p))"
    using assms by (simp add: gm.entries_iff fsm_wf_def)
  also have "\<dots> \<longleftrightarrow> (\<exists>k. lock_at f n = Some k \<and> Lock_LeaseID k = i)"
    using assms by (auto simp: lock_at_iff held_by_lease_def)
  finally show ?thesis .
qed

lemma distinct_names_of_lease: "fsm_wf f \<Longrightarrow> distinct (names_of_lease i (locks f))"
  by (auto simp: names_of_lease_def fsm_wf_def map_ok_def distinct_map_filter)

text \<open>What the whole handler does, on a well-formed state.\<close>

definition expire_state :: "FSM \<Rightarrow> uint64 \<Rightarrow> FSM" where
  "expire_state f i = f\<lparr>locks := fold mdel (names_of_lease i (locks f)) (locks f),
                        leases := mdel i (leases f)\<rparr>"

lemma applyExpireLease_eq:
  assumes "fsm_wf f"
  shows "applyExpireLease f cmd =
    (case lease_at f (Expire_GetLeaseId cmd) of
       None \<Rightarrow> Ret (Inr (RespExpireLease \<lparr>ExpireResp_LocksReleased = 0\<rparr>), f, [])
     | Some l \<Rightarrow>
         Ret (Inr (RespExpireLease
                \<lparr>ExpireResp_LocksReleased = length (names_of_lease (Lease_LeaseID l) (locks f))\<rparr>),
              expire_state f (Lease_LeaseID l), names_of_lease (Lease_LeaseID l) (locks f)))"
  using assms
  by (cases "mget (leases f) (Expire_GetLeaseId cmd)")
    (auto simp: applyExpireLease_def expireLoop_eq wf_no_nil_lock view_iffs expire_state_def
      split: option.splits)

lemma lock_at_expire:
  "fsm_wf f \<Longrightarrow> lock_at (expire_state f i) n =
     (case lock_at f n of None \<Rightarrow> None | Some k \<Rightarrow> if Lock_LeaseID k = i then None else Some k)"
  using names_of_lease_iff [of f n i]
  by (auto simp: expire_state_def lock_at_def mget_fold_mdel fsm_wf_def split: option.splits)

lemma lease_at_expire:
  "fsm_wf f \<Longrightarrow> lease_at (expire_state f i) = (lease_at f)(i := None)"
  by (auto simp: expire_state_def lease_at_def fsm_wf_def fun_eq_iff)

lemma expire_state_frame [simp]:
  "endpoints (expire_state f i) = endpoints f"
  "fencingCounter (expire_state f i) = fencingCounter f"
  "nextLeaseID (expire_state f i) = nextLeaseID f"
  by (simp_all add: expire_state_def)

lemma fsm_wf_expire: "fsm_wf f \<Longrightarrow> fsm_wf (expire_state f i)"
  by (auto simp: fsm_wf_def expire_state_def map_ok_fold_mdel mget_fold_mdel)

section \<open>Handlers over the views\<close>

lemma leaseExpiryAt_eq:
  assumes "0 < sint c"
  shows "leaseExpiryAt (time_unix c) ttl =
    (if sint ttl \<le> 0 \<or> 2 ^ 63 - 1 < sint c + sint ttl
     then Inl (Sentinel ErrInvalidLeaseTTL) else Inr (sint c + sint ttl))"
proof -
  have "sint (max_int64 - c) = 2 ^ 63 - 1 - sint c"
    using assms sint64_upper [of c] by (subst sint64_minus) auto
  then show ?thesis
    by (auto simp: leaseExpiryAt_def time_add_def Let_def) (auto simp: time_unix_def)
qed

definition create_ok :: "CreateLeaseCommand ptr \<Rightarrow> bool" where
  "create_ok cmd \<longleftrightarrow> 0 < sint (Create_GetTtlNanos cmd) \<and>
     0 < sint (Create_GetCreateAtUnixNano cmd) \<and>
     sint (Create_GetCreateAtUnixNano cmd) + sint (Create_GetTtlNanos cmd) \<le> 2 ^ 63 - 1"

definition create_lease :: "FSM \<Rightarrow> CreateLeaseCommand ptr \<Rightarrow> Lease" where
  "create_lease f cmd =
     \<lparr>Lease_LeaseID = nextLeaseID f, Lease_OwnerID = Create_GetOwnerId cmd,
      Lease_ExpiresAtUnixNano =
        word_of_int (sint (Create_GetCreateAtUnixNano cmd) + sint (Create_GetTtlNanos cmd)),
      Lease_TTL = Create_GetTtlNanos cmd\<rparr>"

lemma applyCreateLease_ok:
  "create_ok cmd \<Longrightarrow> applyCreateLease f cmd =
     (Inr (RespCreateLease
        \<lparr>CreateResp_LeaseID = nextLeaseID f,
         CreateResp_ExpiresAt =
           sint (Create_GetCreateAtUnixNano cmd) + sint (Create_GetTtlNanos cmd),
         CreateResp_TTL = Create_GetTtlNanos cmd\<rparr>),
      f\<lparr>nextLeaseID := nextLeaseID f + 1,
        leases := mput (nextLeaseID f) (Some (create_lease f cmd)) (leases f)\<rparr>, [])"
  by (auto simp: create_ok_def applyCreateLease_def commandTime_def leaseExpiryAt_eq
      create_lease_def unix_nano_def Let_def)

lemma applyCreateLease_error:
  "\<not> create_ok cmd \<Longrightarrow> applyCreateLease f cmd =
     (Inl (Sentinel (if 0 < sint (Create_GetTtlNanos cmd) \<and> sint (Create_GetCreateAtUnixNano cmd) \<le> 0
                     then ErrInvalidTimestamp else ErrInvalidLeaseTTL)), f, [])"
  by (auto simp: create_ok_def applyCreateLease_def commandTime_def leaseExpiryAt_eq Let_def)

definition grant_lock :: "FSM \<Rightarrow> AcquireLockCommand ptr \<Rightarrow> Lock" where
  "grant_lock f cmd =
     \<lparr>Lock_Name = Acquire_GetLockName cmd, Lock_OwnerID = Acquire_GetOwnerId cmd,
      Lock_FencingToken = fencingCounter f + 1, Lock_LeaseID = Acquire_GetLeaseId cmd\<rparr>"

lemma applyAcquireLock_eq:
  assumes "fsm_wf f"
  shows "applyAcquireLock f cmd =
    (case lease_at f (Acquire_GetLeaseId cmd) of
       None \<Rightarrow> Ret (Inl (Sentinel ErrLeaseNotFound), f, [])
     | Some l \<Rightarrow>
         if Lease_OwnerID l \<noteq> Acquire_GetOwnerId cmd
         then Ret (Inl (Sentinel ErrNotLockOwner), f, [])
         else case lock_at f (Acquire_GetLockName cmd) of
           None \<Rightarrow> Ret (Inr (RespAcquireLock
               \<lparr>AcquireResp_FencingToken = fencingCounter f + 1, AcquireResp_LeaseTTL = Lease_TTL l\<rparr>),
             f\<lparr>fencingCounter := fencingCounter f + 1,
               locks := mput (Acquire_GetLockName cmd) (Some (grant_lock f cmd)) (locks f)\<rparr>, [])
         | Some k \<Rightarrow>
             if Lock_LeaseID k = Acquire_GetLeaseId cmd
             then Ret (Inr (RespAcquireLock
               \<lparr>AcquireResp_FencingToken = Lock_FencingToken k,
                AcquireResp_LeaseTTL = Lease_TTL l\<rparr>), f, [])
             else Ret (Inl (Sentinel ErrLockAlreadyHeld), f, []))"
  using assms
  by (auto simp: applyAcquireLock_def view_iffs grant_lock_def Let_def split: option.splits)

lemma applyReleaseLock_eq:
  assumes "fsm_wf f"
  shows "applyReleaseLock f cmd =
    (case lock_at f (Release_GetLockName cmd) of
       None \<Rightarrow> Ret (Inl (Sentinel ErrLockNotFound), f, [])
     | Some k \<Rightarrow>
         if Lock_LeaseID k \<noteq> Release_GetLeaseId cmd
         then Ret (Inl (Sentinel ErrNotLockOwner), f, [])
         else Ret (Inr NilResponse, f\<lparr>locks := mdel (Release_GetLockName cmd) (locks f)\<rparr>,
                [Release_GetLockName cmd]))"
  using assms by (auto simp: applyReleaseLock_def view_iffs split: option.splits)

lemmas handler_eqs = applyAcquireLock_eq applyReleaseLock_eq applyExpireLease_eq

section \<open>Preservation, one handler at a time\<close>

lemma create_lease_ok:
  assumes "create_ok cmd" "0 < unat (nextLeaseID f)"
    and "unat (nextLeaseID f) + 1 < 2 ^ 64"
  shows "lease_ok (f\<lparr>nextLeaseID := nextLeaseID f + 1, leases := ls\<rparr>) (nextLeaseID f)
           (create_lease f cmd)"
proof -
  have "0 < sint (Lease_ExpiresAtUnixNano (create_lease f cmd))"
    unfolding create_lease_def Lease.simps
    using assms(1) by (subst sint64_of_int) (auto simp: create_ok_def)
  then show ?thesis
    using assms unat_Suc64 [OF assms(3)]
    by (simp add: lease_ok_def create_ok_def) (simp add: create_lease_def)
qed

lemma fsm_wf_create:
  "fsm_wf f \<Longrightarrow> fsm_wf (f\<lparr>nextLeaseID := j, leases := mput i (Some l) (leases f)\<rparr>)"
  by (auto simp: fsm_wf_def)

lemma fsm_wf_acquire:
  "fsm_wf f \<Longrightarrow> fsm_wf (f\<lparr>fencingCounter := c, locks := mput n (Some k) (locks f)\<rparr>)"
  by (auto simp: fsm_wf_def)

lemma fsm_inv_create [inv_intros]:
  assumes inv: "fsm_inv f" and bound: "unat (nextLeaseID f) + 1 < 2 ^ 64"
  shows "fsm_inv (fst (snd (applyCreateLease f cmd)))"
proof (cases "create_ok cmd")
  case False
  then show ?thesis using inv by (simp add: applyCreateLease_error)
next
  case True
  let ?f = "f\<lparr>nextLeaseID := nextLeaseID f + 1,
               leases := mput (nextLeaseID f) (Some (create_lease f cmd)) (leases f)\<rparr>"
  have ok: "map_ok (leases f)" using inv by (simp add: fsm_inv_def fsm_wf_def)
  have fresh: "lease_at f (nextLeaseID f) = None"
    using inv by (auto simp: fsm_inv_def lease_ok_def) (meson not_None_eq less_irrefl)
  have new: "lease_ok ?f (nextLeaseID f) (create_lease f cmd)"
    using create_lease_ok [OF True _ bound] inv by (simp add: fsm_inv_def)
  have old: "lease_ok ?f i l" if "lease_at f i = Some l" for i l
    using fsm_inv_leaseD [OF inv that] unat_Suc64 [OF bound] by (simp add: lease_ok_def)
  have locks: "lock_ok ?f n k" if "lock_at f n = Some k" for n k
    using fsm_inv_lockD [OF inv that] fresh ok by (auto simp: lock_ok_def)
  have "fsm_inv ?f"
  proof (rule fsm_invI)
    show "fsm_wf ?f" by (rule fsm_wf_create [OF fsm_inv_wf [OF inv]])
    show "lease_ok ?f i l" if "lease_at ?f i = Some l" for i l
      using that ok new old by (simp split: if_splits)
    show "m \<noteq> [] \<and> a \<noteq> []" if "GetEndpoint ?f m = Some a" for m a
      using that fsm_inv_endpointD [OF inv] by (simp add: GetEndpoint_def)
  qed (use locks fsm_inv_tokenD [OF inv] unat_Suc64 [OF bound] in simp_all)
  then show ?thesis by (simp add: applyCreateLease_ok [OF True])
qed

lemma fsm_inv_grant:
  assumes inv: "fsm_inv f" and bound: "unat (fencingCounter f) + 1 < 2 ^ 64"
    and free: "lock_at f n = None"
    and lease: "lease_at f (Lock_LeaseID k) = Some l" "Lease_OwnerID l = Lock_OwnerID k"
    and k: "Lock_Name k = n" "Lock_FencingToken k = fencingCounter f + 1"
  shows "fsm_inv (f\<lparr>fencingCounter := fencingCounter f + 1, locks := mput n (Some k) (locks f)\<rparr>)"
    (is "fsm_inv ?f")
proof -
  have ok: "map_ok (locks f)" using inv by (simp add: fsm_inv_def fsm_wf_def)
  have tok: "unat (fencingCounter f + 1) = unat (fencingCounter f) + 1"
    by (rule unat_Suc64 [OF bound])
  have old: "unat (Lock_FencingToken k') \<le> unat (fencingCounter f)" "lock_ok ?f m k'"
    if "lock_at f m = Some k'" for m k'
    using fsm_inv_lockD [OF inv that] tok by (auto simp: lock_ok_def)
  have differ: "Lock_FencingToken k' \<noteq> Lock_FencingToken k" if "lock_at f m = Some k'" for m k'
    using old(1) [OF that] tok k(2) by auto
  have new: "lock_ok ?f n k" using lease k tok by (auto simp: lock_ok_def)
  have ls: "lease_ok ?f i l" if "lease_at f i = Some l" for i l
    using fsm_inv_leaseD [OF inv that] by (simp add: lease_ok_def)
  have uniq: "m = m'" if "lock_at ?f m = Some a" "lock_at ?f m' = Some b"
    "Lock_FencingToken a = Lock_FencingToken b" for m m' a b
    using that ok differ [of m a] differ [of m' b] fsm_inv_tokenD [OF inv, of m a m' b]
    by (simp split: if_splits)
  show ?thesis
  proof (rule fsm_invI)
    show "fsm_wf ?f" by (rule fsm_wf_acquire [OF fsm_inv_wf [OF inv]])
    show "lock_ok ?f m a" if "lock_at ?f m = Some a" for m a
      using that ok new old(2) by (simp split: if_splits)
    show "m \<noteq> [] \<and> a \<noteq> []" if "GetEndpoint ?f m = Some a" for m a
      using that fsm_inv_endpointD [OF inv] by (simp add: GetEndpoint_def)
  qed (use inv ls uniq in \<open>simp_all add: fsm_inv_def\<close>)
qed

lemma fsm_inv_release [inv_intros]:
  assumes inv: "fsm_inv f"
  shows "fsm_inv (f\<lparr>locks := mdel n (locks f)\<rparr>)" (is "fsm_inv ?f")
proof -
  have ok: "map_ok (locks f)" using inv by (simp add: fsm_inv_def fsm_wf_def)
  have old: "lock_at f m = Some k" if "lock_at ?f m = Some k" for m k
    using that ok by (simp split: if_splits)
  show ?thesis
  proof (rule fsm_invI)
    show "fsm_wf ?f" using inv by (simp add: fsm_inv_def fsm_wf_def)
    show "lock_ok ?f m k" if "lock_at ?f m = Some k" for m k
      using fsm_inv_lockD [OF inv old [OF that]] by (simp add: lock_ok_def)
    show "lease_ok ?f i l" if "lease_at ?f i = Some l" for i l
      using that fsm_inv_leaseD [OF inv] by (simp add: lease_ok_def)
    show "m = m'" if "lock_at ?f m = Some a" "lock_at ?f m' = Some b"
      "Lock_FencingToken a = Lock_FencingToken b" for m m' a b
      by (rule fsm_inv_tokenD [OF inv old [OF that(1)] old [OF that(2)] that(3)])
    show "m \<noteq> [] \<and> a \<noteq> []" if "GetEndpoint ?f m = Some a" for m a
      using that fsm_inv_endpointD [OF inv] by (simp add: GetEndpoint_def)
  qed (use inv in \<open>simp add: fsm_inv_def\<close>)
qed

lemma fsm_inv_expire [inv_intros]:
  assumes inv: "fsm_inv f"
  shows "fsm_inv (expire_state f i)" (is "fsm_inv ?f")
proof -
  note wf = fsm_inv_wf [OF inv]
  have old: "lock_at f n = Some k" "Lock_LeaseID k \<noteq> i" if "lock_at ?f n = Some k" for n k
    using that by (simp_all add: lock_at_expire [OF wf] split: option.splits if_splits)
  show ?thesis
  proof (rule fsm_invI)
    show "fsm_wf ?f" by (rule fsm_wf_expire [OF wf])
    show "lock_ok ?f n k" if "lock_at ?f n = Some k" for n k
      using fsm_inv_lockD [OF inv old(1) [OF that]] old(2) [OF that]
      by (simp add: lock_ok_def lease_at_expire [OF wf])
    show "lease_ok ?f j l" if "lease_at ?f j = Some l" for j l
      using that fsm_inv_leaseD [OF inv]
      by (simp add: lease_ok_def lease_at_expire [OF wf] split: if_splits)
    show "m = m'" if "lock_at ?f m = Some a" "lock_at ?f m' = Some b"
      "Lock_FencingToken a = Lock_FencingToken b" for m m' a b
      by (rule fsm_inv_tokenD [OF inv old(1) [OF that(1)] old(1) [OF that(2)] that(3)])
    show "m \<noteq> [] \<and> a \<noteq> []" if "GetEndpoint ?f m = Some a" for m a
      using that fsm_inv_endpointD [OF inv] by (simp add: GetEndpoint_def)
  qed (use inv in \<open>simp add: fsm_inv_def\<close>)
qed

lemma fsm_inv_endpoints:
  assumes inv: "fsm_inv f" and "map_ok es"
    and "\<And>n a. mget es n = Some a \<Longrightarrow> n \<noteq> [] \<and> a \<noteq> []"
  shows "fsm_inv (f\<lparr>endpoints := es\<rparr>)"
proof (rule fsm_invI)
  show "fsm_wf (f\<lparr>endpoints := es\<rparr>)" using assms by (simp add: fsm_inv_def fsm_wf_def)
qed (use assms fsm_inv_leaseD [OF inv] fsm_inv_lockD [OF inv] fsm_inv_tokenD [OF inv] in
    \<open>simp_all add: fsm_inv_def lease_ok_def lock_ok_def GetEndpoint_def\<close>)

lemma fsm_inv_upsert [inv_intros]:
  assumes inv: "fsm_inv f"
  shows "fsm_inv (fst (snd (applyUpsertEndpoint f cmd)))"
proof -
  have "map_ok (endpoints f)" using inv by (simp add: fsm_inv_def fsm_wf_def)
  then show ?thesis
    using inv
    by (auto simp: applyUpsertEndpoint_def dest: fsm_inv_endpoint_map intro!: fsm_inv_endpoints
        split: if_splits)
qed

lemma fsm_inv_remove [inv_intros]:
  assumes inv: "fsm_inv f"
  shows "fsm_inv (fst (snd (applyRemoveEndpoint f cmd)))"
proof -
  have "map_ok (endpoints f)" using inv by (simp add: fsm_inv_def fsm_wf_def)
  then show ?thesis
    using inv
    by (auto simp: applyRemoveEndpoint_def dest: fsm_inv_endpoint_map intro!: fsm_inv_endpoints
        split: if_splits)
qed

section \<open>The whole machine\<close>

text \<open>The counters grow by at most one per command.\<close>

definition fsm_inv_at :: "nat \<Rightarrow> FSM \<Rightarrow> bool" where
  "fsm_inv_at n f \<longleftrightarrow> fsm_inv f \<and> unat (fencingCounter f) \<le> n \<and> unat (nextLeaseID f) \<le> Suc n"

definition log_budget :: nat where
  "log_budget = 2 ^ 64 - 2"

lemma applyAcquireLock_inv:
  assumes inv: "fsm_inv f" and bound: "unat (fencingCounter f) + 1 < 2 ^ 64"
    and step: "applyAcquireLock f cmd = Ret (r, f', freed)"
  shows "fsm_inv f' \<and> nextLeaseID f' = nextLeaseID f \<and>
    (f' = f \<or> fencingCounter f' = fencingCounter f + 1)"
proof (cases "lease_at f (Acquire_GetLeaseId cmd) = None \<or>
    lock_at f (Acquire_GetLockName cmd) \<noteq> None")
  case True
  then have "f' = f"
    using step by (auto simp: applyAcquireLock_eq [OF fsm_inv_wf [OF inv]]
        split: option.splits if_splits)
  then show ?thesis using inv by simp
next
  case False
  then obtain l where l: "lease_at f (Acquire_GetLeaseId cmd) = Some l"
    and free: "lock_at f (Acquire_GetLockName cmd) = None" by auto
  show ?thesis
  proof (cases "Lease_OwnerID l = Acquire_GetOwnerId cmd")
    case True
    have f': "f' = f\<lparr>fencingCounter := fencingCounter f + 1,
        locks := mput (Acquire_GetLockName cmd) (Some (grant_lock f cmd)) (locks f)\<rparr>"
      using step l free True by (simp add: applyAcquireLock_eq [OF fsm_inv_wf [OF inv]])
    have "fsm_inv f'"
      unfolding f' by (rule fsm_inv_grant [OF inv bound free, of "grant_lock f cmd" l])
        (use l True in \<open>simp_all add: grant_lock_def\<close>)
    with f' show ?thesis by simp
  next
    case False
    then have "f' = f"
      using step l by (simp add: applyAcquireLock_eq [OF fsm_inv_wf [OF inv]])
    then show ?thesis using inv by simp
  qed
qed

lemma applyReleaseLock_inv:
  assumes inv: "fsm_inv f" and step: "applyReleaseLock f cmd = Ret (r, f', freed)"
  shows "fsm_inv f' \<and> nextLeaseID f' = nextLeaseID f \<and> fencingCounter f' = fencingCounter f"
  using step inv fsm_inv_release [OF inv]
  by (auto simp: applyReleaseLock_eq [OF fsm_inv_wf [OF inv]] split: option.splits if_splits)

lemma applyExpireLease_inv:
  assumes inv: "fsm_inv f" and step: "applyExpireLease f cmd = Ret (r, f', freed)"
  shows "fsm_inv f' \<and> nextLeaseID f' = nextLeaseID f \<and> fencingCounter f' = fencingCounter f"
  using step inv fsm_inv_expire [OF inv]
  by (auto simp: applyExpireLease_eq [OF fsm_inv_wf [OF inv]] split: option.splits)

lemma applyCreateLease_frame:
  "fencingCounter (fst (snd (applyCreateLease f cmd))) = fencingCounter f"
  "nextLeaseID (fst (snd (applyCreateLease f cmd))) \<in> {nextLeaseID f, nextLeaseID f + 1}"
  by (cases "create_ok cmd"; simp add: applyCreateLease_ok applyCreateLease_error)+

lemma endpoint_frames:
  "fencingCounter (fst (snd (applyUpsertEndpoint f c))) = fencingCounter f"
  "nextLeaseID (fst (snd (applyUpsertEndpoint f c))) = nextLeaseID f"
  "fencingCounter (fst (snd (applyRemoveEndpoint f d))) = fencingCounter f"
  "nextLeaseID (fst (snd (applyRemoveEndpoint f d))) = nextLeaseID f"
  by (simp_all add: applyUpsertEndpoint_def applyRemoveEndpoint_def)

lemma Apply_inv:
  assumes inv: "fsm_inv f" and bounds: "unat (fencingCounter f) + 1 < 2 ^ 64"
      "unat (nextLeaseID f) + 1 < 2 ^ 64"
    and step: "Apply f cmd = Ret (r, f', freed)"
  shows "fsm_inv f' \<and> fencingCounter f' \<in> {fencingCounter f, fencingCounter f + 1} \<and>
    nextLeaseID f' \<in> {nextLeaseID f, nextLeaseID f + 1}"
proof -
  consider "applyCreateLease f (GetCreateLease cmd) = (r, f', freed)"
    | "applyAcquireLock f (GetAcquireLock cmd) = Ret (r, f', freed)"
    | "applyReleaseLock f (GetReleaseLock cmd) = Ret (r, f', freed)"
    | "applyExpireLease f (GetExpireLease cmd) = Ret (r, f', freed)"
    | "applyUpsertEndpoint f (GetUpsertEndpoint cmd) = (r, f', freed)"
    | "applyRemoveEndpoint f (GetRemoveEndpoint cmd) = (r, f', freed)"
    | "f' = f"
    using step by (auto simp: Apply_def split: if_splits)
  then show ?thesis
  proof cases
    case 1
    then show ?thesis
      using fsm_inv_create [OF inv bounds(2), of "GetCreateLease cmd"]
        applyCreateLease_frame [of f "GetCreateLease cmd"] by simp
  next
    case 2
    then show ?thesis using applyAcquireLock_inv [OF inv bounds(1) 2] by auto
  next
    case 3
    then show ?thesis using applyReleaseLock_inv [OF inv 3] by simp
  next
    case 4
    then show ?thesis using applyExpireLease_inv [OF inv 4] by simp
  next
    case 5
    then show ?thesis
      using fsm_inv_upsert [OF inv, of "GetUpsertEndpoint cmd"]
        endpoint_frames(1,2) [of f "GetUpsertEndpoint cmd"] by simp
  next
    case 6
    then show ?thesis
      using fsm_inv_remove [OF inv, of "GetRemoveEndpoint cmd"]
        endpoint_frames(3,4) [of f "GetRemoveEndpoint cmd"] by simp
  qed (use inv in simp)
qed

lemma Apply_returns: "fsm_wf f \<Longrightarrow> returns (Apply f cmd)"
  by (auto simp: Apply_def handler_eqs split: option.splits)

text \<open>One committed log entry as a step of the generic machine.\<close>

definition fsm_step :: "FSM \<Rightarrow> CommandWrapper \<Rightarrow> FSM option" where
  "fsm_step f cmd = (case Apply f (Some cmd) of Panic \<Rightarrow> None | Ret (r, f', freed) \<Rightarrow> Some f')"

lemma fsm_step_inv_at:
  assumes "fsm_inv_at n f" and "n < log_budget" and "fsm_step f cmd = Some f'"
  shows "fsm_inv_at (Suc n) f'"
proof -
  from assms(3) obtain r freed where step: "Apply f (Some cmd) = Ret (r, f', freed)"
    by (auto simp: fsm_step_def split: go.splits)
  from assms(1) have inv: "fsm_inv f" and le: "unat (fencingCounter f) \<le> n" "unat (nextLeaseID f) \<le> Suc n"
    by (simp_all add: fsm_inv_at_def)
  have bounds: "unat (fencingCounter f) + 1 < 2 ^ 64" "unat (nextLeaseID f) + 1 < 2 ^ 64"
    using le assms(2) by (simp_all add: log_budget_def)
  show ?thesis
    using Apply_inv [OF inv bounds step] le unat_Suc64 [OF bounds(1)] unat_Suc64 [OF bounds(2)]
    by (auto simp: fsm_inv_at_def)
qed

interpretation fsm_machine: machine fsm_step fsm_inv_at log_budget
proof
  show "fsm_inv_at (Suc n) s'" if "fsm_inv_at n s" "n < log_budget" "fsm_step s e = Some s'"
    for n s e s' using that by (rule fsm_step_inv_at)
  show "fsm_step s e \<noteq> None" if "fsm_inv_at n s" for n s e
    using Apply_returns [OF fsm_inv_wf, of s "Some e"] that
    by (auto simp: fsm_step_def fsm_inv_at_def returns_def split: go.splits)
qed

lemma fsm_inv_at_NewFSM: "fsm_inv_at 0 NewFSM"
  using fsm_inv_NewFSM by (simp add: fsm_inv_at_def NewFSM_def)

end
