(* ===== verification/FSM_Refinement.thy ===== *)
theory FSM_Refinement
  imports FSM_Invariants
begin

text \<open>
  Correctness of the state machine of \<open>fsm.go\<close>, part 2: an abstract specification of the
  lock service over partial maps and unbounded integers, and the proof that \<open>Apply\<close>
  implements it. The specification names no association list, no pointer, no word
  arithmetic in the expiry check and no iteration order, so the refinement also shows that
  replicas that iterate their maps in different orders stay equal.
\<close>

section \<open>Abstract specification\<close>

record spec =
  sp_locks :: "string \<rightharpoonup> Lock"
  sp_leases :: "uint64 \<rightharpoonup> Lease"
  sp_endpoints :: "string \<rightharpoonup> string"
  sp_token :: uint64
  sp_next :: uint64

datatype command =
    CreateLease string int int
  | AcquireLock string string uint64
  | ReleaseLock string uint64
  | ExpireLease uint64
  | UpsertEndpoint string string
  | RemoveEndpoint string
  | IgnoredRenewal
  | UnknownCommand

definition command_of :: "CommandWrapper ptr \<Rightarrow> command" where
  "command_of c =
     (if GetType c = COMMAND_TYPE_CREATE_LEASE then
        CreateLease (Create_GetOwnerId (GetCreateLease c)) (sint (Create_GetTtlNanos (GetCreateLease c)))
          (sint (Create_GetCreateAtUnixNano (GetCreateLease c)))
      else if GetType c = COMMAND_TYPE_RENEW_LEASE then IgnoredRenewal
      else if GetType c = COMMAND_TYPE_ACQUIRE_LOCK then
        AcquireLock (Acquire_GetLockName (GetAcquireLock c)) (Acquire_GetOwnerId (GetAcquireLock c))
          (Acquire_GetLeaseId (GetAcquireLock c))
      else if GetType c = COMMAND_TYPE_RELEASE_LOCK then
        ReleaseLock (Release_GetLockName (GetReleaseLock c)) (Release_GetLeaseId (GetReleaseLock c))
      else if GetType c = COMMAND_TYPE_EXPIRE_LEASE then
        ExpireLease (Expire_GetLeaseId (GetExpireLease c))
      else if GetType c = COMMAND_TYPE_UPSERT_ENDPOINT then
        UpsertEndpoint (Upsert_GetNodeId (GetUpsertEndpoint c)) (Upsert_GetGrpcAddress (GetUpsertEndpoint c))
      else if GetType c = COMMAND_TYPE_REMOVE_ENDPOINT then
        RemoveEndpoint (Remove_GetNodeId (GetRemoveEndpoint c))
      else UnknownCommand)"

definition locks_of :: "spec \<Rightarrow> uint64 \<Rightarrow> string set" where
  "locks_of s i = {n. \<exists>k. sp_locks s n = Some k \<and> Lock_LeaseID k = i}"

text \<open>Each command in one equation: the answer, the next state, the set of freed locks.\<close>

fun spec_apply :: "spec \<Rightarrow> command \<Rightarrow> (goerr + response) \<times> spec \<times> string set" where
  "spec_apply s (CreateLease owner ttl created) =
     (if ttl \<le> 0 then (Inl (Sentinel ErrInvalidLeaseTTL), s, {})
      else if created \<le> 0 then (Inl (Sentinel ErrInvalidTimestamp), s, {})
      else if created + ttl \<ge> 2 ^ 63 then (Inl (Sentinel ErrInvalidLeaseTTL), s, {})
      else (Inr (RespCreateLease \<lparr>CreateResp_LeaseID = sp_next s,
               CreateResp_ExpiresAt = created + ttl, CreateResp_TTL = word_of_int ttl\<rparr>),
            s\<lparr>sp_next := sp_next s + 1,
              sp_leases := (sp_leases s)(sp_next s \<mapsto>
                \<lparr>Lease_LeaseID = sp_next s, Lease_OwnerID = owner,
                 Lease_ExpiresAtUnixNano = word_of_int (created + ttl),
                 Lease_TTL = word_of_int ttl\<rparr>)\<rparr>, {}))"
| "spec_apply s (AcquireLock name owner i) =
     (case sp_leases s i of
        None \<Rightarrow> (Inl (Sentinel ErrLeaseNotFound), s, {})
      | Some l \<Rightarrow>
          if Lease_OwnerID l \<noteq> owner then (Inl (Sentinel ErrNotLockOwner), s, {})
          else case sp_locks s name of
            Some k \<Rightarrow>
              if Lock_LeaseID k = i
              then (Inr (RespAcquireLock \<lparr>AcquireResp_FencingToken = Lock_FencingToken k,
                      AcquireResp_LeaseTTL = Lease_TTL l\<rparr>), s, {})
              else (Inl (Sentinel ErrLockAlreadyHeld), s, {})
          | None \<Rightarrow>
              (Inr (RespAcquireLock \<lparr>AcquireResp_FencingToken = sp_token s + 1,
                 AcquireResp_LeaseTTL = Lease_TTL l\<rparr>),
               s\<lparr>sp_token := sp_token s + 1,
                 sp_locks := (sp_locks s)(name \<mapsto>
                   \<lparr>Lock_Name = name, Lock_OwnerID = owner, Lock_FencingToken = sp_token s + 1,
                    Lock_LeaseID = i\<rparr>)\<rparr>, {}))"
| "spec_apply s (ReleaseLock name i) =
     (case sp_locks s name of
        None \<Rightarrow> (Inl (Sentinel ErrLockNotFound), s, {})
      | Some k \<Rightarrow>
          if Lock_LeaseID k = i
          then (Inr NilResponse, s\<lparr>sp_locks := (sp_locks s)(name := None)\<rparr>, {name})
          else (Inl (Sentinel ErrNotLockOwner), s, {}))"
| "spec_apply s (ExpireLease i) =
     (case sp_leases s i of
        None \<Rightarrow> (Inr (RespExpireLease \<lparr>ExpireResp_LocksReleased = 0\<rparr>), s, {})
      | Some l \<Rightarrow>
          (Inr (RespExpireLease \<lparr>ExpireResp_LocksReleased = card (locks_of s i)\<rparr>),
           s\<lparr>sp_locks := sp_locks s |` (- locks_of s i), sp_leases := (sp_leases s)(i := None)\<rparr>,
           locks_of s i))"
| "spec_apply s (UpsertEndpoint node addr) =
     (if node = [] \<or> addr = [] then (Inl (Sentinel ErrInvalidClusterNode), s, {})
      else (Inr NilResponse, s\<lparr>sp_endpoints := (sp_endpoints s)(node \<mapsto> addr)\<rparr>, {}))"
| "spec_apply s (RemoveEndpoint node) =
     (if node = [] then (Inl (Sentinel ErrInvalidClusterNode), s, {})
      else (Inr NilResponse, s\<lparr>sp_endpoints := (sp_endpoints s)(node := None)\<rparr>, {}))"
| "spec_apply s IgnoredRenewal = (Inr NilResponse, s, {})"
| "spec_apply s UnknownCommand =
     (Inl (Wrapped ''unknown command type'' (Sentinel ErrUnknownCommand)), s, {})"

definition abs_fsm :: "FSM \<Rightarrow> spec" where
  "abs_fsm f = \<lparr>sp_locks = lock_at f, sp_leases = lease_at f, sp_endpoints = mget (endpoints f),
                sp_token = fencingCounter f, sp_next = nextLeaseID f\<rparr>"

lemma abs_fsm_simps [simp]:
  "sp_locks (abs_fsm f) = lock_at f" "sp_leases (abs_fsm f) = lease_at f"
  "sp_endpoints (abs_fsm f) = mget (endpoints f)" "sp_token (abs_fsm f) = fencingCounter f"
  "sp_next (abs_fsm f) = nextLeaseID f"
  by (simp_all add: abs_fsm_def)

section \<open>Refinement, one handler at a time\<close>

text \<open>\<open>refines f c r\<close>: the outcome \<open>r\<close> of a handler is what the specification says of \<open>c\<close>.\<close>

definition refines :: "FSM \<Rightarrow> command \<Rightarrow> apply_result \<Rightarrow> bool" where
  "refines f c out \<longleftrightarrow> distinct (snd (snd out)) \<and>
     spec_apply (abs_fsm f) c = (fst out, abs_fsm (fst (snd out)), set (snd (snd out)))"

lemma wf_map_ok:
  "fsm_wf f \<Longrightarrow> map_ok (locks f)" "fsm_wf f \<Longrightarrow> map_ok (leases f)" "fsm_wf f \<Longrightarrow> map_ok (endpoints f)"
  by (simp_all add: fsm_wf_def)

lemma refines_create:
  assumes "fsm_wf f"
  shows "refines f (CreateLease (Create_GetOwnerId cmd) (sint (Create_GetTtlNanos cmd))
    (sint (Create_GetCreateAtUnixNano cmd))) (applyCreateLease f cmd)"
proof (cases "create_ok cmd")
  case True
  then show ?thesis
    using wf_map_ok(2) [OF assms]
    by (simp add: refines_def applyCreateLease_ok)
      (auto simp: create_ok_def abs_fsm_def create_lease_def)
next
  case False
  then show ?thesis
    by (auto simp: refines_def applyCreateLease_error create_ok_def)
qed

lemma refines_acquire:
  assumes "fsm_wf f"
  shows "\<exists>out. applyAcquireLock f cmd = Ret out \<and>
    refines f (AcquireLock (Acquire_GetLockName cmd) (Acquire_GetOwnerId cmd) (Acquire_GetLeaseId cmd)) out"
  using wf_map_ok(1) [OF assms]
  by (auto simp: applyAcquireLock_eq [OF assms] refines_def abs_fsm_def grant_lock_def
      split: option.splits)

lemma refines_release:
  assumes "fsm_wf f"
  shows "\<exists>out. applyReleaseLock f cmd = Ret out \<and>
    refines f (ReleaseLock (Release_GetLockName cmd) (Release_GetLeaseId cmd)) out"
  using wf_map_ok(1) [OF assms]
  by (auto simp: applyReleaseLock_eq [OF assms] refines_def abs_fsm_def split: option.splits)

lemma locks_of_abs: "fsm_wf f \<Longrightarrow> locks_of (abs_fsm f) i = set (names_of_lease i (locks f))"
  by (auto simp: locks_of_def names_of_lease_iff)

lemma abs_expire_state:
  assumes "fsm_wf f"
  shows "abs_fsm (expire_state f i) = (abs_fsm f)\<lparr>sp_locks := lock_at f |` (- locks_of (abs_fsm f) i),
    sp_leases := (lease_at f)(i := None)\<rparr>"
  using assms
  by (auto simp: abs_fsm_def lease_at_expire lock_at_expire locks_of_def restrict_map_def
      fun_eq_iff split: option.splits)

lemma refines_expire:
  assumes inv: "fsm_inv f"
  shows "\<exists>out. applyExpireLease f cmd = Ret out \<and> refines f (ExpireLease (Expire_GetLeaseId cmd)) out"
proof (cases "lease_at f (Expire_GetLeaseId cmd)")
  case None
  then show ?thesis
    by (simp add: applyExpireLease_eq [OF fsm_inv_wf [OF inv]] refines_def)
next
  case (Some l)
  note wf = fsm_inv_wf [OF inv]
  have id: "Lease_LeaseID l = Expire_GetLeaseId cmd"
    using fsm_inv_leaseD [OF inv Some] by (simp add: lease_ok_def)
  have "card (locks_of (abs_fsm f) (Expire_GetLeaseId cmd)) =
      length (names_of_lease (Expire_GetLeaseId cmd) (locks f))"
    by (simp add: locks_of_abs [OF wf] distinct_card distinct_names_of_lease [OF wf])
  then show ?thesis
    using Some id distinct_names_of_lease [OF wf] abs_expire_state [OF wf] locks_of_abs [OF wf]
    by (simp add: applyExpireLease_eq [OF wf] refines_def)
qed

lemma refines_endpoints:
  assumes "fsm_wf f"
  shows "refines f (UpsertEndpoint (Upsert_GetNodeId c) (Upsert_GetGrpcAddress c)) (applyUpsertEndpoint f c)"
    and "refines f (RemoveEndpoint (Remove_GetNodeId d)) (applyRemoveEndpoint f d)"
  using wf_map_ok(3) [OF assms]
  by (auto simp: refines_def applyUpsertEndpoint_def applyRemoveEndpoint_def abs_fsm_def lock_at_def
      lease_at_def)

lemma refines_unchanged:
  "refines f IgnoredRenewal (Inr NilResponse, f, [])"
  "refines f UnknownCommand
     (Inl (Wrapped ''unknown command type'' (Sentinel ErrUnknownCommand)), f, [])"
  by (simp_all add: refines_def)

lemma Apply_refines:
  assumes inv: "fsm_inv f"
  shows "\<exists>out. Apply f cmd = Ret out \<and> refines f (command_of cmd) out"
  using refines_create [OF fsm_inv_wf [OF inv], of "GetCreateLease cmd"]
    refines_acquire [OF fsm_inv_wf [OF inv], of "GetAcquireLock cmd"]
    refines_release [OF fsm_inv_wf [OF inv], of "GetReleaseLock cmd"]
    refines_expire [OF inv, of "GetExpireLease cmd"]
    refines_endpoints(1) [OF fsm_inv_wf [OF inv], of "GetUpsertEndpoint cmd"]
    refines_endpoints(2) [OF fsm_inv_wf [OF inv], of "GetRemoveEndpoint cmd"]
  by (simp add: Apply_def command_of_def refines_unchanged del: split_paired_Ex)

end
