(* ===== verification/FSM_History.thy ===== *)
theory FSM_History
  imports FSM_Refinement
begin

text \<open>
  Correctness of the state machine of \<open>fsm.go\<close>, part 3: what a client of the replicated
  log observes. \<open>ApplyAll\<close> applies a committed log in order, as the Raft library does
  through \<open>RaftFSM.Apply\<close>, and collects the answers. The theorems are the guarantees of
  the README: globally monotonic fencing tokens, mutual exclusion per lock, ownership only
  through a live lease, cascading expiry, idempotent re-acquisition, deterministic replay.
\<close>

section \<open>Histories\<close>

fun ApplyAll :: "FSM \<Rightarrow> CommandWrapper list \<Rightarrow> (FSM \<times> (goerr + response) list) go" where
  "ApplyAll f [] = Ret (f, [])"
| "ApplyAll f (c # cs) =
     (case Apply f (Some c) of
        Panic \<Rightarrow> Panic
      | Ret (r, f', freed) \<Rightarrow>
          (case ApplyAll f' cs of Panic \<Rightarrow> Panic | Ret (g, rs) \<Rightarrow> Ret (g, r # rs)))"

lemma ApplyAll_run: "ApplyAll f cs = Ret (g, rs) \<Longrightarrow> run_opt fsm_step f cs = Some g"
proof (induction cs arbitrary: f rs)
  case (Cons c cs)
  then obtain r f' freed rs' where "Apply f (Some c) = Ret (r, f', freed)" "ApplyAll f' cs = Ret (g, rs')"
    by (auto split: go.splits prod.splits)
  with Cons.IH show ?case by (simp add: fsm_step_def)
qed simp

lemma run_ApplyAll: "run_opt fsm_step f cs = Some g \<Longrightarrow> \<exists>rs. ApplyAll f cs = Ret (g, rs)"
proof (induction cs arbitrary: f)
  case (Cons c cs)
  then obtain f' where s: "fsm_step f c = Some f'" and rest: "run_opt fsm_step f' cs = Some g"
    by (auto split: option.splits)
  from s obtain r freed where "Apply f (Some c) = Ret (r, f', freed)"
    by (auto simp: fsm_step_def split: go.splits)
  with Cons.IH [OF rest] show ?case by fastforce
qed simp

lemma ApplyAll_length: "ApplyAll f cs = Ret (g, rs) \<Longrightarrow> length rs = length cs"
  by (induction cs arbitrary: f g rs) (auto split: go.splits prod.splits)

lemma ApplyAll_append:
  "ApplyAll f (xs @ ys) =
     (case ApplyAll f xs of Panic \<Rightarrow> Panic
      | Ret (g, rs) \<Rightarrow> (case ApplyAll g ys of Panic \<Rightarrow> Panic | Ret (h, rs') \<Rightarrow> Ret (h, rs @ rs')))"
  by (induction xs arbitrary: f) (auto split: go.splits prod.splits)

lemma ApplyAll_nth:
  assumes "ApplyAll f cs = Ret (g, rs)" and "i < length cs"
  obtains fi fi' freed where
    "ApplyAll f (take i cs) = Ret (fi, take i rs)"
    "Apply fi (Some (cs ! i)) = Ret (rs ! i, fi', freed)"
    "ApplyAll fi' (drop (Suc i) cs) = Ret (g, drop (Suc i) rs)"
proof -
  have "ApplyAll f (take i cs @ cs ! i # drop (Suc i) cs) = Ret (g, rs)"
    using assms by (simp add: id_take_nth_drop [symmetric])
  then obtain fi r1 r fi' freed r2 where
    parts: "ApplyAll f (take i cs) = Ret (fi, r1)" "Apply fi (Some (cs ! i)) = Ret (r, fi', freed)"
      "ApplyAll fi' (drop (Suc i) cs) = Ret (g, r2)" and rs: "rs = r1 @ r # r2"
    by (auto simp: ApplyAll_append split: go.splits prod.splits)
  have "length r1 = i" using ApplyAll_length [OF parts(1)] assms(2) by simp
  with parts rs show ?thesis by (intro that [of fi fi' freed]) (simp_all add: nth_append)
qed

text \<open>Every prefix of a log within the counters' range keeps the invariant.\<close>

definition log_ok :: "FSM \<Rightarrow> nat \<Rightarrow> bool" where
  "log_ok f n \<longleftrightarrow> fsm_inv f \<and> unat (fencingCounter f) + n < 2 ^ 64 - 1 \<and>
     unat (nextLeaseID f) + n < 2 ^ 64"

lemma log_ok_NewFSM: "n < 2 ^ 64 - 1 \<Longrightarrow> log_ok NewFSM n"
  using fsm_inv_NewFSM by (simp add: log_ok_def NewFSM_def)

lemma log_ok_step:
  assumes "log_ok f (Suc n)" and "Apply f c = Ret (r, f', freed)"
  shows "log_ok f' n"
proof -
  from assms(1) have inv: "fsm_inv f"
    and b: "unat (fencingCounter f) + 1 < 2 ^ 64" "unat (nextLeaseID f) + 1 < 2 ^ 64"
    by (simp_all add: log_ok_def)
  show ?thesis
    using Apply_inv [OF inv b assms(2)] assms(1) unat_Suc64 [OF b(1)] unat_Suc64 [OF b(2)]
    by (auto simp: log_ok_def)
qed

lemma log_ok_run:
  "log_ok f (length cs + n) \<Longrightarrow> ApplyAll f cs = Ret (g, rs) \<Longrightarrow> log_ok g n"
proof (induction cs arbitrary: f rs)
  case (Cons c cs)
  then obtain r f' freed rs' where s: "Apply f (Some c) = Ret (r, f', freed)"
    and rest: "ApplyAll f' cs = Ret (g, rs')"
    by (auto split: go.splits prod.splits)
  have "log_ok f' (length cs + n)"
    using log_ok_step [of f "length cs + n", OF _ s] Cons.prems(1) by simp
  then show ?case using rest by (rule Cons.IH)
qed simp

text \<open>What every command of a log keeps holds at its end.\<close>

lemma ApplyAll_keeps:
  assumes "log_ok f (length cs + m)" and "ApplyAll f cs = Ret (g, rs)" and "P f"
    and step: "\<And>f c r f' freed k. c \<in> set cs \<Longrightarrow> log_ok f (Suc k) \<Longrightarrow> Apply f (Some c) = Ret (r, f', freed) \<Longrightarrow> P f \<Longrightarrow> P f'"
  shows "P g"
  using assms
proof (induction cs arbitrary: f rs)
  case (Cons c cs)
  then obtain r f' freed rs' where s: "Apply f (Some c) = Ret (r, f', freed)"
    and rest: "ApplyAll f' cs = Ret (g, rs')"
    by (auto split: go.splits prod.splits)
  have ok: "log_ok f (Suc (length cs + m))" using Cons.prems(1) by simp
  have "P f'" by (rule Cons.prems(4) [OF _ ok s Cons.prems(3)]) simp
  then show ?case
    using Cons.IH [OF log_ok_step [OF ok s] rest] Cons.prems(4) by (meson list.set_intros(2))
qed simp

lemma ApplyAll_total: "log_ok f (length cs) \<Longrightarrow> \<exists>g rs. ApplyAll f cs = Ret (g, rs)"
proof (induction cs arbitrary: f)
  case (Cons c cs)
  then have "returns (Apply f (Some c))"
    by (intro Apply_returns fsm_inv_wf) (simp add: log_ok_def)
  then obtain r f' freed where s: "Apply f (Some c) = Ret (r, f', freed)"
    by (cases "Apply f (Some c)") auto
  with Cons.prems have "log_ok f' (length cs)" using log_ok_step [of f "length cs"] by simp
  with Cons.IH s show ?case by fastforce
qed simp

section \<open>One step, seen from a lock\<close>

lemma Apply_spec:
  assumes "fsm_inv f" and "Apply f cmd = Ret (r, f', freed)"
  shows "spec_apply (abs_fsm f) (command_of cmd) = (r, abs_fsm f', set freed)" "distinct freed"
  using Apply_refines [OF assms(1), of cmd] assms(2) by (auto simp: refines_def)

text \<open>The specification never takes a lock away but by its own release or its lease's expiry.\<close>

lemma spec_lock_kept:
  assumes "spec_apply s c = (r, s', fr)" and "sp_locks s n = Some k"
    and "c \<noteq> ReleaseLock n (Lock_LeaseID k)" and "c \<noteq> ExpireLease (Lock_LeaseID k)"
  shows "sp_locks s' n = Some k"
  using assms
  by (cases c) (auto simp: locks_of_def restrict_map_def split: option.splits if_splits)

lemma Apply_lock_kept:
  assumes "fsm_inv f" and "Apply f cmd = Ret (r, f', freed)" and "lock_at f n = Some k"
    and "command_of cmd \<noteq> ReleaseLock n (Lock_LeaseID k)"
    and "command_of cmd \<noteq> ExpireLease (Lock_LeaseID k)"
  shows "lock_at f' n = Some k"
  using spec_lock_kept [OF Apply_spec(1) [OF assms(1,2)]] assms(3-5) by simp

text \<open>A successful acquisition leaves the lock held by the caller's lease with the token returned.\<close>

lemma spec_acquired:
  assumes "spec_apply s c = (Inr (RespAcquireLock resp), s', fr)"
  shows "\<exists>n ow i k. c = AcquireLock n ow i \<and> sp_locks s' n = Some k \<and> Lock_LeaseID k = i \<and>
    Lock_FencingToken k = AcquireResp_FencingToken resp \<and>
    (sp_locks s n = Some k \<or> sp_locks s n = None \<and> Lock_FencingToken k = sp_token s + 1)"
  using assms by (cases c) (auto split: option.splits if_splits)

lemma Apply_acquired:
  assumes "fsm_inv f" and "Apply f cmd = Ret (Inr (RespAcquireLock resp), f', freed)"
  obtains n ow i k where "command_of cmd = AcquireLock n ow i" "lock_at f' n = Some k"
    "Lock_LeaseID k = i" "Lock_FencingToken k = AcquireResp_FencingToken resp"
    "lock_at f n = Some k \<or> lock_at f n = None \<and> Lock_FencingToken k = fencingCounter f + 1"
  using spec_acquired [OF Apply_spec(1) [OF assms]] by auto

section \<open>A sample log\<close>

text \<open>
  Two leases; the first takes a lock and releases it, the second takes it, and the second
  lease expires: the log the witnesses below are evaluated on.
\<close>

definition sample_log :: "CommandWrapper list" where
  "sample_log =
     [NewCreateLeaseCmd ''a'' second 1000, NewCreateLeaseCmd ''b'' second 1000,
      NewAcquireLockCmd ''x'' ''a'' 1, NewReleaseLockCmd ''x'' 1,
      NewAcquireLockCmd ''x'' ''b'' 2, NewExpireLeaseCmd 2]"

lemma sample_log_short: "length sample_log < 2 ^ 64 - 1"
  by (simp add: sample_log_def)

lemmas fsm_eval =
  Apply_def command_type_defs applyCreateLease_def commandTime_def leaseExpiryAt_def
  applyAcquireLock_def applyReleaseLock_def applyExpireLease_def NewFSM_def second_def
  time_unix_def unix_nano_def max_int64_def time_add_def Let_def

definition sample_answers :: "(goerr + response) list" where
  "sample_answers =
     [Inr (RespCreateLease \<lparr>CreateResp_LeaseID = 1, CreateResp_ExpiresAt = 1000001000, CreateResp_TTL = second\<rparr>),
      Inr (RespCreateLease \<lparr>CreateResp_LeaseID = 2, CreateResp_ExpiresAt = 1000001000, CreateResp_TTL = second\<rparr>),
      Inr (RespAcquireLock \<lparr>AcquireResp_FencingToken = 1, AcquireResp_LeaseTTL = second\<rparr>),
      Inr NilResponse,
      Inr (RespAcquireLock \<lparr>AcquireResp_FencingToken = 2, AcquireResp_LeaseTTL = second\<rparr>),
      Inr (RespExpireLease \<lparr>ExpireResp_LocksReleased = 1\<rparr>)]"

definition sample_end :: FSM where
  "sample_end =
     \<lparr>locks = [],
      leases = [(1, Some \<lparr>Lease_LeaseID = 1, Lease_OwnerID = ''a'',
                  Lease_ExpiresAtUnixNano = 1000001000, Lease_TTL = second\<rparr>)],
      endpoints = [], fencingCounter = 2, nextLeaseID = 3\<rparr>"

lemma sample_run: "ApplyAll NewFSM sample_log = Ret (sample_end, sample_answers)"
  by (simp add: sample_log_def sample_answers_def sample_end_def fsm_eval)

lemma sample_commands:
  "command_of (Some (sample_log ! 2)) = AcquireLock ''x'' ''a'' 1"
  "command_of (Some (sample_log ! 4)) = AcquireLock ''x'' ''b'' 2"
  by (simp_all add: sample_log_def command_of_def command_type_defs)

section \<open>Fencing tokens\<close>

text \<open>The tokens minted by a log: those of acquisitions that found the lock free.\<close>

fun granted :: "FSM \<Rightarrow> CommandWrapper list \<Rightarrow> uint64 list" where
  "granted f [] = []"
| "granted f (c # cs) =
     (case Apply f (Some c) of
        Panic \<Rightarrow> []
      | Ret (r, f', freed) \<Rightarrow>
          (case (command_of (Some c), r) of
             (AcquireLock n ow i, Inr (RespAcquireLock resp)) \<Rightarrow>
               (if lock_at f n = None then [AcquireResp_FencingToken resp] else [])
           | _ \<Rightarrow> []) @ granted f' cs)"

lemma spec_token_step:
  assumes "spec_apply s c = (r, s', fr)"
  shows "(\<exists>n ow i resp. c = AcquireLock n ow i \<and> r = Inr (RespAcquireLock resp) \<and> sp_locks s n = None \<and>
           AcquireResp_FencingToken resp = sp_token s + 1 \<and> sp_token s' = sp_token s + 1) \<or>
    (\<nexists>n ow i resp. c = AcquireLock n ow i \<and> r = Inr (RespAcquireLock resp) \<and> sp_locks s n = None) \<and>
      sp_token s' = sp_token s"
  using assms by (cases c) (auto split: option.splits if_splits)

lemma granted_step:
  assumes "fsm_inv f" and "Apply f (Some c) = Ret (r, f', freed)"
  shows "granted f (c # cs) = fencingCounter f' # granted f' cs \<and> fencingCounter f' = fencingCounter f + 1 \<or>
    granted f (c # cs) = granted f' cs \<and> fencingCounter f' = fencingCounter f"
  using spec_token_step [OF Apply_spec(1) [OF assms]] assms(2)
  by (auto split: command.splits sum.splits response.splits)

lemma granted_upt:
  assumes "log_ok f (length cs)"
  shows "map unat (granted f cs) =
    [Suc (unat (fencingCounter f))..<Suc (unat (fencingCounter f)) + length (granted f cs)]"
  using assms
proof (induction cs arbitrary: f)
  case (Cons c cs)
  from ApplyAll_total [OF Cons.prems] obtain r f' freed where s: "Apply f (Some c) = Ret (r, f', freed)"
    by (auto split: go.splits)
  have inv: "fsm_inv f" and b: "unat (fencingCounter f) + 1 < 2 ^ 64"
    using Cons.prems by (simp_all add: log_ok_def)
  have IH: "map unat (granted f' cs) =
      [Suc (unat (fencingCounter f'))..<Suc (unat (fencingCounter f')) + length (granted f' cs)]"
    using log_ok_step [OF _ s, of "length cs"] Cons.prems by (intro Cons.IH) simp
  show ?case
    using granted_step [OF inv s, of cs] IH unat_Suc64 [OF b]
    by (auto simp del: granted.simps simp: upt_conv_Cons)
qed simp

text \<open>
  C12: Fencing tokens are globally monotonic and never reused: along any committed log, the
  tokens of the acquisitions that took a free lock are exactly 1, 2, 3, ... in log order,
  whatever else the log contains. The bound keeps the 64-bit counter from wrapping.
\<close>
theorem tokens_minted_in_order:
  assumes "length cmds < 2 ^ 64 - 1"
  shows "map unat (granted NewFSM cmds) = [1..<Suc (length (granted NewFSM cmds))]"
  using granted_upt [OF log_ok_NewFSM [OF assms]] by (simp add: NewFSM_def)

theorem tokens_minted_in_order_witness:
  "length sample_log < 2 ^ 64 - 1 \<and> map unat (granted NewFSM sample_log) = [1..<Suc 2]"
proof -
  have "length (granted NewFSM sample_log) = 2" by code_simp
  then show ?thesis
    using tokens_minted_in_order [OF sample_log_short] sample_log_short by simp
qed

text \<open>What later states remember of a grant of lock \<open>n\<close> with token \<open>t\<close> to lease \<open>l\<close>.\<close>

definition after_grant :: "string \<Rightarrow> uint64 \<Rightarrow> uint64 \<Rightarrow> FSM \<Rightarrow> bool" where
  "after_grant n t l f \<longleftrightarrow> unat t \<le> unat (fencingCounter f) \<and>
     (\<forall>k. lock_at f n = Some k \<longrightarrow> unat t \<le> unat (Lock_FencingToken k) \<and>
        (Lock_FencingToken k = t \<longrightarrow> Lock_LeaseID k = l))"

lemma spec_lock_origin:
  assumes "spec_apply s c = (r, s', fr)" and "sp_locks s' n = Some k"
  shows "sp_locks s n = Some k \<or> Lock_FencingToken k = sp_token s + 1 \<and> sp_token s' = sp_token s + 1"
  using assms
  by (cases c) (auto simp: restrict_map_def split: option.splits if_splits)

lemma Apply_counter:
  assumes "log_ok f (Suc n)" and "Apply f c = Ret (r, f', freed)"
  shows "unat (fencingCounter f) \<le> unat (fencingCounter f')"
    and "fencingCounter f' = fencingCounter f + 1 \<Longrightarrow>
      unat (fencingCounter f') = Suc (unat (fencingCounter f))"
proof -
  from assms(1) have inv: "fsm_inv f"
    and b: "unat (fencingCounter f) + 1 < 2 ^ 64" "unat (nextLeaseID f) + 1 < 2 ^ 64"
    by (simp_all add: log_ok_def)
  show "unat (fencingCounter f) \<le> unat (fencingCounter f')"
    using Apply_inv [OF inv b assms(2)] unat_Suc64 [OF b(1)] by auto
  show "unat (fencingCounter f') = Suc (unat (fencingCounter f))"
    if "fencingCounter f' = fencingCounter f + 1" using that unat_Suc64 [OF b(1)] by simp
qed

lemma after_grant_step:
  assumes ok: "log_ok f (Suc m)" and step: "Apply f c = Ret (r, f', freed)"
    and before: "after_grant n t l f"
  shows "after_grant n t l f'"
proof -
  have inv: "fsm_inv f" using ok by (simp add: log_ok_def)
  have le: "unat t \<le> unat (fencingCounter f')"
    using before Apply_counter(1) [OF ok step] by (simp add: after_grant_def)
  have "unat t \<le> unat (Lock_FencingToken k) \<and> (Lock_FencingToken k = t \<longrightarrow> Lock_LeaseID k = l)"
    if k: "lock_at f' n = Some k" for k
  proof (cases "lock_at f n = Some k")
    case True
    then show ?thesis using before by (simp add: after_grant_def)
  next
    case False
    then have "Lock_FencingToken k = fencingCounter f'" "fencingCounter f' = fencingCounter f + 1"
      using spec_lock_origin [OF Apply_spec(1) [OF inv step], of n k] k by auto
    then show ?thesis
      using before Apply_counter(2) [OF ok step] by (auto simp: after_grant_def)
  qed
  with le show ?thesis by (simp add: after_grant_def)
qed

lemma after_grant_run:
  "log_ok f (length cs + m) \<Longrightarrow> ApplyAll f cs = Ret (g, rs) \<Longrightarrow> after_grant n t l f \<Longrightarrow> after_grant n t l g"
  by (rule ApplyAll_keeps [where P = "after_grant n t l"]) (auto intro: after_grant_step)

lemma after_grant_now:
  assumes "fsm_inv f'" and "lock_at f' n = Some k"
  shows "after_grant n (Lock_FencingToken k) (Lock_LeaseID k) f'"
  using fsm_inv_lockD [OF assms] assms(2) by (simp add: after_grant_def lock_ok_def)

section \<open>Two positions of a history\<close>

lemma history_two:
  assumes ok: "log_ok f (length cs)" and run: "ApplyAll f cs = Ret (g, rs)"
    and ij: "i < j" "j < length cs"
  obtains fi fi' fj fj' fr fr' mid where
    "fsm_inv fi" "fsm_inv fi'" "fsm_inv fj"
    "Apply fi (Some (cs ! i)) = Ret (rs ! i, fi', fr)"
    "ApplyAll fi' (drop (Suc i) (take j cs)) = Ret (fj, mid)"
    "Apply fj (Some (cs ! j)) = Ret (rs ! j, fj', fr')"
    "log_ok fi' (length (drop (Suc i) (take j cs)) + 1)" "log_ok fj 1"
proof -
  obtain fj fj' fr' where j: "ApplyAll f (take j cs) = Ret (fj, take j rs)"
      "Apply fj (Some (cs ! j)) = Ret (rs ! j, fj', fr')"
    using ApplyAll_nth [OF run ij(2)] by metis
  have len: "i < length (take j cs)" using ij by simp
  obtain fi fi' fr where i: "ApplyAll f (take i (take j cs)) = Ret (fi, take i (take j rs))"
      "Apply fi (Some (take j cs ! i)) = Ret (take j rs ! i, fi', fr)"
      "ApplyAll fi' (drop (Suc i) (take j cs)) = Ret (fj, drop (Suc i) (take j rs))"
    using ApplyAll_nth [OF j(1) len] by metis
  have oki: "log_ok fi (Suc (length (drop (Suc i) (take j cs)) + 1))"
    by (rule log_ok_run [OF _ i(1)]) (use ok ij in \<open>simp add: log_ok_def\<close>)
  have oki': "log_ok fi' (length (drop (Suc i) (take j cs)) + 1)"
    by (rule log_ok_step [OF oki i(2)])
  have okj: "log_ok fj 1" by (rule log_ok_run [OF oki' i(3)])
  show ?thesis
    by (rule that [of fi fi' fj fr _ fj' fr'])
      (use i j oki oki' okj ij in \<open>simp_all add: log_ok_def\<close>)
qed

lemma tokens_grow:
  assumes "length cmds < 2 ^ 64 - 1" and "ApplyAll NewFSM cmds = Ret (f, rs)"
    and "i < j" and "j < length cmds"
    and "command_of (Some (cmds ! i)) = AcquireLock n o1 l1" and "rs ! i = Inr (RespAcquireLock r1)"
    and "command_of (Some (cmds ! j)) = AcquireLock n o2 l2" and "rs ! j = Inr (RespAcquireLock r2)"
  shows "unat (AcquireResp_FencingToken r1) \<le> unat (AcquireResp_FencingToken r2) \<and>
    (l1 \<noteq> l2 \<longrightarrow> unat (AcquireResp_FencingToken r1) < unat (AcquireResp_FencingToken r2))"
proof -
  obtain fi fi' fj fj' fr fr' mid where h: "fsm_inv fi" "fsm_inv fi'" "fsm_inv fj"
    "Apply fi (Some (cmds ! i)) = Ret (rs ! i, fi', fr)"
    "ApplyAll fi' (drop (Suc i) (take j cmds)) = Ret (fj, mid)"
    "Apply fj (Some (cmds ! j)) = Ret (rs ! j, fj', fr')"
    "log_ok fi' (length (drop (Suc i) (take j cmds)) + 1)" "log_ok fj 1"
    by (rule history_two [OF log_ok_NewFSM [OF assms(1)] assms(2-4)])
  obtain k where k: "lock_at fi' n = Some k" "Lock_LeaseID k = l1"
      "Lock_FencingToken k = AcquireResp_FencingToken r1"
    using Apply_acquired [OF h(1) h(4) [unfolded assms(6)]] assms(5) by (metis command.inject(2))
  have at_i: "after_grant n (AcquireResp_FencingToken r1) l1 fi'"
    using after_grant_now [OF h(2) k(1)] k(2,3) by simp
  have "after_grant n (AcquireResp_FencingToken r1) l1 fj"
    by (rule after_grant_run [OF h(7,5) at_i])
  then have "after_grant n (AcquireResp_FencingToken r1) l1 fj'"
    by (rule after_grant_step [OF h(8) [unfolded One_nat_def] h(6)])
  moreover obtain k' where "lock_at fj' n = Some k'" "Lock_LeaseID k' = l2"
      "Lock_FencingToken k' = AcquireResp_FencingToken r2"
    using Apply_acquired [OF h(3) h(6) [unfolded assms(8)]] assms(7) by (metis command.inject(2))
  ultimately show ?thesis
    by (auto simp: after_grant_def order_le_less word_unat_eq_iff)
qed

text \<open>
  C3: A later holder of a lock always has a larger fencing token: if one position of the
  log answers an acquisition of lock \<open>n\<close> with a token and a later position answers another
  acquisition of the same lock, the later token is not smaller, and it is strictly larger
  when the two leases differ. This is what lets a downstream system reject stale holders.
\<close>
theorem later_holder_has_larger_token:
  assumes "length cmds < 2 ^ 64 - 1" and "ApplyAll NewFSM cmds = Ret (f, rs)"
    and "i < j" and "j < length cmds"
    and "command_of (Some (cmds ! i)) = AcquireLock n o1 l1" and "rs ! i = Inr (RespAcquireLock r1)"
    and "command_of (Some (cmds ! j)) = AcquireLock n o2 l2" and "rs ! j = Inr (RespAcquireLock r2)"
  shows "unat (AcquireResp_FencingToken r1) \<le> unat (AcquireResp_FencingToken r2) \<and>
    (l1 \<noteq> l2 \<longrightarrow> unat (AcquireResp_FencingToken r1) < unat (AcquireResp_FencingToken r2))"
  by (rule tokens_grow [OF assms])

theorem later_holder_has_larger_token_witness:
  "ApplyAll NewFSM sample_log = Ret (sample_end, sample_answers) \<and>
   unat (1 :: uint64) \<le> unat (2 :: uint64) \<and> unat (1 :: uint64) < unat (2 :: uint64)"
  using later_holder_has_larger_token [OF sample_log_short sample_run, of 2 4,
      OF _ _ sample_commands(1) _ sample_commands(2)]
    sample_run
  by (simp add: sample_log_def sample_answers_def)

section \<open>Mutual exclusion\<close>

lemma lock_kept_run:
  assumes "log_ok f (length cs + m)" and "ApplyAll f cs = Ret (g, rs)" and "lock_at f n = Some k"
    and "\<And>c. c \<in> set cs \<Longrightarrow> command_of (Some c) \<notin> {ReleaseLock n (Lock_LeaseID k), ExpireLease (Lock_LeaseID k)}"
  shows "lock_at g n = Some k"
  by (rule ApplyAll_keeps [where P = "\<lambda>f. lock_at f n = Some k", OF assms(1-3)])
    (use assms(4) Apply_lock_kept in \<open>auto simp: log_ok_def\<close>)

text \<open>
  C2: Mutual exclusion: when two different leases acquire the same lock at two positions of
  a log, some command between them released the lock by the first lease or expired the
  first lease. No lock ever has two holders, across any interleaving the log records.
\<close>
theorem mutual_exclusion:
  assumes "length cmds < 2 ^ 64 - 1" and "ApplyAll NewFSM cmds = Ret (f, rs)"
    and "i < j" and "j < length cmds"
    and "command_of (Some (cmds ! i)) = AcquireLock n o1 l1" and "rs ! i = Inr (RespAcquireLock r1)"
    and "command_of (Some (cmds ! j)) = AcquireLock n o2 l2" and "rs ! j = Inr (RespAcquireLock r2)"
    and "l1 \<noteq> l2"
  shows "\<exists>m. i < m \<and> m < j \<and> command_of (Some (cmds ! m)) \<in> {ReleaseLock n l1, ExpireLease l1}"
proof (rule ccontr)
  assume none: "\<not> ?thesis"
  obtain fi fi' fj fj' fr fr' mid where h: "fsm_inv fi" "fsm_inv fi'" "fsm_inv fj"
    "Apply fi (Some (cmds ! i)) = Ret (rs ! i, fi', fr)"
    "ApplyAll fi' (drop (Suc i) (take j cmds)) = Ret (fj, mid)"
    "Apply fj (Some (cmds ! j)) = Ret (rs ! j, fj', fr')"
    "log_ok fi' (length (drop (Suc i) (take j cmds)) + 1)" "log_ok fj 1"
    by (rule history_two [OF log_ok_NewFSM [OF assms(1)] assms(2-4)])
  obtain k where k: "lock_at fi' n = Some k" "Lock_LeaseID k = l1"
    using Apply_acquired [OF h(1) h(4) [unfolded assms(6)]] assms(5) by (metis command.inject(2))
  have quiet: "command_of (Some c) \<notin> {ReleaseLock n (Lock_LeaseID k), ExpireLease (Lock_LeaseID k)}"
    if "c \<in> set (drop (Suc i) (take j cmds))" for c
  proof -
    from that obtain q where "q < length (drop (Suc i) (take j cmds))" "c = drop (Suc i) (take j cmds) ! q"
      by (auto simp: in_set_conv_nth)
    then have "c = cmds ! (Suc i + q)" "Suc i + q < j" using assms(3,4) by auto
    with none k(2) show ?thesis by (metis less_add_Suc1 add_Suc)
  qed
  have "lock_at fj n = Some k" by (rule lock_kept_run [OF h(7,5) k(1) quiet])
  then show False
    using Apply_acquired [OF h(3) h(6) [unfolded assms(8)]] assms(7,9) k(2)
    by (metis command.inject(2) option.distinct(1) option.inject)
qed

theorem mutual_exclusion_witness:
  "ApplyAll NewFSM sample_log = Ret (sample_end, sample_answers) \<and>
   (\<exists>m. 2 < m \<and> m < 4 \<and> command_of (Some (sample_log ! m)) \<in> {ReleaseLock ''x'' 1, ExpireLease 1})"
proof -
  have "\<exists>m. 2 < m \<and> m < 4 \<and> command_of (Some (sample_log ! m)) \<in> {ReleaseLock ''x'' 1, ExpireLease 1}"
    by (rule mutual_exclusion [OF sample_log_short sample_run, of 2 4,
          OF _ _ sample_commands(1) _ sample_commands(2)])
      (simp_all add: sample_log_def sample_answers_def)
  with sample_run show ?thesis by blast
qed

section \<open>Reachable states\<close>

text \<open>
  C13: Applying any committed log from the empty state machine returns (no nil dereference
  is ever reached) and ends in a state where every held lock is backed by an existing lease
  of the same owner, carries a token between 1 and the counter that no other lock carries,
  and every lease has an identifier below the next one, a positive TTL and a positive
  deadline.
\<close>
theorem replay_safe:
  assumes "length cmds < 2 ^ 64 - 1"
  shows "\<exists>f rs. ApplyAll NewFSM cmds = Ret (f, rs) \<and> length rs = length cmds \<and> fsm_inv f"
proof -
  obtain f rs where run: "ApplyAll NewFSM cmds = Ret (f, rs)"
    using ApplyAll_total [OF log_ok_NewFSM [OF assms]] by blast
  have "log_ok f 0" by (rule log_ok_run [OF _ run]) (use log_ok_NewFSM [OF assms] in simp)
  with run show ?thesis using ApplyAll_length [OF run] by (auto simp: log_ok_def)
qed

theorem replay_safe_witness:
  "length sample_log < 2 ^ 64 - 1 \<and>
   (\<exists>f rs. ApplyAll NewFSM sample_log = Ret (f, rs) \<and> length rs = length sample_log \<and> fsm_inv f)"
  using replay_safe [OF sample_log_short] sample_log_short by blast

text \<open>
  C10: \<open>Apply\<close> implements the abstract lock service: in every state that satisfies the
  invariant it returns, answers what the specification answers, moves to a state whose
  abstraction is the specified next state, and calls the freed-lock hook exactly once for
  every lock the specification frees.
\<close>
theorem Apply_implements_spec:
  assumes "fsm_inv f"
  shows "\<exists>r f' freed. Apply f cmd = Ret (r, f', freed) \<and> distinct freed \<and>
    spec_apply (abs_fsm f) (command_of cmd) = (r, abs_fsm f', set freed)"
  using Apply_refines [OF assms, of cmd] by (auto simp: refines_def)

theorem Apply_implements_spec_witness:
  "fsm_inv NewFSM \<and> (\<exists>r f' freed. Apply NewFSM (Some (NewExpireLeaseCmd 7)) = Ret (r, f', freed) \<and>
     distinct freed \<and>
     spec_apply (abs_fsm NewFSM) (command_of (Some (NewExpireLeaseCmd 7))) = (r, abs_fsm f', set freed))"
  using Apply_implements_spec [OF fsm_inv_NewFSM, of "Some (NewExpireLeaseCmd 7)"] fsm_inv_NewFSM
  by blast

lemma ApplyAll_abs:
  assumes "log_ok f (length cmds)" and "log_ok g (length cmds)" and "abs_fsm f = abs_fsm g"
  shows "\<exists>f' g' rs. ApplyAll f cmds = Ret (f', rs) \<and> ApplyAll g cmds = Ret (g', rs) \<and>
    abs_fsm f' = abs_fsm g'"
  using assms
proof (induction cmds arbitrary: f g)
  case (Cons c cs)
  then have inv: "fsm_inv f" "fsm_inv g" by (simp_all add: log_ok_def)
  obtain r f' fr where f: "Apply f (Some c) = Ret (r, f', fr)"
      "spec_apply (abs_fsm f) (command_of (Some c)) = (r, abs_fsm f', set fr)"
    using Apply_refines [OF inv(1), of "Some c"] by (auto simp: refines_def)
  obtain r' g' fr' where g: "Apply g (Some c) = Ret (r', g', fr')"
      "spec_apply (abs_fsm g) (command_of (Some c)) = (r', abs_fsm g', set fr')"
    using Apply_refines [OF inv(2), of "Some c"] by (auto simp: refines_def)
  have same: "r' = r" "abs_fsm f' = abs_fsm g'" using f(2) g(2) Cons.prems(3) by auto
  have "log_ok f' (length cs)" "log_ok g' (length cs)"
    using log_ok_step [OF _ f(1), of "length cs"] log_ok_step [OF _ g(1), of "length cs"] Cons.prems
    by simp_all
  then obtain f'' g'' rs where "ApplyAll f' cs = Ret (f'', rs)" "ApplyAll g' cs = Ret (g'', rs)"
      "abs_fsm f'' = abs_fsm g''"
    using Cons.IH same(2) by blast
  with f(1) g(1) same(1) show ?case by fastforce
qed simp

text \<open>
  C14: Replicas agree: two state machines with the same abstract content (their maps may
  enumerate their entries in different orders) that apply the same log give the same
  answers and end with the same abstract content.
\<close>
theorem replicas_agree:
  assumes "log_ok f (length cmds)" and "log_ok g (length cmds)" and "abs_fsm f = abs_fsm g"
  shows "\<exists>f' g' rs. ApplyAll f cmds = Ret (f', rs) \<and> ApplyAll g cmds = Ret (g', rs) \<and>
    abs_fsm f' = abs_fsm g'"
  by (rule ApplyAll_abs [OF assms])

text \<open>A state with two leases and two locks, and the same state with the maps in another order.\<close>

definition sample_lease :: "uint64 \<Rightarrow> string \<Rightarrow> Lease" where
  "sample_lease i ow = \<lparr>Lease_LeaseID = i, Lease_OwnerID = ow, Lease_ExpiresAtUnixNano = 5, Lease_TTL = 1\<rparr>"

definition sample_lock :: "string \<Rightarrow> string \<Rightarrow> uint64 \<Rightarrow> uint64 \<Rightarrow> Lock" where
  "sample_lock n ow t i = \<lparr>Lock_Name = n, Lock_OwnerID = ow, Lock_FencingToken = t, Lock_LeaseID = i\<rparr>"

definition sample_state :: FSM where
  "sample_state =
     \<lparr>locks = [(''x'', Some (sample_lock ''x'' ''a'' 1 1)), (''y'', Some (sample_lock ''y'' ''a'' 2 1)),
               (''z'', Some (sample_lock ''z'' ''b'' 3 2))],
      leases = [(1, Some (sample_lease 1 ''a'')), (2, Some (sample_lease 2 ''b''))],
      endpoints = [(''n1'', ''h:1'')], fencingCounter = 3, nextLeaseID = 3\<rparr>"

definition sample_state_reordered :: FSM where
  "sample_state_reordered =
     sample_state\<lparr>locks := rev (locks sample_state), leases := rev (leases sample_state)\<rparr>"

lemmas sample_state_defs =
  sample_state_def sample_state_reordered_def sample_lease_def sample_lock_def

lemma sample_state_inv: "fsm_inv sample_state" "fsm_inv sample_state_reordered"
  by (rule fsm_invI; auto simp: sample_state_defs fsm_wf_def map_ok_def lease_at_def lock_at_def
      lease_ok_def lock_ok_def GetEndpoint_def split: if_splits)+

lemma sample_state_same: "abs_fsm sample_state = abs_fsm sample_state_reordered"
  by (auto simp: abs_fsm_def lock_at_def lease_at_def sample_state_defs fun_eq_iff)

theorem replicas_agree_witness:
  "log_ok sample_state (length [NewExpireLeaseCmd 1]) \<and>
   (\<exists>f' g' rs. ApplyAll sample_state [NewExpireLeaseCmd 1] = Ret (f', rs) \<and>
      ApplyAll sample_state_reordered [NewExpireLeaseCmd 1] = Ret (g', rs) \<and> abs_fsm f' = abs_fsm g')"
proof -
  have "log_ok sample_state (length [NewExpireLeaseCmd 1])"
    "log_ok sample_state_reordered (length [NewExpireLeaseCmd 1])"
    using sample_state_inv by (simp_all add: log_ok_def sample_state_defs)
  then show ?thesis using replicas_agree [OF _ _ sample_state_same] by blast
qed

end
