(* ===== verification/FSM_Operations.thy ===== *)
theory FSM_Operations
  imports FSM_History
begin

text \<open>
  Correctness of the state machine of \<open>fsm.go\<close>, part 4: the contract of each command on
  every branch, as a caller of \<open>Apply\<close> sees it.
\<close>

section \<open>The dispatch of Apply as an elimination rule\<close>

lemma Apply_cases:
  assumes "Apply f cmd = Ret out"
  obtains (create) "GetType cmd = COMMAND_TYPE_CREATE_LEASE" "applyCreateLease f (GetCreateLease cmd) = out"
  | (renew) "GetType cmd = COMMAND_TYPE_RENEW_LEASE" "out = (Inr NilResponse, f, [])"
  | (acquire) "GetType cmd = COMMAND_TYPE_ACQUIRE_LOCK" "applyAcquireLock f (GetAcquireLock cmd) = Ret out"
  | (release) "GetType cmd = COMMAND_TYPE_RELEASE_LOCK" "applyReleaseLock f (GetReleaseLock cmd) = Ret out"
  | (expire) "GetType cmd = COMMAND_TYPE_EXPIRE_LEASE" "applyExpireLease f (GetExpireLease cmd) = Ret out"
  | (upsert) "GetType cmd = COMMAND_TYPE_UPSERT_ENDPOINT"
      "applyUpsertEndpoint f (GetUpsertEndpoint cmd) = out"
  | (remove) "GetType cmd = COMMAND_TYPE_REMOVE_ENDPOINT"
      "applyRemoveEndpoint f (GetRemoveEndpoint cmd) = out"
  | (unknown) "out = (Inl (Wrapped ''unknown command type'' (Sentinel ErrUnknownCommand)), f, [])"
  using assms unfolding Apply_def by (simp split: if_split_asm)

section \<open>Errors\<close>

lemma Apply_error_keeps:
  assumes "Apply f cmd = Ret (Inl e, f', freed)"
  shows "f' = f \<and> freed = []"
proof -
  from assms show ?thesis
  proof (cases rule: Apply_cases)
    case create
    then show ?thesis by (auto simp: applyCreateLease_def Let_def split: if_splits sum.splits)
  next
    case acquire
    then show ?thesis
      by (auto simp: applyAcquireLock_def Let_def split: if_splits option.splits)
  next
    case release
    then show ?thesis by (auto simp: applyReleaseLock_def split: if_splits option.splits)
  next
    case expire
    then show ?thesis
      by (auto simp: applyExpireLease_def split: option.splits go.splits prod.splits)
  next
    case upsert
    then show ?thesis by (auto simp: applyUpsertEndpoint_def split: if_splits)
  next
    case remove
    then show ?thesis by (auto simp: applyRemoveEndpoint_def split: if_splits)
  qed simp_all
qed

text \<open>
  A command that is answered with an error changes nothing: the state is the same
  (not only its abstraction) and no lock is reported freed.
\<close>
theorem errors_change_nothing:
  assumes "Apply f cmd = Ret (Inl e, f', freed)"
  shows "f' = f \<and> freed = []"
  by (rule Apply_error_keeps [OF assms])

lemma errors_change_nothing_witness:
  "Apply sample_state (Some (NewAcquireLockCmd ''x'' ''b'' 2)) =
     Ret (Inl (Sentinel ErrLockAlreadyHeld), sample_state, []) \<and> sample_state = sample_state \<and> [] = ([] :: string list)"
proof -
  have run: "Apply sample_state (Some (NewAcquireLockCmd ''x'' ''b'' 2)) =
      Ret (Inl (Sentinel ErrLockAlreadyHeld), sample_state, [])"
    by (simp add: fsm_eval sample_state_defs)
  show ?thesis using errors_change_nothing [OF run] run by simp
qed

section \<open>Acquiring\<close>

text \<open>
  An acquisition succeeds exactly when the lease exists, belongs to the caller, and the
  lock is free or already held by that same lease; then the lock is held by the lease and
  nothing else about leases, endpoints or other locks changes.
\<close>
theorem acquire_outcome:
  assumes "fsm_inv f" and "command_of cmd = AcquireLock n ow i"
    and "Apply f cmd = Ret (r, f', freed)"
  shows "((\<exists>resp. r = Inr (RespAcquireLock resp)) \<longleftrightarrow>
      (\<exists>l. lease_at f i = Some l \<and> Lease_OwnerID l = ow \<and>
        (\<forall>k. lock_at f n = Some k \<longrightarrow> Lock_LeaseID k = i))) \<and>
    (\<forall>resp. r = Inr (RespAcquireLock resp) \<longrightarrow>
      (\<exists>k. lock_at f' n = Some k \<and> Lock_LeaseID k = i \<and>
        Lock_FencingToken k = AcquireResp_FencingToken resp)) \<and>
    (\<forall>m. m \<noteq> n \<longrightarrow> lock_at f' m = lock_at f m) \<and> lease_at f' = lease_at f \<and> freed = []"
proof -
  have spec: "spec_apply (abs_fsm f) (AcquireLock n ow i) = (r, abs_fsm f', set freed)"
    using Apply_spec(1) [OF assms(1,3)] assms(2) by simp
  then have "lock_at f' = sp_locks (fst (snd (spec_apply (abs_fsm f) (AcquireLock n ow i))))"
    "lease_at f' = sp_leases (fst (snd (spec_apply (abs_fsm f) (AcquireLock n ow i))))"
    "r = fst (spec_apply (abs_fsm f) (AcquireLock n ow i))"
    "set freed = snd (snd (spec_apply (abs_fsm f) (AcquireLock n ow i)))"
    by simp_all
  then show ?thesis by (auto split: option.splits if_split_asm)
qed

lemma acquire_outcome_witness:
  "fsm_inv sample_state \<and>
   (\<exists>l. lease_at sample_state 1 = Some l \<and> Lease_OwnerID l = ''a'' \<and>
        (\<forall>k. lock_at sample_state ''w'' = Some k \<longrightarrow> Lock_LeaseID k = 1))"
proof -
  let ?c = "Some (NewAcquireLockCmd ''w'' ''a'' 1)"
  have c: "command_of ?c = AcquireLock ''w'' ''a'' 1" by (simp add: command_of_def command_type_defs)
  obtain f' where run: "Apply sample_state ?c =
      Ret (Inr (RespAcquireLock \<lparr>AcquireResp_FencingToken = 4, AcquireResp_LeaseTTL = 1\<rparr>), f', [])"
    by (simp add: fsm_eval sample_state_defs)
  show ?thesis using acquire_outcome [OF sample_state_inv(1) c run] sample_state_inv(1) by blast
qed

text \<open>
  Re-acquiring is idempotent: repeating an acquisition that just succeeded returns the
  same response, with the same fencing token, and leaves the state machine as it is.
\<close>
theorem reacquire_idempotent:
  assumes "Apply f cmd = Ret (Inr (RespAcquireLock resp), f', freed)"
  shows "Apply f' cmd = Ret (Inr (RespAcquireLock resp), f', [])"
  using assms
proof (cases rule: Apply_cases)
  case create
  then show ?thesis by (auto simp: applyCreateLease_def Let_def split: if_splits sum.splits)
next
  case acquire
  from acquire(2) have "applyAcquireLock f' (GetAcquireLock cmd) = Ret (Inr (RespAcquireLock resp), f', [])"
    by (auto simp: applyAcquireLock_def update_conv' Let_def split: if_splits option.splits)
  then show ?thesis using acquire(1) by (simp add: Apply_def command_type_defs)
next
  case release
  then show ?thesis by (auto simp: applyReleaseLock_def split: if_splits option.splits)
next
  case expire
  then show ?thesis
    by (auto simp: applyExpireLease_def split: option.splits go.splits prod.splits)
next
  case upsert
  then show ?thesis by (auto simp: applyUpsertEndpoint_def split: if_splits)
next
  case remove
  then show ?thesis by (auto simp: applyRemoveEndpoint_def split: if_splits)
qed simp_all

lemma reacquire_idempotent_witness:
  "\<exists>f'. Apply sample_state (Some (NewAcquireLockCmd ''w'' ''a'' 1)) =
      Ret (Inr (RespAcquireLock \<lparr>AcquireResp_FencingToken = 4, AcquireResp_LeaseTTL = 1\<rparr>), f', []) \<and>
    Apply f' (Some (NewAcquireLockCmd ''w'' ''a'' 1)) =
      Ret (Inr (RespAcquireLock \<lparr>AcquireResp_FencingToken = 4, AcquireResp_LeaseTTL = 1\<rparr>), f', [])"
proof -
  obtain f' where run: "Apply sample_state (Some (NewAcquireLockCmd ''w'' ''a'' 1)) =
      Ret (Inr (RespAcquireLock \<lparr>AcquireResp_FencingToken = 4, AcquireResp_LeaseTTL = 1\<rparr>), f', [])"
    by (simp add: fsm_eval sample_state_defs)
  from reacquire_idempotent [OF run] run show ?thesis by blast
qed

section \<open>Releasing and expiring\<close>

text \<open>
  Only the lease that holds a lock can release it: a release succeeds exactly when the
  lock is held by the given lease, and then that lock alone becomes free.
\<close>
theorem release_outcome:
  assumes "fsm_inv f" and "command_of cmd = ReleaseLock n i" and "Apply f cmd = Ret (r, f', freed)"
  shows "(r = Inr NilResponse \<longleftrightarrow> (\<exists>k. lock_at f n = Some k \<and> Lock_LeaseID k = i)) \<and>
    (r = Inr NilResponse \<longrightarrow> lock_at f' = (lock_at f)(n := None) \<and> freed = [n]) \<and>
    (r \<noteq> Inr NilResponse \<longrightarrow> r = Inl (Sentinel (if lock_at f n = None then ErrLockNotFound else ErrNotLockOwner)))"
proof -
  have spec: "spec_apply (abs_fsm f) (ReleaseLock n i) = (r, abs_fsm f', set freed)"
    using Apply_spec(1) [OF assms(1,3)] assms(2) by simp
  then have "lock_at f' = sp_locks (fst (snd (spec_apply (abs_fsm f) (ReleaseLock n i))))"
    "r = fst (spec_apply (abs_fsm f) (ReleaseLock n i))"
    "set freed = snd (snd (spec_apply (abs_fsm f) (ReleaseLock n i)))" by simp_all
  moreover have "freed = [n]" if "set freed = {n}"
    using that Apply_spec(2) [OF assms(1,3)] by (cases freed) (auto simp: subset_singleton_iff)
  ultimately show ?thesis by (auto split: option.splits if_splits)
qed

lemma release_outcome_witness:
  "Apply sample_state (Some (NewReleaseLockCmd ''x'' 2)) =
     Ret (Inl (Sentinel ErrNotLockOwner), sample_state, []) \<and>
   \<not> (\<exists>k. lock_at sample_state ''x'' = Some k \<and> Lock_LeaseID k = 2)"
proof -
  have c: "command_of (Some (NewReleaseLockCmd ''x'' 2)) = ReleaseLock ''x'' 2"
    by (simp add: command_of_def command_type_defs)
  have run: "Apply sample_state (Some (NewReleaseLockCmd ''x'' 2)) =
     Ret (Inl (Sentinel ErrNotLockOwner), sample_state, [])"
    by (simp add: fsm_eval sample_state_defs)
  show ?thesis using release_outcome [OF sample_state_inv(1) c run] run by simp
qed

lemma expire_effect:
  assumes "fsm_inv f" and "command_of cmd = ExpireLease i" and "Apply f cmd = Ret (r, f', freed)"
  shows "lease_at f' = (lease_at f)(i := None) \<and>
    (\<forall>n k. lock_at f' n = Some k \<longleftrightarrow> lock_at f n = Some k \<and> Lock_LeaseID k \<noteq> i) \<and>
    r = Inr (RespExpireLease \<lparr>ExpireResp_LocksReleased =
          card {n. \<exists>k. lock_at f n = Some k \<and> Lock_LeaseID k = i}\<rparr>) \<and>
    fencingCounter f' = fencingCounter f"
proof (cases "lease_at f i")
  case None
  then have none: "\<not> (lock_at f n = Some k \<and> Lock_LeaseID k = i)" for n k
    using fsm_inv_lockD [OF assms(1), of n k] by (auto simp: lock_ok_def)
  then have empty: "{n. \<exists>k. lock_at f n = Some k \<and> Lock_LeaseID k = i} = {}" by blast
  have "abs_fsm f' = abs_fsm f" "r = Inr (RespExpireLease \<lparr>ExpireResp_LocksReleased = 0\<rparr>)"
    using Apply_spec(1) [OF assms(1,3)] assms(2) None by simp_all
  then have "lease_at f' = lease_at f" "lock_at f' = lock_at f" "fencingCounter f' = fencingCounter f"
    by (metis abs_fsm_simps)+
  then show ?thesis using None none \<open>r = _\<close> by (auto simp: empty)
next
  case (Some l)
  have spec: "spec_apply (abs_fsm f) (ExpireLease i) = (r, abs_fsm f', set freed)"
    using Apply_spec(1) [OF assms(1,3)] assms(2) by simp
  then have "lock_at f' = sp_locks (fst (snd (spec_apply (abs_fsm f) (ExpireLease i))))"
    "lease_at f' = sp_leases (fst (snd (spec_apply (abs_fsm f) (ExpireLease i))))"
    "fencingCounter f' = sp_token (fst (snd (spec_apply (abs_fsm f) (ExpireLease i))))"
    "r = fst (spec_apply (abs_fsm f) (ExpireLease i))" by simp_all
  with Some show ?thesis by (auto simp: locks_of_def restrict_map_def)
qed

text \<open>
  C30: Expiring a lease cascades: afterwards the lease is gone, no lock is held through it,
  every other lock and every other lease is untouched, and the fencing counter keeps its
  value, so tokens are not reused after an expiry.
\<close>
theorem expire_cascades:
  assumes "fsm_inv f" and "command_of cmd = ExpireLease i" and "Apply f cmd = Ret (r, f', freed)"
  shows "lease_at f' = (lease_at f)(i := None) \<and>
    (\<forall>n k. lock_at f' n = Some k \<longleftrightarrow> lock_at f n = Some k \<and> Lock_LeaseID k \<noteq> i) \<and>
    r = Inr (RespExpireLease \<lparr>ExpireResp_LocksReleased =
          card {n. \<exists>k. lock_at f n = Some k \<and> Lock_LeaseID k = i}\<rparr>) \<and>
    fencingCounter f' = fencingCounter f"
  by (rule expire_effect [OF assms])

theorem expire_cascades_witness:
  "\<exists>f' freed. Apply sample_state (Some (NewExpireLeaseCmd 1)) =
      Ret (Inr (RespExpireLease \<lparr>ExpireResp_LocksReleased = 2\<rparr>), f', freed) \<and>
    lease_at f' = (lease_at sample_state)(1 := None) \<and> fencingCounter f' = 3"
proof -
  have c: "command_of (Some (NewExpireLeaseCmd 1)) = ExpireLease 1"
    by (simp add: command_of_def command_type_defs)
  obtain f' freed where run: "Apply sample_state (Some (NewExpireLeaseCmd 1)) =
      Ret (Inr (RespExpireLease \<lparr>ExpireResp_LocksReleased = 2\<rparr>), f', freed)"
    by (simp add: fsm_eval sample_state_defs)
  show ?thesis
    using expire_cascades [OF sample_state_inv(1) c run] run by (auto simp: sample_state_def)
qed

text \<open>
  The freed-lock hook misses nothing and reports nothing else: for every command, the
  names passed to the hook are distinct and are exactly the locks that were held before the
  command and are free after it.
\<close>
theorem hook_reports_freed_locks:
  assumes "fsm_inv f" and "Apply f cmd = Ret (r, f', freed)"
  shows "distinct freed \<and> set freed = {n. lock_at f n \<noteq> None \<and> lock_at f' n = None}"
proof -
  have "fr = {n. sp_locks s n \<noteq> None \<and> sp_locks s' n = None}"
    if "spec_apply s c = (r, s', fr)" for s c s' fr
    using that
    by (cases c) (auto simp: locks_of_def restrict_map_def split: option.splits if_splits)
  from this [OF Apply_spec(1) [OF assms]] Apply_spec(2) [OF assms] show ?thesis by simp
qed

lemma hook_reports_freed_locks_witness:
  "\<exists>r f' freed. Apply sample_state (Some (NewExpireLeaseCmd 1)) = Ret (r, f', freed) \<and>
    freed = [''x'', ''y''] \<and> set freed = {n. lock_at sample_state n \<noteq> None \<and> lock_at f' n = None}"
proof -
  obtain r f' where run: "Apply sample_state (Some (NewExpireLeaseCmd 1)) = Ret (r, f', [''x'', ''y''])"
    by (simp add: fsm_eval sample_state_defs)
  show ?thesis using hook_reports_freed_locks [OF sample_state_inv(1) run] run by blast
qed

section \<open>Creating\<close>

text \<open>
  Creating a lease at an instant within the range of a 64-bit nanosecond timestamp: the
  lease is created exactly when the TTL and the instant are positive and their sum does not
  exceed the largest timestamp; it then has a fresh identifier and its recorded deadline is
  the creation instant plus the TTL, without wrap-around. Otherwise nothing changes.
\<close>
theorem create_lease_outcome:
  assumes "fsm_inv f" and "- (2 ^ 63) \<le> now" and "now < 2 ^ 63"
  shows "\<exists>r f'. Apply f (Some (NewCreateLeaseCmd ow ttl now)) = Ret (r, f', []) \<and>
    (if 0 < sint ttl \<and> 0 < now \<and> now + sint ttl < 2 ^ 63
     then lease_at f (nextLeaseID f) = None \<and>
       (\<exists>l. lease_at f' = (lease_at f)(nextLeaseID f \<mapsto> l) \<and> Lease_OwnerID l = ow \<and>
          Lease_TTL l = ttl \<and> ExpiresAt l = now + sint ttl) \<and> nextLeaseID f' = nextLeaseID f + 1
     else f' = f \<and> r = Inl (Sentinel
       (if 0 < sint ttl \<and> now \<le> 0 then ErrInvalidTimestamp else ErrInvalidLeaseTTL)))"
proof -
  let ?c = "GetCreateLease (Some (NewCreateLeaseCmd ow ttl now))"
  have now: "sint (unix_nano now) = now" using assms(2,3) by (simp add: unix_nano_def sint64_of_int)
  have ok: "create_ok ?c \<longleftrightarrow> 0 < sint ttl \<and> 0 < now \<and> now + sint ttl < 2 ^ 63"
    by (auto simp: create_ok_def now)
  have step: "Apply f (Some (NewCreateLeaseCmd ow ttl now)) = Ret (applyCreateLease f ?c)"
    by (simp add: Apply_def)
  show ?thesis
  proof (cases "create_ok ?c")
    case False
    then show ?thesis using ok now by (simp add: step applyCreateLease_error)
  next
    case True
    have fresh: "lease_at f (nextLeaseID f) = None"
      using fsm_inv_leaseD [OF assms(1), of "nextLeaseID f"]
      by (cases "lease_at f (nextLeaseID f)") (auto simp: lease_ok_def)
    have exp: "ExpiresAt (create_lease f ?c) = now + sint ttl"
      unfolding ExpiresAt_def create_lease_def Lease.simps time_unix_def
      using True ok by (subst sint64_of_int) (auto simp: now)
    have "map_ok (leases f)" using fsm_inv_wf [OF assms(1)] by (simp add: fsm_wf_def)
    then show ?thesis
      using True ok fresh exp
      by (simp add: step applyCreateLease_ok) (rule exI [of _ "create_lease f ?c"], simp add: create_lease_def)
  qed
qed

lemma create_lease_outcome_witness:
  "fsm_inv sample_state \<and> (\<exists>r f'. Apply sample_state (Some (NewCreateLeaseCmd ''c'' 7 5)) = Ret (r, f', []) \<and>
     (\<exists>l. lease_at f' = (lease_at sample_state)(3 \<mapsto> l) \<and> ExpiresAt l = 12))"
proof -
  have "sint (7 :: duration) = 7" "nextLeaseID sample_state = 3" by (simp_all add: sample_state_def)
  then show ?thesis
    using create_lease_outcome [OF sample_state_inv(1), of 5 "''c''" 7] sample_state_inv(1) by auto
qed

end
