(* ===== verification/Json_Codec.thy ===== *)
theory Json_Codec
  imports Clavis_Prelude "HOL-Library.List_Lexorder" "HOL-Library.Char_ord"
begin

text \<open>
  The part of \<open>encoding/json\<close> that snapshots use, at the level of JSON values: a document is
  a tree, the text of a tree and its parsing are the library's. Encoding writes the fields
  of a struct in order and the entries of a map sorted by key, with integer keys as
  decimal strings; a nil map and a nil pointer are null. Decoding matches a key with a
  field up to the case of ASCII letters, ignores unknown keys, leaves a target alone on
  null, resets a map or pointer on null, adds to a map that is already there, and fails on
  a value of another kind or out of range. The decoder goes on after such a mismatch and
  reports it at the end; the model fails at once, which is the same to a caller that
  drops the target on error.
\<close>

section \<open>JSON values\<close>

datatype json =
    JNull
  | JBool bool
  | JInt int
  | JFraction string
  | JStr string
  | JArr "json list"
  | JObj "(string \<times> json) list"

text \<open>Why decoding failed: the Go type of the target, as in \<open>UnmarshalTypeError\<close>.\<close>

datatype json_error = UnmarshalTypeError string

section \<open>Decimal numbers\<close>

definition digit :: "nat \<Rightarrow> char" where
  "digit n = char_of (48 + n)"

definition digit_val :: "char \<Rightarrow> nat option" where
  "digit_val c = (let n = of_char c in if 48 \<le> n \<and> n \<le> (57 :: nat) then Some (n - 48) else None)"

fun format_nat :: "nat \<Rightarrow> string" where
  "format_nat n = (if n < 10 then [digit n] else format_nat (n div 10) @ [digit (n mod 10)])"

declare format_nat.simps [simp del]

fun parse_digits :: "nat \<Rightarrow> string \<Rightarrow> nat option" where
  "parse_digits acc [] = Some acc"
| "parse_digits acc (c # cs) =
     (case digit_val c of None \<Rightarrow> None | Some d \<Rightarrow> parse_digits (10 * acc + d) cs)"

text \<open>\<open>strconv.FormatUint(x, 10)\<close> and \<open>strconv.ParseUint(s, 10, 64)\<close>.\<close>

definition FormatUint :: "uint64 \<Rightarrow> string" where
  "FormatUint x = format_nat (unat x)"

definition ParseUint :: "string \<Rightarrow> uint64 option" where
  "ParseUint s =
     (if s = [] then None
      else case parse_digits 0 s of
        None \<Rightarrow> None
      | Some n \<Rightarrow> if n < 2 ^ 64 then Some (of_nat n) else None)"

lemma digit_val_digit: "n < 10 \<Longrightarrow> digit_val (digit n) = Some n"
  by (simp add: digit_val_def digit_def Let_def)

lemma parse_digits_append:
  "parse_digits acc (xs @ ys) =
     (case parse_digits acc xs of None \<Rightarrow> None | Some a \<Rightarrow> parse_digits a ys)"
  by (induction acc xs rule: parse_digits.induct) (auto split: option.splits)

lemma parse_format_nat: "parse_digits 0 (format_nat n) = Some n"
proof (induction n rule: format_nat.induct)
  case (1 n)
  show ?case
  proof (cases "n < 10")
    case True
    then show ?thesis by (simp add: format_nat.simps [of n] digit_val_digit)
  next
    case False
    then have "parse_digits 0 (format_nat (n div 10)) = Some (n div 10)" using 1 by blast
    with False show ?thesis
      by (simp add: format_nat.simps [of n] parse_digits_append digit_val_digit)
  qed
qed

lemma format_nat_not_Nil: "format_nat n \<noteq> []"
  by (subst format_nat.simps) simp

lemma ParseUint_FormatUint [simp]: "ParseUint (FormatUint x) = Some x"
  using unsigned_less [of x]
  by (simp add: ParseUint_def FormatUint_def format_nat_not_Nil parse_format_nat)

lemma FormatUint_inject: "FormatUint x = FormatUint y \<longleftrightarrow> x = y"
  by (metis ParseUint_FormatUint option.inject)

section \<open>Decoders\<close>

text \<open>A decoder takes the JSON value and the present value of the target.\<close>

type_synonym 'a decoder = "json \<Rightarrow> 'a \<Rightarrow> json_error + 'a"

fun decString :: "string decoder" where
  "decString (JStr s) old = Inr s"
| "decString JNull old = Inr old"
| "decString _ old = Inl (UnmarshalTypeError ''string'')"

fun decUint64 :: "uint64 decoder" where
  "decUint64 (JInt n) old =
     (if 0 \<le> n \<and> n < 2 ^ 64 then Inr (word_of_int n) else Inl (UnmarshalTypeError ''uint64''))"
| "decUint64 JNull old = Inr old"
| "decUint64 _ old = Inl (UnmarshalTypeError ''uint64'')"

fun decInt64 :: "int64 decoder" where
  "decInt64 (JInt n) old =
     (if - (2 ^ 63) \<le> n \<and> n < 2 ^ 63 then Inr (word_of_int n) else Inl (UnmarshalTypeError ''int64''))"
| "decInt64 JNull old = Inr old"
| "decInt64 _ old = Inl (UnmarshalTypeError ''int64'')"

definition to_lower :: "char \<Rightarrow> char" where
  "to_lower c = (let n = of_char c in if 65 \<le> n \<and> n \<le> (90 :: nat) then char_of (n + 32) else c)"

definition fold_eq :: "string \<Rightarrow> string \<Rightarrow> bool" where
  "fold_eq a b \<longleftrightarrow> map to_lower a = map to_lower b"

text \<open>
  A struct is decoded key by key; \<open>fields\<close> lists the field names with the decoders of the
  whole struct that set them.
\<close>

fun find_field :: "(string \<times> 'f) list \<Rightarrow> string \<Rightarrow> 'f option" where
  "find_field [] key = None"
| "find_field ((name, f) # fs) key = (if fold_eq name key then Some f else find_field fs key)"

fun decFields :: "(string \<times> 'a decoder) list \<Rightarrow> (string \<times> json) list \<Rightarrow> 'a \<Rightarrow> json_error + 'a" where
  "decFields fields [] old = Inr old"
| "decFields fields ((key, v) # es) old =
     (case find_field fields key of
        None \<Rightarrow> decFields fields es old
      | Some d \<Rightarrow> (case d v old of Inl e \<Rightarrow> Inl e | Inr new \<Rightarrow> decFields fields es new))"

fun decStruct :: "(string \<times> 'a decoder) list \<Rightarrow> 'a decoder" where
  "decStruct fields (JObj es) old = decFields fields es old"
| "decStruct fields JNull old = Inr old"
| "decStruct fields _ old = Inl (UnmarshalTypeError ''struct'')"

fun decPtr :: "'a decoder \<Rightarrow> 'a \<Rightarrow> 'a ptr decoder" where
  "decPtr d zero JNull old = Inr None"
| "decPtr d zero v old = (case d v (case old of None \<Rightarrow> zero | Some x \<Rightarrow> x) of
     Inl e \<Rightarrow> Inl e | Inr x \<Rightarrow> Inr (Some x))"

text \<open>Map entries are decoded into a fresh zero element each.\<close>

fun decEntries :: "(string \<Rightarrow> 'k option) \<Rightarrow> 'v decoder \<Rightarrow> 'v \<Rightarrow> (string \<times> json) list \<Rightarrow>
    ('k, 'v) gomap \<Rightarrow> json_error + ('k, 'v) gomap" where
  "decEntries pk dv zero [] m = Inr m"
| "decEntries pk dv zero ((key, v) # es) m =
     (case dv v zero of
        Inl e \<Rightarrow> Inl e
      | Inr x \<Rightarrow>
          (case pk key of
             None \<Rightarrow> Inl (UnmarshalTypeError ''map key'')
           | Some k \<Rightarrow> decEntries pk dv zero es (mput k x m)))"

fun decMap :: "(string \<Rightarrow> 'k option) \<Rightarrow> 'v decoder \<Rightarrow> 'v \<Rightarrow> ('k, 'v) gomap ptr decoder" where
  "decMap pk dv zero (JObj es) old =
     (case decEntries pk dv zero es (case old of None \<Rightarrow> [] | Some m \<Rightarrow> m) of
        Inl e \<Rightarrow> Inl e | Inr m \<Rightarrow> Inr (Some m))"
| "decMap pk dv zero JNull old = Inr None"
| "decMap pk dv zero _ old = Inl (UnmarshalTypeError ''map'')"

section \<open>Encoders\<close>

definition encMap :: "('k \<Rightarrow> string) \<Rightarrow> ('v \<Rightarrow> json) \<Rightarrow> ('k, 'v) gomap ptr \<Rightarrow> json" where
  "encMap fk ev m =
     (case m of
        None \<Rightarrow> JNull
      | Some es \<Rightarrow> JObj (sort_key fst (map (\<lambda>(k, v). (fk k, ev v)) es)))"

definition encPtr :: "('a \<Rightarrow> json) \<Rightarrow> 'a ptr \<Rightarrow> json" where
  "encPtr ev p = (case p of None \<Rightarrow> JNull | Some x \<Rightarrow> ev x)"

definition encUint64 :: "uint64 \<Rightarrow> json" where
  "encUint64 x = JInt (uint x)"

definition encInt64 :: "int64 \<Rightarrow> json" where
  "encInt64 x = JInt (sint x)"

section \<open>Round trips\<close>

lemma dec_encUint64 [simp]: "decUint64 (encUint64 x) old = Inr x"
  using uint_bounded [of x] by (simp add: encUint64_def)

lemma dec_encInt64 [simp]: "decInt64 (encInt64 x) old = Inr x"
  using sint64_lower [of x] sint64_upper [of x] by (simp add: encInt64_def)

text \<open>
  Decoding the entries of an encoded map rebuilds its lookup function, in whatever order
  the entries were written.
\<close>

lemma decEntries_enc:
  assumes "\<And>k. pk (fk k) = Some k" and "\<And>v. v \<in> snd ` set es \<Longrightarrow> dv (ev v) zero = Inr v" and "map_ok m"
  shows "\<exists>m'. decEntries pk dv zero (map (\<lambda>(k, v). (fk k, ev v)) es) m = Inr m' \<and> map_ok m' \<and>
    mget m' = mget m ++ map_of (rev es)"
  using assms(2,3)
proof (induction es arbitrary: m)
  case (Cons e es)
  obtain k v where e: "e = (k, v)" by fastforce
  have "dv (ev v) zero = Inr v" using Cons.prems(1) e by simp
  moreover obtain m' where
    "decEntries pk dv zero (map (\<lambda>(k, v). (fk k, ev v)) es) (mput k v m) = Inr m'" "map_ok m'"
    "mget m' = mget (mput k v m) ++ map_of (rev es)"
    using Cons.IH [OF Cons.prems(1) map_ok_intros(1) [OF Cons.prems(2)]] by auto
  ultimately show ?case using e assms(1) Cons.prems(2) by (auto simp: fun_eq_iff map_add_def split: option.splits)
qed simp

lemma map_of_distinct_set_eq:
  "map_ok xs \<Longrightarrow> map_ok ys \<Longrightarrow> set xs = set ys \<Longrightarrow> mget xs = mget ys"
  unfolding map_ok_def by (rule map_of_inject_set [THEN iffD2])

lemma insort_key_map: "insort_key f (h x) (map h xs) = map h (insort_key (f \<circ> h) x xs)"
  by (induction xs) auto

lemma sort_key_map: "sort_key f (map h xs) = map h (sort_key (f \<circ> h) xs)"
  by (induction xs) (simp_all add: insort_key_map comp_def)

lemma map_ok_sort_key: "map_ok es \<Longrightarrow> map_ok (sort_key f es)"
  unfolding map_ok_def distinct_map by simp

lemma mget_sort_key: "map_ok es \<Longrightarrow> mget (sort_key f es) = mget es"
  by (rule map_of_distinct_set_eq) (simp_all add: map_ok_sort_key)

lemma mget_rev: "map_ok es \<Longrightarrow> mget (rev es) = mget es"
  by (rule map_of_distinct_set_eq) (simp_all add: map_ok_def rev_map [symmetric])

text \<open>A map that is encoded and decoded into a nil map has the same lookups.\<close>

lemma dec_encMap:
  assumes "\<And>k. pk (fk k) = Some k" and "\<And>v. v \<in> snd ` set es \<Longrightarrow> dv (ev v) zero = Inr v" and "map_ok es"
  shows "\<exists>m'. decMap pk dv zero (encMap fk ev (Some es)) None = Inr (Some m') \<and> map_ok m' \<and>
    mget m' = mget es"
proof -
  let ?h = "\<lambda>(k, v). (fk k, ev v)"
  let ?es = "sort_key (fst \<circ> ?h) es"
  have ok: "map_ok ?es" by (rule map_ok_sort_key [OF assms(3)])
  obtain m' where m': "decEntries pk dv zero (map ?h ?es) [] = Inr m'" "map_ok m'"
      "mget m' = mget [] ++ map_of (rev ?es)"
    using decEntries_enc [of pk fk ?es dv ev zero "[]"] assms(1,2) by auto
  have "mget m' = mget es"
    using m'(3) mget_rev [OF ok] mget_sort_key [OF assms(3)] by simp
  then show ?thesis using m'(1,2) by (simp add: encMap_def sort_key_map)
qed

end
