(* ===== verification/Raft_FSM.thy ===== *)
theory Raft_FSM
  imports FSM_Operations Json_Codec
begin

text \<open>
  \<open>internal/state/raft_fsm.go\<close>: the adapter between the state machine and the Raft library.
  \<open>Apply\<close> decodes a log entry and delegates; \<open>Snapshot\<close> copies the state, \<open>Persist\<close> writes
  it as JSON, \<open>Restore\<close> reads it back and validates it. Protobuf decoding and the snapshot
  sink belong to libraries and are parameters.
\<close>

section \<open>Applying log entries\<close>

text \<open>The untyped value handed to the Raft library: a response or an error.\<close>

datatype any_value = AnyError goerr | AnyResponse response

definition RaftFSM_Apply :: "('data \<Rightarrow> string + CommandWrapper) \<Rightarrow> FSM \<Rightarrow> 'data \<Rightarrow>
    (any_value \<times> FSM \<times> string list) go" where
  "RaftFSM_Apply unmarshal f log_Data =
     (case unmarshal log_Data of
        Inl msg \<Rightarrow> Ret (AnyError (OtherError msg), f, [])
      | Inr wrapper \<Rightarrow>
          (case Apply f (Some wrapper) of
             Panic \<Rightarrow> Panic
           | Ret (Inl err, f', freed) \<Rightarrow> Ret (AnyError err, f', freed)
           | Ret (Inr result, f', freed) \<Rightarrow> Ret (AnyResponse result, f', freed)))"

section \<open>Snapshots\<close>

text \<open>A map field is \<open>None\<close> when the Go map is nil.\<close>

record fsmSnapshot =
  Snap_Locks :: "(string, Lock ptr) gomap ptr"
  Snap_Leases :: "(uint64, Lease ptr) gomap ptr"
  Snap_Endpoints :: "(string, string) gomap ptr"
  Snap_FencingCounter :: uint64
  Snap_NextLeaseID :: uint64

definition zeroSnapshot :: fsmSnapshot where
  "zeroSnapshot = \<lparr>Snap_Locks = None, Snap_Leases = None, Snap_Endpoints = None,
     Snap_FencingCounter = 0, Snap_NextLeaseID = 0\<rparr>"

text \<open>The copy loops of \<open>Snapshot\<close>: a nil entry is dereferenced, which panics.\<close>

fun copyPtrs :: "('k, 'v ptr) gomap \<Rightarrow> ('k, 'v ptr) gomap \<Rightarrow> ('k, 'v ptr) gomap go" where
  "copyPtrs [] acc = Ret acc"
| "copyPtrs ((k, None) # es) acc = Panic"
| "copyPtrs ((k, Some v) # es) acc = copyPtrs es (mput k (Some v) acc)"

fun copyStrings :: "(string, string) gomap \<Rightarrow> (string, string) gomap \<Rightarrow> (string, string) gomap" where
  "copyStrings [] acc = acc"
| "copyStrings ((k, v) # es) acc = copyStrings es (mput k v acc)"

definition RaftFSM_Snapshot :: "FSM \<Rightarrow> fsmSnapshot go" where
  "RaftFSM_Snapshot f =
     (case copyPtrs (locks f) [] of
        Panic \<Rightarrow> Panic
      | Ret locks' \<Rightarrow>
          (case copyPtrs (leases f) [] of
             Panic \<Rightarrow> Panic
           | Ret leases' \<Rightarrow>
               Ret \<lparr>Snap_Locks = Some locks', Snap_Leases = Some leases',
                    Snap_Endpoints = Some (copyStrings (endpoints f) []),
                    Snap_FencingCounter = fencingCounter f, Snap_NextLeaseID = nextLeaseID f\<rparr>))"

fun validateLeases :: "(uint64, Lease ptr) gomap \<Rightarrow> goerr option" where
  "validateLeases [] = None"
| "validateLeases ((leaseID, None) # es) = Some (OtherError (''snapshot lease '' @ FormatUint leaseID @ '' is nil''))"
| "validateLeases ((leaseID, Some lease) # es) =
     (if sint (Lease_ExpiresAtUnixNano lease) \<le> 0
      then Some (OtherError (''snapshot lease '' @ FormatUint leaseID @ '' has invalid expiry''))
      else if sint (Lease_TTL lease) \<le> 0
      then Some (OtherError (''snapshot lease '' @ FormatUint leaseID @ '' has invalid ttl''))
      else validateLeases es)"

fun validateEndpoints :: "(string, string) gomap \<Rightarrow> goerr option" where
  "validateEndpoints [] = None"
| "validateEndpoints ((nodeID, grpcAddr) # es) =
     (if nodeID = '''' then Some (OtherError ''snapshot endpoint has empty node id'')
      else if grpcAddr = ''''
      then Some (OtherError (''snapshot endpoint '' @ nodeID @ '' has empty grpc address''))
      else validateEndpoints es)"

definition validateSnapshot :: "fsmSnapshot \<Rightarrow> goerr option" where
  "validateSnapshot snap =
     (case Snap_Locks snap of
        None \<Rightarrow> Some (OtherError ''snapshot locks missing'')
      | Some ls \<Rightarrow>
          (case Snap_Leases snap of
             None \<Rightarrow> Some (OtherError ''snapshot leases missing'')
           | Some les \<Rightarrow>
               (case validateLeases les of
                  Some err \<Rightarrow> Some err
                | None \<Rightarrow>
                    validateEndpoints (case Snap_Endpoints snap of None \<Rightarrow> [] | Some es \<Rightarrow> es))))"

section \<open>Snapshot documents\<close>

definition encLock :: "Lock \<Rightarrow> json" where
  "encLock k = JObj [(''Name'', JStr (Lock_Name k)), (''OwnerID'', JStr (Lock_OwnerID k)),
     (''FencingToken'', encUint64 (Lock_FencingToken k)), (''LeaseID'', encUint64 (Lock_LeaseID k))]"

definition encLease :: "Lease \<Rightarrow> json" where
  "encLease l = JObj [(''LeaseID'', encUint64 (Lease_LeaseID l)), (''OwnerID'', JStr (Lease_OwnerID l)),
     (''ExpiresAtUnixNano'', encInt64 (Lease_ExpiresAtUnixNano l)), (''TTL'', encInt64 (Lease_TTL l))]"

definition encSnapshot :: "fsmSnapshot \<Rightarrow> json" where
  "encSnapshot s = JObj [(''locks'', encMap id (encPtr encLock) (Snap_Locks s)),
     (''leases'', encMap FormatUint (encPtr encLease) (Snap_Leases s)),
     (''endpoints'', encMap id JStr (Snap_Endpoints s)),
     (''fencing_counter'', encUint64 (Snap_FencingCounter s)),
     (''next_lease_id'', encUint64 (Snap_NextLeaseID s))]"

text \<open>A decoder for one field of a struct, from its getter and its update.\<close>

definition decField :: "'b decoder \<Rightarrow> ('a \<Rightarrow> 'b) \<Rightarrow> ('b \<Rightarrow> 'a \<Rightarrow> 'a) \<Rightarrow> 'a decoder" where
  "decField d get put v old = (case d v (get old) of Inl e \<Rightarrow> Inl e | Inr x \<Rightarrow> Inr (put x old))"

definition zeroLock :: Lock where
  "zeroLock = \<lparr>Lock_Name = '''', Lock_OwnerID = '''', Lock_FencingToken = 0, Lock_LeaseID = 0\<rparr>"

definition zeroLease :: Lease where
  "zeroLease = \<lparr>Lease_LeaseID = 0, Lease_OwnerID = '''', Lease_ExpiresAtUnixNano = 0, Lease_TTL = 0\<rparr>"

definition decLock :: "Lock decoder" where
  "decLock = decStruct
     [(''Name'', decField decString Lock_Name (\<lambda>x k. k\<lparr>Lock_Name := x\<rparr>)),
      (''OwnerID'', decField decString Lock_OwnerID (\<lambda>x k. k\<lparr>Lock_OwnerID := x\<rparr>)),
      (''FencingToken'', decField decUint64 Lock_FencingToken (\<lambda>x k. k\<lparr>Lock_FencingToken := x\<rparr>)),
      (''LeaseID'', decField decUint64 Lock_LeaseID (\<lambda>x k. k\<lparr>Lock_LeaseID := x\<rparr>))]"

definition decLease :: "Lease decoder" where
  "decLease = decStruct
     [(''LeaseID'', decField decUint64 Lease_LeaseID (\<lambda>x l. l\<lparr>Lease_LeaseID := x\<rparr>)),
      (''OwnerID'', decField decString Lease_OwnerID (\<lambda>x l. l\<lparr>Lease_OwnerID := x\<rparr>)),
      (''ExpiresAtUnixNano'',
        decField decInt64 Lease_ExpiresAtUnixNano (\<lambda>x l. l\<lparr>Lease_ExpiresAtUnixNano := x\<rparr>)),
      (''TTL'', decField decInt64 Lease_TTL (\<lambda>x l. l\<lparr>Lease_TTL := x\<rparr>))]"

definition decSnapshot :: "fsmSnapshot decoder" where
  "decSnapshot = decStruct
     [(''locks'', decField (decMap Some (decPtr decLock zeroLock) None) Snap_Locks
         (\<lambda>x s. s\<lparr>Snap_Locks := x\<rparr>)),
      (''leases'', decField (decMap ParseUint (decPtr decLease zeroLease) None) Snap_Leases
         (\<lambda>x s. s\<lparr>Snap_Leases := x\<rparr>)),
      (''endpoints'', decField (decMap Some decString '''') Snap_Endpoints
         (\<lambda>x s. s\<lparr>Snap_Endpoints := x\<rparr>)),
      (''fencing_counter'', decField decUint64 Snap_FencingCounter
         (\<lambda>x s. s\<lparr>Snap_FencingCounter := x\<rparr>)),
      (''next_lease_id'', decField decUint64 Snap_NextLeaseID (\<lambda>x s. s\<lparr>Snap_NextLeaseID := x\<rparr>))]"

definition Restore :: "FSM \<Rightarrow> json \<Rightarrow> goerr option \<times> FSM" where
  "Restore f doc =
     (case decSnapshot doc zeroSnapshot of
        Inl (UnmarshalTypeError t) \<Rightarrow> (Some (OtherError (''json: cannot unmarshal into '' @ t)), f)
      | Inr snap0 \<Rightarrow>
          (let snap = (if Snap_Endpoints snap0 = None then snap0\<lparr>Snap_Endpoints := Some []\<rparr> else snap0)
           in case validateSnapshot snap of
                Some err \<Rightarrow> (Some err, f)
              | None \<Rightarrow>
                  (None, f\<lparr>locks := the (Snap_Locks snap), leases := the (Snap_Leases snap),
                           endpoints := the (Snap_Endpoints snap),
                           fencingCounter := Snap_FencingCounter snap,
                           nextLeaseID := Snap_NextLeaseID snap\<rparr>)))"

text \<open>
  \<open>Persist\<close> over the operations of the sink: writing a document, cancelling, closing. The
  encoder hands the document to the sink in one write.
\<close>

definition Persist :: "(json \<Rightarrow> 's \<Rightarrow> goerr option \<times> 's) \<Rightarrow> ('s \<Rightarrow> 's) \<Rightarrow> ('s \<Rightarrow> goerr option \<times> 's) \<Rightarrow>
    fsmSnapshot \<Rightarrow> 's \<Rightarrow> goerr option \<times> 's" where
  "Persist sink_write sink_cancel sink_close snap sink =
     (case sink_write (encSnapshot snap) sink of
        (Some err, sink') \<Rightarrow> (Some err, sink_cancel sink')
      | (None, sink') \<Rightarrow> sink_close sink')"

section \<open>Round trip of a snapshot\<close>

lemma dec_encLock: "decLock (encLock k) old = Inr k"
  by (simp add: decLock_def encLock_def decField_def fold_eq_def to_lower_def)

lemma dec_encLease: "decLease (encLease l) old = Inr l"
  by (simp add: decLease_def encLease_def decField_def fold_eq_def to_lower_def)

lemma decPtr_value:
  "v \<noteq> JNull \<Longrightarrow> decPtr d zero v None = (case d v zero of Inl e \<Rightarrow> Inl e | Inr x \<Rightarrow> Inr (Some x))"
  by (cases v) simp_all

lemma dec_encPtr:
  assumes "\<And>x old. d (ev x) old = Inr x" and "\<And>x. ev x \<noteq> JNull"
  shows "decPtr d zero (encPtr ev p) None = Inr p"
  using assms by (cases p) (simp_all add: encPtr_def decPtr_value)

lemmas dec_entries =
  dec_encPtr [of decLock encLock, OF dec_encLock] dec_encPtr [of decLease encLease, OF dec_encLease]

lemma dec_encSnapshot:
  assumes "map_ok ls" and "map_ok les" and "map_ok es"
  shows "\<exists>ls' les' es'.
    decSnapshot (encSnapshot \<lparr>Snap_Locks = Some ls, Snap_Leases = Some les, Snap_Endpoints = Some es,
        Snap_FencingCounter = c, Snap_NextLeaseID = i\<rparr>) zeroSnapshot =
      Inr \<lparr>Snap_Locks = Some ls', Snap_Leases = Some les', Snap_Endpoints = Some es',
        Snap_FencingCounter = c, Snap_NextLeaseID = i\<rparr> \<and>
    map_ok ls' \<and> map_ok les' \<and> map_ok es' \<and> mget ls' = mget ls \<and> mget les' = mget les \<and> mget es' = mget es"
proof -
  obtain ls' where ls: "decMap Some (decPtr decLock zeroLock) None (encMap id (encPtr encLock) (Some ls)) None
      = Inr (Some ls')" "map_ok ls'" "mget ls' = mget ls"
    using dec_encMap [of Some id ls "decPtr decLock zeroLock" "encPtr encLock" None] assms(1)
    by (auto simp: dec_entries encLock_def)
  obtain les' where les: "decMap ParseUint (decPtr decLease zeroLease) None
      (encMap FormatUint (encPtr encLease) (Some les)) None = Inr (Some les')"
      "map_ok les'" "mget les' = mget les"
    using dec_encMap [of ParseUint FormatUint les "decPtr decLease zeroLease" "encPtr encLease" None] assms(2)
    by (auto simp: dec_entries encLease_def)
  obtain es' where es: "decMap Some decString [] (encMap id JStr (Some es)) None = Inr (Some es')"
      "map_ok es'" "mget es' = mget es"
    using dec_encMap [of Some id es decString JStr "[]"] assms(3) by auto
  show ?thesis
    using ls es les
    by (simp add: decSnapshot_def encSnapshot_def decField_def fold_eq_def to_lower_def zeroSnapshot_def)
qed

lemma copyPtrs_eq:
  assumes "map_ok acc" and "None \<notin> snd ` set es"
  shows "\<exists>m. copyPtrs es acc = Ret m \<and> map_ok m \<and> mget m = mget acc ++ map_of (rev es)"
  using assms
proof (induction es acc rule: copyPtrs.induct)
  case (3 k v es acc)
  have "\<exists>m. copyPtrs es (mput k (Some v) acc) = Ret m \<and> map_ok m \<and>
      mget m = mget (mput k (Some v) acc) ++ map_of (rev es)"
    by (rule 3(1)) (use 3(2,3) in auto)
  then obtain m where "copyPtrs es (mput k (Some v) acc) = Ret m" "map_ok m"
      "mget m = mget (mput k (Some v) acc) ++ map_of (rev es)" by blast
  then show ?case using 3(2) by (auto simp: fun_eq_iff map_add_def split: option.splits)
qed auto

lemma copyStrings_eq:
  assumes "map_ok acc"
  shows "map_ok (copyStrings es acc) \<and> mget (copyStrings es acc) = mget acc ++ map_of (rev es)"
  using assms
  by (induction es acc rule: copyStrings.induct) (auto simp: fun_eq_iff map_add_def split: option.splits)

lemma wf_no_nil:
  assumes "fsm_wf f"
  shows "None \<notin> snd ` set (locks f)" "None \<notin> snd ` set (leases f)"
  using assms by (auto simp: fsm_wf_def map_ok_def)

lemma RaftFSM_Snapshot_eq:
  assumes "fsm_wf f"
  shows "\<exists>ls les es. RaftFSM_Snapshot f =
      Ret \<lparr>Snap_Locks = Some ls, Snap_Leases = Some les, Snap_Endpoints = Some es,
           Snap_FencingCounter = fencingCounter f, Snap_NextLeaseID = nextLeaseID f\<rparr> \<and>
    map_ok ls \<and> map_ok les \<and> map_ok es \<and>
    mget ls = mget (locks f) \<and> mget les = mget (leases f) \<and> mget es = mget (endpoints f)"
  using copyPtrs_eq [of "[]", OF _ wf_no_nil(1) [OF assms]] copyPtrs_eq [of "[]", OF _ wf_no_nil(2) [OF assms]]
    copyStrings_eq [of "[]" "endpoints f"] wf_map_ok [OF assms]
  by (auto simp: RaftFSM_Snapshot_def mget_rev)

lemma validateLeases_None:
  "validateLeases es = None \<longleftrightarrow>
     (\<forall>(i, p) \<in> set es. \<exists>l. p = Some l \<and> 0 < sint (Lease_ExpiresAtUnixNano l) \<and> 0 < sint (Lease_TTL l))"
  by (induction es rule: validateLeases.induct) auto

lemma validateEndpoints_None:
  "validateEndpoints es = None \<longleftrightarrow> (\<forall>(n, a) \<in> set es. n \<noteq> [] \<and> a \<noteq> [])"
  by (induction es rule: validateEndpoints.induct) auto

lemma fsm_inv_abs:
  assumes inv: "fsm_inv f" and wf: "fsm_wf g" and same: "abs_fsm g = abs_fsm f"
  shows "fsm_inv g"
proof (rule fsm_invI [OF wf])
  have eqs: "lock_at g = lock_at f" "lease_at g = lease_at f" "mget (endpoints g) = mget (endpoints f)"
    "fencingCounter g = fencingCounter f" "nextLeaseID g = nextLeaseID f"
    using same by (metis abs_fsm_simps)+
  show "0 < unat (nextLeaseID g)" using inv eqs by (simp add: fsm_inv_def)
  show "lease_ok g i l" if "lease_at g i = Some l" for i l
    using that fsm_inv_leaseD [OF inv, of i l] eqs by (simp add: lease_ok_def)
  show "lock_ok g n k" if "lock_at g n = Some k" for n k
    using that fsm_inv_lockD [OF inv, of n k] eqs by (simp add: lock_ok_def)
  show "n = m" if "lock_at g n = Some k" "lock_at g m = Some k'" "Lock_FencingToken k = Lock_FencingToken k'"
    for n m k k' using that fsm_inv_tokenD [OF inv] eqs by simp
  show "n \<noteq> [] \<and> a \<noteq> []" if "GetEndpoint g n = Some a" for n a
    using that fsm_inv_endpointD [OF inv, of n a] eqs by (simp add: GetEndpoint_def)
qed

lemma inv_snapshot_valid:
  assumes "fsm_inv f" and "map_ok les" and "map_ok es"
    and "mget les = mget (leases f)" and "mget es = mget (endpoints f)"
  shows "validateLeases les = None" "validateEndpoints es = None"
proof -
  have "\<exists>l. p = Some l \<and> 0 < sint (Lease_ExpiresAtUnixNano l) \<and> 0 < sint (Lease_TTL l)"
    if "(i, p) \<in> set les" for i p
  proof -
    have "mget (leases f) i = Some p" using that assms(2,4) by (metis gm.entries_iff)
    then obtain l where "p = Some l" "lease_at f i = Some l"
      using lease_at_iff [OF fsm_inv_wf [OF assms(1)]] by blast
    then show ?thesis using fsm_inv_leaseD [OF assms(1)] by (auto simp: lease_ok_def)
  qed
  then show "validateLeases les = None" by (auto simp: validateLeases_None)
  have "n \<noteq> [] \<and> a \<noteq> []" if "(n, a) \<in> set es" for n a
    using that assms(3,5) fsm_inv_endpoint_map [OF assms(1)] by (metis gm.entries_iff)
  then show "validateEndpoints es = None" by (auto simp: validateEndpoints_None)
qed

lemma snapshot_restore:
  assumes inv: "fsm_inv f"
  obtains s f' where "RaftFSM_Snapshot f = Ret s" "Restore g (encSnapshot s) = (None, f')"
    "abs_fsm f' = abs_fsm f" "fsm_inv f'"
proof -
  note wf = fsm_inv_wf [OF inv]
  obtain ls les es where snap: "RaftFSM_Snapshot f =
      Ret \<lparr>Snap_Locks = Some ls, Snap_Leases = Some les, Snap_Endpoints = Some es,
           Snap_FencingCounter = fencingCounter f, Snap_NextLeaseID = nextLeaseID f\<rparr>"
      and ok: "map_ok ls" "map_ok les" "map_ok es"
      and eqs: "mget ls = mget (locks f)" "mget les = mget (leases f)" "mget es = mget (endpoints f)"
    using RaftFSM_Snapshot_eq [OF wf] by blast
  obtain ls' les' es' where dec:
      "decSnapshot (encSnapshot \<lparr>Snap_Locks = Some ls, Snap_Leases = Some les, Snap_Endpoints = Some es,
        Snap_FencingCounter = fencingCounter f, Snap_NextLeaseID = nextLeaseID f\<rparr>) zeroSnapshot =
      Inr \<lparr>Snap_Locks = Some ls', Snap_Leases = Some les', Snap_Endpoints = Some es',
        Snap_FencingCounter = fencingCounter f, Snap_NextLeaseID = nextLeaseID f\<rparr>"
      and ok': "map_ok ls'" "map_ok les'" "map_ok es'"
      and eqs': "mget ls' = mget ls" "mget les' = mget les" "mget es' = mget es"
    using dec_encSnapshot [OF ok] by blast
  let ?f = "g\<lparr>locks := ls', leases := les', endpoints := es', fencingCounter := fencingCounter f,
              nextLeaseID := nextLeaseID f\<rparr>"
  have valid: "validateLeases les' = None" "validateEndpoints es' = None"
    using inv_snapshot_valid [OF inv ok'(2,3)] eqs eqs' by simp_all
  have wf': "fsm_wf ?f" using wf ok' eqs eqs' by (simp add: fsm_wf_def)
  have abs: "abs_fsm ?f = abs_fsm f"
    using eqs eqs' by (simp add: abs_fsm_def lock_at_def lease_at_def fun_eq_iff)
  show ?thesis
    by (rule that [OF snap _ abs fsm_inv_abs [OF inv wf' abs]])
      (simp add: Restore_def dec validateSnapshot_def valid)
qed

section \<open>Properties\<close>

text \<open>
  C16: A snapshot is complete: the state a node reads back from the document another node
  persisted is, as the specification sees it, the state that was snapshotted, whatever the
  restoring node held before, and it satisfies the invariant again.
\<close>
theorem snapshot_roundtrip:
  assumes "fsm_inv f"
  shows "\<exists>s f'. RaftFSM_Snapshot f = Ret s \<and> Restore g (encSnapshot s) = (None, f') \<and>
    abs_fsm f' = abs_fsm f \<and> fsm_inv f'"
  using snapshot_restore [OF assms] by metis

theorem snapshot_roundtrip_witness:
  "fsm_inv sample_state \<and> (\<exists>s f'. RaftFSM_Snapshot sample_state = Ret s \<and>
     Restore NewFSM (encSnapshot s) = (None, f') \<and> abs_fsm f' = abs_fsm sample_state)"
  using snapshot_roundtrip [OF sample_state_inv(1)] sample_state_inv(1) by metis

text \<open>
  C15: Log compaction is transparent: a node that installs a snapshot taken after a prefix
  of the log and then applies the rest of the log gives the answers, and reaches the state,
  of a node that applied the whole log from the start.
\<close>
theorem snapshot_replaces_prefix:
  assumes "length (xs @ ys) < 2 ^ 64 - 1" and "ApplyAll NewFSM (xs @ ys) = Ret (f, rs)"
  shows "\<exists>fx s g' g''. ApplyAll NewFSM xs = Ret (fx, take (length xs) rs) \<and>
    RaftFSM_Snapshot fx = Ret s \<and> Restore g (encSnapshot s) = (None, g') \<and>
    ApplyAll g' ys = Ret (g'', drop (length xs) rs) \<and> abs_fsm g'' = abs_fsm f"
proof -
  obtain fx r1 r2 where run: "ApplyAll NewFSM xs = Ret (fx, r1)" "ApplyAll fx ys = Ret (f, r2)"
      and rs: "rs = r1 @ r2"
    using assms(2) by (auto simp: ApplyAll_append split: go.splits prod.splits)
  have len: "length r1 = length xs" by (rule ApplyAll_length [OF run(1)])
  have ok: "log_ok fx (length ys)"
    by (rule log_ok_run [OF _ run(1)]) (use log_ok_NewFSM [OF assms(1)] in simp)
  then have inv: "fsm_inv fx" by (simp add: log_ok_def)
  obtain s g' where s: "RaftFSM_Snapshot fx = Ret s" "Restore g (encSnapshot s) = (None, g')"
      "abs_fsm g' = abs_fsm fx" "fsm_inv g'"
    by (rule snapshot_restore [OF inv])
  have "fencingCounter g' = fencingCounter fx" "nextLeaseID g' = nextLeaseID fx"
    using s(3) by (metis abs_fsm_simps)+
  then have "log_ok g' (length ys)" using ok s(4) by (simp add: log_ok_def)
  from ApplyAll_abs [OF this ok s(3)] run(2)
  obtain g'' where "ApplyAll g' ys = Ret (g'', r2)" "abs_fsm g'' = abs_fsm f" by auto
  with run(1) s(1,2) len rs show ?thesis by auto
qed

theorem snapshot_replaces_prefix_witness:
  "\<exists>fx s g' g''. ApplyAll NewFSM (take 3 sample_log) = Ret (fx, take 3 sample_answers) \<and>
     RaftFSM_Snapshot fx = Ret s \<and> Restore sample_state (encSnapshot s) = (None, g') \<and>
     ApplyAll g' (drop 3 sample_log) = Ret (g'', drop 3 sample_answers) \<and> abs_fsm g'' = abs_fsm sample_end"
proof -
  have len: "min (length sample_log) 3 = 3" by (simp add: sample_log_def)
  show ?thesis
    using snapshot_replaces_prefix [of "take 3 sample_log" "drop 3 sample_log" sample_end sample_answers sample_state]
      sample_run sample_log_short by (simp add: len)
qed

text \<open>
  C34: A restore that reports an error leaves the state machine exactly as it was, and a
  restore that succeeds leaves no nil lease, no lease without a positive TTL and deadline,
  and no endpoint with an empty name or address.
\<close>
theorem restore_validates:
  assumes "Restore f doc = (err, f')"
  shows "(err \<noteq> None \<longrightarrow> f' = f) \<and>
    (err = None \<longrightarrow>
      (\<forall>(i, p) \<in> set (leases f'). \<exists>l. p = Some l \<and> 0 < sint (Lease_TTL l) \<and>
         0 < sint (Lease_ExpiresAtUnixNano l)) \<and>
      (\<forall>(n, a) \<in> set (endpoints f'). n \<noteq> [] \<and> a \<noteq> []))"
  using assms
  by (auto simp: Restore_def Let_def validateSnapshot_def validateLeases_None validateEndpoints_None
      split: sum.splits json_error.splits option.splits if_splits) (auto dest: bspec)

lemmas json_eval =
  Restore_def decSnapshot_def decField_def fold_eq_def to_lower_def zeroSnapshot_def
  validateSnapshot_def decLock_def decLease_def zeroLease_def zeroLock_def ParseUint_def FormatUint_def
  format_nat.simps digit_def digit_val_def

theorem restore_validates_witness:
  "Restore sample_state (JObj [(''locks'', JObj []), (''leases'', JObj [(''1'', JNull)])]) =
     (Some (OtherError ''snapshot lease 1 is nil''), sample_state) \<and> sample_state = sample_state"
proof -
  have run: "Restore sample_state (JObj [(''locks'', JObj []), (''leases'', JObj [(''1'', JNull)])]) =
      (Some (OtherError ''snapshot lease 1 is nil''), sample_state)"
    by (simp add: json_eval) (simp add: char_of_def bit_0)
  show ?thesis using restore_validates [OF run] run by simp
qed

text \<open>
  The validation does not look at the lock entries: a document whose lock map has a null
  entry is restored without error, and then the first acquisition of that lock panics in
  every node that installed it.
\<close>
theorem restore_accepts_nil_lock:
  "case Restore NewFSM (JObj [(''locks'', JObj [(''x'', JNull)]),
        (''leases'', JObj [(''1'', encLease (sample_lease 1 ''a''))]),
        (''fencing_counter'', JInt 1), (''next_lease_id'', JInt 2)]) of
     (err, f') \<Rightarrow> err = None \<and> Apply f' (Some (NewAcquireLockCmd ''x'' ''a'' 1)) = Panic"
  by (simp add: json_eval fsm_eval NewFSM_def sample_state_defs encLease_def encUint64_def encInt64_def)

end
