(* ===== verification/Lease_Tracker.thy ===== *)
theory Lease_Tracker
  imports Domain_Model
begin

text \<open>
  \<open>internal/cluster/lease.go\<close>, the leader's in-memory view of lease liveness: \<open>leaseTracker\<close>
  and its operations, each one a critical section under the tracker's mutex. Deadlines,
  claims and renewals are proved over every interleaving of operations, any terms, through
  the contract \<open>lease_liveness\<close>.
\<close>

section \<open>State\<close>

text \<open>The two maps are nil (\<open>None\<close>) until the first term; writing to a nil map panics.\<close>

record leaseTracker =
  tr_term :: uint64
  tr_leaderSince :: time
  tr_renewedAt :: "(uint64, time) gomap ptr"
  tr_expiring :: "(uint64, bool) gomap ptr"

definition zeroTracker :: leaseTracker where
  "zeroTracker = \<lparr>tr_term = 0, tr_leaderSince = zero_time, tr_renewedAt = None, tr_expiring = None\<rparr>"

definition isExpiring :: "leaseTracker \<Rightarrow> uint64 \<Rightarrow> bool" where
  "isExpiring t i = mapIndex False (tr_expiring t) i"

definition lastRenewed :: "leaseTracker \<Rightarrow> uint64 \<Rightarrow> time" where
  "lastRenewed t i = mapIndex zero_time (tr_renewedAt t) i"

section \<open>Operations\<close>

definition syncTerm :: "leaseTracker \<Rightarrow> uint64 \<Rightarrow> time \<Rightarrow> leaseTracker" where
  "syncTerm t term now =
     (if term = tr_term t then t
      else \<lparr>tr_term = term, tr_leaderSince = now, tr_renewedAt = Some [], tr_expiring = Some []\<rparr>)"

definition deadline :: "leaseTracker \<Rightarrow> Lease \<Rightarrow> time" where
  "deadline t lease =
     foldl (\<lambda>dl from.
         let candidate = time_add from (Lease_TTL lease)
         in if \<not> is_zero from \<and> candidate > dl then candidate else dl)
       (ExpiresAt lease) [tr_leaderSince t, lastRenewed t (Lease_LeaseID lease)]"

definition renew :: "leaseTracker \<Rightarrow> uint64 \<Rightarrow> time \<Rightarrow> Lease \<Rightarrow> (goerr option \<times> leaseTracker) go" where
  "renew t0 term now lease =
     (let t = syncTerm t0 term now in
      if isExpiring t (Lease_LeaseID lease) \<or> \<not> now < deadline t lease
      then Ret (Some (Sentinel ErrLeaseExpired), t)
      else case mapStore (tr_renewedAt t) (Lease_LeaseID lease) now of
             Panic \<Rightarrow> Panic
           | Ret m \<Rightarrow> Ret (None, t\<lparr>tr_renewedAt := m\<rparr>))"

fun claimLoop :: "leaseTracker \<Rightarrow> time \<Rightarrow> Lease list \<Rightarrow> (uint64 list \<times> leaseTracker) go" where
  "claimLoop t now [] = Ret ([], t)"
| "claimLoop t now (lease # ls) =
     (if \<not> isExpiring t (Lease_LeaseID lease) \<and> \<not> now < deadline t lease
      then case mapStore (tr_expiring t) (Lease_LeaseID lease) True of
             Panic \<Rightarrow> Panic
           | Ret m \<Rightarrow>
               (case claimLoop (t\<lparr>tr_expiring := m\<rparr>) now ls of
                  Panic \<Rightarrow> Panic
                | Ret (expired, t') \<Rightarrow> Ret (Lease_LeaseID lease # expired, t'))
      else claimLoop t now ls)"

definition claimExpired :: "leaseTracker \<Rightarrow> uint64 \<Rightarrow> time \<Rightarrow> Lease list \<Rightarrow> (uint64 list \<times> leaseTracker) go" where
  "claimExpired t term now ls = claimLoop (syncTerm t term now) now ls"

definition alive :: "leaseTracker \<Rightarrow> uint64 \<Rightarrow> time \<Rightarrow> Lease \<Rightarrow> bool \<times> leaseTracker" where
  "alive t0 term now lease =
     (let t = syncTerm t0 term now
      in (\<not> isExpiring t (Lease_LeaseID lease) \<and> now < deadline t lease, t))"

definition finishExpiry :: "leaseTracker \<Rightarrow> uint64 \<Rightarrow> bool \<Rightarrow> leaseTracker" where
  "finishExpiry t leaseID committed =
     (let t' = t\<lparr>tr_expiring := mapRemove (tr_expiring t) leaseID\<rparr>
      in if committed then t'\<lparr>tr_renewedAt := mapRemove (tr_renewedAt t) leaseID\<rparr> else t')"

section \<open>Calls as a sequence\<close>

datatype tracker_call =
    CallRenew uint64 time Lease
  | CallClaim uint64 time "Lease list"
  | CallAlive uint64 time Lease
  | CallFinish uint64 bool

datatype tracker_answer =
    Renewed "goerr option"
  | Claimed "uint64 list"
  | IsAlive bool
  | Finished

fun tracker_step :: "leaseTracker \<Rightarrow> tracker_call \<Rightarrow> (tracker_answer \<times> leaseTracker) go" where
  "tracker_step t (CallRenew term now lease) =
     (case renew t term now lease of Panic \<Rightarrow> Panic | Ret (e, t') \<Rightarrow> Ret (Renewed e, t'))"
| "tracker_step t (CallClaim term now ls) =
     (case claimExpired t term now ls of Panic \<Rightarrow> Panic | Ret (ids, t') \<Rightarrow> Ret (Claimed ids, t'))"
| "tracker_step t (CallAlive term now lease) =
     (case alive t term now lease of (b, t') \<Rightarrow> Ret (IsAlive b, t'))"
| "tracker_step t (CallFinish leaseID committed) = Ret (Finished, finishExpiry t leaseID committed)"

section \<open>Deadlines\<close>

definition ttl_after :: "time \<Rightarrow> Lease \<Rightarrow> time" where
  "ttl_after from lease = from + sint (Lease_TTL lease)"

text \<open>
  The instants a deadline is counted from, one TTL each, besides the recorded deadline.
\<close>

definition deadline_candidates :: "leaseTracker \<Rightarrow> Lease \<Rightarrow> time set" where
  "deadline_candidates t lease =
     {ExpiresAt lease} \<union>
     (\<lambda>from. ttl_after from lease) ` ({tr_leaderSince t, lastRenewed t (Lease_LeaseID lease)} - {zero_time})"

lemma deadline_Max: "deadline t lease = Max (deadline_candidates t lease)"
proof -
  have fin: "finite (deadline_candidates t lease)" "deadline_candidates t lease \<noteq> {}"
    by (simp_all add: deadline_candidates_def)
  have "deadline t lease \<in> deadline_candidates t lease"
    by (simp add: deadline_def deadline_candidates_def ttl_after_def time_add_def is_zero_def Let_def)
  moreover have "x \<le> deadline t lease" if "x \<in> deadline_candidates t lease" for x
    using that
    by (auto simp: deadline_def deadline_candidates_def ttl_after_def time_add_def is_zero_def Let_def)
  ultimately show ?thesis using fin by (intro Max_eqI [symmetric])
qed

lemma deadline_ge:
  "x \<in> deadline_candidates t lease \<Longrightarrow> x \<le> deadline t lease"
  unfolding deadline_Max by (rule Max_ge) (simp_all add: deadline_candidates_def)

lemma deadline_expiring [simp]: "deadline (t\<lparr>tr_expiring := m\<rparr>) lease = deadline t lease"
  by (simp add: deadline_def lastRenewed_def)

section \<open>Claims\<close>

lemma isExpiring_store:
  "mapStore (tr_expiring t) i True = Ret m \<Longrightarrow>
     isExpiring (t\<lparr>tr_expiring := m\<rparr>) j \<longleftrightarrow> j = i \<or> isExpiring t j"
  by (auto simp: isExpiring_def mapIndex_mapStore)

lemma claimLoop_eq:
  assumes "tr_expiring t \<noteq> None"
  shows "\<exists>ids m. claimLoop t now ls = Ret (ids, t\<lparr>tr_expiring := m\<rparr>) \<and> m \<noteq> None \<and> distinct ids \<and>
    set ids = {i. \<not> isExpiring t i \<and> (\<exists>l \<in> set ls. Lease_LeaseID l = i \<and> deadline t l \<le> now)} \<and>
    (\<forall>j. isExpiring (t\<lparr>tr_expiring := m\<rparr>) j \<longleftrightarrow> isExpiring t j \<or> j \<in> set ids)"
  using assms
proof (induction ls arbitrary: t)
  case Nil
  have "t\<lparr>tr_expiring := tr_expiring t\<rparr> = t" by simp
  then show ?case using Nil by (intro exI [of _ "[]"] exI [of _ "tr_expiring t"]) simp
next
  case (Cons l ls)
  show ?case
  proof (cases "\<not> isExpiring t (Lease_LeaseID l) \<and> \<not> now < deadline t l")
    case False
    then show ?thesis using Cons.IH [OF Cons.prems] by (fastforce simp: not_less)
  next
    case True
    obtain m where m: "mapStore (tr_expiring t) (Lease_LeaseID l) True = Ret m"
      using mapStore_Ret [OF Cons.prems] by blast
    note e = isExpiring_store [OF m]
    have "tr_expiring (t\<lparr>tr_expiring := m\<rparr>) \<noteq> None" using mapStore_nonnil [OF m] by simp
    from Cons.IH [OF this] obtain ids m' where r:
      "claimLoop (t\<lparr>tr_expiring := m\<rparr>) now ls = Ret (ids, t\<lparr>tr_expiring := m'\<rparr>)" "m' \<noteq> None" "distinct ids"
      "set ids = {i. \<not> isExpiring (t\<lparr>tr_expiring := m\<rparr>) i \<and>
         (\<exists>l' \<in> set ls. Lease_LeaseID l' = i \<and> deadline t l' \<le> now)}"
      "\<forall>j. isExpiring (t\<lparr>tr_expiring := m'\<rparr>) j \<longleftrightarrow> isExpiring (t\<lparr>tr_expiring := m\<rparr>) j \<or> j \<in> set ids"
      by auto
    have "claimLoop t now (l # ls) = Ret (Lease_LeaseID l # ids, t\<lparr>tr_expiring := m'\<rparr>)"
      using True m r(1) by simp
    moreover have "set (Lease_LeaseID l # ids) =
        {i. \<not> isExpiring t i \<and> (\<exists>l' \<in> set (l # ls). Lease_LeaseID l' = i \<and> deadline t l' \<le> now)}"
      unfolding list.set r(4) e using True by auto
    moreover have "distinct (Lease_LeaseID l # ids)" using r(3,4) e by simp
    moreover have "\<forall>j. isExpiring (t\<lparr>tr_expiring := m'\<rparr>) j \<longleftrightarrow>
        isExpiring t j \<or> j \<in> set (Lease_LeaseID l # ids)" using r(5) e by auto
    ultimately show ?thesis using r(2) by blast
  qed
qed

lemma syncTerm_simps [simp]:
  "tr_term (syncTerm t term now) = term"
  "syncTerm t (tr_term t) now = t"
  by (simp_all add: syncTerm_def)

section \<open>The promise of a renewal\<close>

definition protected :: "Lease \<Rightarrow> time \<Rightarrow> leaseTracker \<Rightarrow> bool" where
  "protected lease start t \<longleftrightarrow> zero_time < start \<and> tr_renewedAt t \<noteq> None \<and> tr_expiring t \<noteq> None \<and>
     \<not> isExpiring t (Lease_LeaseID lease) \<and> ttl_after start lease \<le> deadline t lease"

text \<open>
  Calls made between \<open>start\<close> and one TTL later, in any term; a claim sees the lease as it is
  replicated; the expiry of the lease itself is not reported as committed.
\<close>

fun within_ttl :: "Lease \<Rightarrow> time \<Rightarrow> tracker_call \<Rightarrow> bool" where
  "within_ttl lease start (CallRenew term now l) = (start \<le> now \<and> now < ttl_after start lease)"
| "within_ttl lease start (CallClaim term now ls) = (start \<le> now \<and> now < ttl_after start lease \<and>
     (\<forall>l \<in> set ls. Lease_LeaseID l = Lease_LeaseID lease \<longrightarrow> l = lease))"
| "within_ttl lease start (CallAlive term now l) = (start \<le> now \<and> now < ttl_after start lease)"
| "within_ttl lease start (CallFinish i committed) = (i \<noteq> Lease_LeaseID lease \<or> \<not> committed)"

fun lease_kept :: "Lease \<Rightarrow> tracker_call \<Rightarrow> tracker_answer \<Rightarrow> bool" where
  "lease_kept lease (CallRenew term now l) a = (l = lease \<longrightarrow> a = Renewed None)"
| "lease_kept lease (CallClaim term now ls) a = (\<exists>ids. a = Claimed ids \<and> Lease_LeaseID lease \<notin> set ids)"
| "lease_kept lease (CallAlive term now l) a = (l = lease \<longrightarrow> a = IsAlive True)"
| "lease_kept lease (CallFinish i committed) a = (a = Finished)"

lemma ttl_after_mono: "a \<le> b \<Longrightarrow> ttl_after a lease \<le> ttl_after b lease"
  by (simp add: ttl_after_def)

lemma fresh_term_deadline:
  "term \<noteq> tr_term t \<Longrightarrow> zero_time < now \<Longrightarrow> ttl_after now lease \<le> deadline (syncTerm t term now) lease"
  by (rule deadline_ge) (simp add: deadline_candidates_def syncTerm_def)

lemma protected_new_term:
  assumes "term \<noteq> tr_term t" and "zero_time < now"
  shows "protected lease now (syncTerm t term now)"
  using fresh_term_deadline [OF assms] assms by (simp add: protected_def syncTerm_def isExpiring_def)

lemma protected_sync:
  assumes "protected lease start t" and "start \<le> now"
  shows "protected lease start (syncTerm t term now)"
proof (cases "term = tr_term t")
  case False
  have "zero_time < now" using assms by (simp add: protected_def)
  then have "protected lease now (syncTerm t term now)" using protected_new_term [OF False] by blast
  then show ?thesis
    using assms ttl_after_mono [OF assms(2), of lease] by (auto simp: protected_def)
qed (use assms in simp)

lemma lastRenewed_store:
  "mapStore (tr_renewedAt t) i now = Ret m \<Longrightarrow>
     lastRenewed (t\<lparr>tr_renewedAt := m\<rparr>) j = (if j = i then now else lastRenewed t j)"
  by (simp add: lastRenewed_def mapIndex_mapStore)

lemma protected_store:
  assumes prot: "protected lease start t" and "start \<le> now"
    and store: "mapStore (tr_renewedAt t) i now = Ret m"
  shows "protected lease start (t\<lparr>tr_renewedAt := m\<rparr>)"
proof -
  have "ttl_after start lease \<le> deadline (t\<lparr>tr_renewedAt := m\<rparr>) lease"
  proof (cases "i = Lease_LeaseID lease")
    case True
    have "ttl_after now lease \<le> deadline (t\<lparr>tr_renewedAt := m\<rparr>) lease"
      by (rule deadline_ge)
        (use assms True in \<open>auto simp: deadline_candidates_def lastRenewed_store protected_def\<close>)
    then show ?thesis using ttl_after_mono [OF assms(2), of lease] by simp
  next
    case False
    then have "deadline (t\<lparr>tr_renewedAt := m\<rparr>) lease = deadline t lease"
      by (simp add: deadline_def lastRenewed_store [OF store])
    then show ?thesis using prot by (simp add: protected_def)
  qed
  then show ?thesis
    using prot mapStore_nonnil [OF store] by (simp add: protected_def isExpiring_def)
qed

lemma renew_protected:
  assumes "protected lease start t" and "start \<le> now" and "now < ttl_after start lease"
  shows "\<exists>e t'. renew t term now l = Ret (e, t') \<and> protected lease start t' \<and> (l = lease \<longrightarrow> e = None)"
proof -
  let ?t = "syncTerm t term now"
  have prot: "protected lease start ?t" by (rule protected_sync [OF assms(1,2)])
  then obtain m where store: "mapStore (tr_renewedAt ?t) (Lease_LeaseID l) now = Ret m"
    using mapStore_Ret by (metis protected_def)
  show ?thesis
    using prot protected_store [OF prot assms(2) store] store assms(3)
    by (auto simp: renew_def Let_def protected_def)
qed

lemma claim_protected:
  assumes "protected lease start t" and "start \<le> now" and "now < ttl_after start lease"
    and "\<forall>l \<in> set ls. Lease_LeaseID l = Lease_LeaseID lease \<longrightarrow> l = lease"
  shows "\<exists>ids t'. claimExpired t term now ls = Ret (ids, t') \<and> protected lease start t' \<and>
    Lease_LeaseID lease \<notin> set ids"
proof -
  let ?t = "syncTerm t term now"
  have prot: "protected lease start ?t" by (rule protected_sync [OF assms(1,2)])
  then obtain ids m where c: "claimLoop ?t now ls = Ret (ids, ?t\<lparr>tr_expiring := m\<rparr>)" "m \<noteq> None"
      "set ids = {i. \<not> isExpiring ?t i \<and> (\<exists>l \<in> set ls. Lease_LeaseID l = i \<and> deadline ?t l \<le> now)}"
      "\<forall>j. isExpiring (?t\<lparr>tr_expiring := m\<rparr>) j \<longleftrightarrow> isExpiring ?t j \<or> j \<in> set ids"
    using claimLoop_eq [of ?t now ls] by (auto simp: protected_def)
  have "\<not> deadline ?t lease \<le> now" using prot assms(3) by (simp add: protected_def)
  then have "Lease_LeaseID lease \<notin> set ids" using c(3) assms(4) by auto
  then show ?thesis using c prot by (auto simp: claimExpired_def protected_def)
qed

lemma finish_protected:
  "protected lease start t \<Longrightarrow> i \<noteq> Lease_LeaseID lease \<or> \<not> committed \<Longrightarrow>
     protected lease start (finishExpiry t i committed)"
  by (auto simp: protected_def finishExpiry_def isExpiring_def deadline_def lastRenewed_def Let_def
      simp del: not_None_eq)

lemma protected_step:
  assumes "protected lease start t" and "within_ttl lease start call"
  shows "\<exists>a t'. tracker_step t call = Ret (a, t') \<and> protected lease start t' \<and> lease_kept lease call a"
proof (cases call)
  case (CallRenew tm now l)
  then show ?thesis using renew_protected [OF assms(1), of now tm l] assms(2) by auto
next
  case (CallClaim tm now ls)
  then show ?thesis using claim_protected [OF assms(1), of now ls tm] assms(2) by auto
next
  case (CallAlive tm now l)
  then show ?thesis
    using protected_sync [OF assms(1), of now tm] assms(2) by (auto simp: alive_def Let_def protected_def)
next
  case (CallFinish i committed)
  then show ?thesis using finish_protected [OF assms(1)] assms(2) by simp
qed

interpretation renewal: promise tracker_step "protected lease start" "within_ttl lease start" "lease_kept lease"
  for lease start
proof
  fix t call a t'
  assume "protected lease start t" "within_ttl lease start call"
  note step = protected_step [OF this]
  show "tracker_step t call \<noteq> Panic" using step by auto
  assume "tracker_step t call = Ret (a, t')"
  then show "protected lease start t'" "lease_kept lease call a" using step by auto
qed

section \<open>The promise of a claim\<close>

definition claimed :: "uint64 \<Rightarrow> uint64 \<Rightarrow> leaseTracker \<Rightarrow> bool" where
  "claimed term i t \<longleftrightarrow> tr_term t = term \<and> tr_renewedAt t \<noteq> None \<and> tr_expiring t \<noteq> None \<and> isExpiring t i"

text \<open>Calls of the same term, up to the end of the expiry attempt.\<close>

fun same_term :: "uint64 \<Rightarrow> uint64 \<Rightarrow> tracker_call \<Rightarrow> bool" where
  "same_term term i (CallRenew term' now l) = (term' = term)"
| "same_term term i (CallClaim term' now ls) = (term' = term)"
| "same_term term i (CallAlive term' now l) = (term' = term)"
| "same_term term i (CallFinish j committed) = (j \<noteq> i)"

fun lease_refused :: "uint64 \<Rightarrow> tracker_call \<Rightarrow> tracker_answer \<Rightarrow> bool" where
  "lease_refused i (CallRenew term now l) a =
     (Lease_LeaseID l = i \<longrightarrow> a = Renewed (Some (Sentinel ErrLeaseExpired)))"
| "lease_refused i (CallClaim term now ls) a = (\<exists>ids. a = Claimed ids \<and> i \<notin> set ids)"
| "lease_refused i (CallAlive term now l) a = (Lease_LeaseID l = i \<longrightarrow> a = IsAlive False)"
| "lease_refused i (CallFinish j committed) a = (a = Finished)"

lemma claimed_step:
  assumes "claimed term i t" and "same_term term i call"
  shows "\<exists>a t'. tracker_step t call = Ret (a, t') \<and> claimed term i t' \<and> lease_refused i call a"
proof (cases call)
  case (CallRenew tm now l)
  with assms have "syncTerm t tm now = t" by (auto simp: claimed_def)
  moreover obtain m where "mapStore (tr_renewedAt t) (Lease_LeaseID l) now = Ret m"
    using mapStore_Ret assms(1) by (metis claimed_def)
  ultimately show ?thesis
    using CallRenew assms(1) mapStore_nonnil [of "tr_renewedAt t"]
    by (auto simp: renew_def claimed_def isExpiring_def Let_def)
next
  case (CallClaim tm now ls)
  with assms have "syncTerm t tm now = t" by (auto simp: claimed_def)
  then show ?thesis
    using CallClaim claimLoop_eq [of t now ls] assms(1) by (auto simp: claimExpired_def claimed_def)
next
  case (CallAlive tm now l)
  with assms have "syncTerm t tm now = t" by (auto simp: claimed_def)
  then show ?thesis using CallAlive assms(1) by (auto simp: alive_def claimed_def Let_def)
next
  case (CallFinish j committed)
  then show ?thesis
    using assms by (auto simp: finishExpiry_def claimed_def isExpiring_def Let_def simp del: not_None_eq)
qed

interpretation claim: promise tracker_step "claimed tm i" "same_term tm i" "lease_refused i"
  for tm i
proof
  fix t call a t'
  assume "claimed tm i t" "same_term tm i call"
  note step = claimed_step [OF this]
  show "tracker_step t call \<noteq> Panic" using step by auto
  assume "tracker_step t call = Ret (a, t')"
  then show "claimed tm i t'" "lease_refused i call a" using step by auto
qed

section \<open>Histories of a tracker\<close>

definition tracker_wf :: "leaseTracker \<Rightarrow> bool" where
  "tracker_wf t \<longleftrightarrow> (tr_renewedAt t = None \<longleftrightarrow> tr_expiring t = None) \<and> (tr_term t \<noteq> 0 \<longrightarrow> tr_expiring t \<noteq> None)"

lemma tracker_wf_sync: "tracker_wf t \<Longrightarrow> tracker_wf (syncTerm t tm now)"
  by (simp add: tracker_wf_def syncTerm_def)

lemma claimLoop_keeps:
  "claimLoop t now ls = Ret (ids, t') \<Longrightarrow>
     tr_term t' = tr_term t \<and> tr_renewedAt t' = tr_renewedAt t \<and> (tr_expiring t' = None \<longleftrightarrow> tr_expiring t = None)"
proof (induction ls arbitrary: t ids)
  case (Cons l ls)
  show ?case
    using Cons.prems Cons.IH [of t ids] Cons.IH [of "t\<lparr>tr_expiring := m\<rparr>" for m]
    by (fastforce simp: mapStore_def split: if_splits go.splits prod.splits option.splits)
qed simp

lemma claimLoop_nil: "claimLoop t now ls = Ret (ids, t') \<Longrightarrow> tr_expiring t = None \<Longrightarrow> ids = []"
  by (induction ls arbitrary: ids) (auto simp: mapStore_def split: if_splits)

lemma tracker_wf_step:
  assumes "tracker_wf t" and "tracker_step t call = Ret (a, t')"
  shows "tracker_wf t'"
proof (cases call)
  case (CallRenew tm now l)
  then show ?thesis
    using assms tracker_wf_sync [OF assms(1), of tm now]
    by (auto simp: renew_def mapStore_def tracker_wf_def Let_def split: go.splits if_splits option.splits)
next
  case (CallClaim tm now ls)
  then show ?thesis
    using assms tracker_wf_sync [OF assms(1), of tm now] claimLoop_keeps [of "syncTerm t tm now" now ls]
    by (auto simp: claimExpired_def tracker_wf_def simp del: not_None_eq split: go.splits)
next
  case (CallAlive tm now l)
  then show ?thesis
    using assms tracker_wf_sync [OF assms(1), of tm now] by (auto simp: alive_def Let_def)
next
  case (CallFinish i committed)
  then show ?thesis
    using assms by (cases committed) (auto simp: finishExpiry_def tracker_wf_def mapRemove_def)
qed

lemma tracker_wf_run:
  "run_calls tracker_step t calls = Ret (as, t') \<Longrightarrow> tracker_wf t \<Longrightarrow> tracker_wf t'"
  by (induction calls arbitrary: t as) (auto dest: tracker_wf_step split: go.splits prod.splits)

lemma tracker_wf_zero: "tracker_wf zeroTracker"
  by (simp add: tracker_wf_def zeroTracker_def)

lemma history_wf: "run_calls tracker_step zeroTracker calls = Ret (as, t) \<Longrightarrow> tracker_wf t"
  by (rule tracker_wf_run [OF _ tracker_wf_zero])

lemma renew_success_protected:
  assumes "tracker_wf t" and "zero_time < now" and "renew t tm now lease = Ret (None, t')"
  shows "protected lease now t'"
proof -
  let ?t = "syncTerm t tm now"
  obtain m where m: "mapStore (tr_renewedAt ?t) (Lease_LeaseID lease) now = Ret m" "t' = ?t\<lparr>tr_renewedAt := m\<rparr>"
      and live: "\<not> isExpiring ?t (Lease_LeaseID lease)"
    using assms(3) by (auto simp: renew_def Let_def split: go.splits if_splits)
  have "tr_expiring ?t \<noteq> None"
    using tracker_wf_sync [OF assms(1), of tm now] m(1)
    by (auto simp: tracker_wf_def mapStore_def split: option.splits)
  moreover have "ttl_after now lease \<le> deadline t' lease"
    by (rule deadline_ge)
      (use assms(2) m in \<open>simp add: deadline_candidates_def lastRenewed_store [OF m(1)]\<close>)
  ultimately show ?thesis
    using assms(2) m live mapStore_nonnil [OF m(1)] by (simp add: protected_def isExpiring_def)
qed

section \<open>Properties\<close>

text \<open>
  A renewal is honoured. After any history, once the tracker has renewed a lease at some
  instant, then for one TTL from that instant, however calls interleave and whatever terms
  they carry, no claim names the lease, every check finds it alive, every further
  renewal succeeds, and no call panics.
\<close>
theorem renewal_honoured:
  assumes "run_calls tracker_step zeroTracker before = Ret (as, t)"
    and "zero_time < now" and "renew t tm now lease = Ret (None, t')"
    and "list_all (within_ttl lease now) calls"
  shows "\<exists>bs t''. run_calls tracker_step t' calls = Ret (bs, t'') \<and> list_all2 (lease_kept lease) calls bs"
  using renewal.run [OF renew_success_protected [OF history_wf [OF assms(1)] assms(2,3)] assms(4)] by blast

definition demo_lease :: Lease where
  "demo_lease = \<lparr>Lease_LeaseID = 1, Lease_OwnerID = ''a'', Lease_ExpiresAtUnixNano = 100, Lease_TTL = 50\<rparr>"

lemmas tracker_eval =
  renew_def claimExpired_def alive_def finishExpiry_def syncTerm_def deadline_def isExpiring_def
  lastRenewed_def mapIndex_def mapStore_def mapRemove_def zeroTracker_def is_zero_def zero_time_def
  time_add_def ExpiresAt_def time_unix_def ttl_after_def demo_lease_def

lemma renewal_honoured_witness:
  "\<exists>t' bs t''. renew zeroTracker 1 90 demo_lease = Ret (None, t') \<and>
     run_calls tracker_step t' [CallClaim 1 139 [demo_lease], CallAlive 2 139 demo_lease] = Ret (bs, t'') \<and>
     list_all2 (lease_kept demo_lease) [CallClaim 1 139 [demo_lease], CallAlive 2 139 demo_lease] bs"
proof -
  have "run_calls tracker_step zeroTracker [] = Ret ([], zeroTracker)" by simp
  moreover obtain t' where r: "renew zeroTracker 1 90 demo_lease = Ret (None, t')"
    by (simp add: tracker_eval)
  ultimately show ?thesis
    using renewal_honoured [of "[]" "[]" zeroTracker 90 1 demo_lease t'
        "[CallClaim 1 139 [demo_lease], CallAlive 2 139 demo_lease]"]
    by (auto simp: tracker_eval)
qed

text \<open>
  C18: The failover rule. Whatever the tracker held before, from the first call of a term it
  has not seen, every lease is treated as renewed at that call: for one TTL no claim names
  it, and checks and renewals succeed.
\<close>
theorem failover_grace:
  assumes "tm \<noteq> tr_term t" and "zero_time < now"
    and "call \<in> {CallRenew tm now l, CallClaim tm now ls, CallAlive tm now l}"
    and "list_all (within_ttl lease now) (call # calls)"
  shows "\<exists>bs t'. run_calls tracker_step t (call # calls) = Ret (bs, t') \<and>
    list_all2 (lease_kept lease) (call # calls) bs"
proof -
  have "tracker_step t call = tracker_step (syncTerm t tm now) call"
    using assms(3) by (auto simp: renew_def claimExpired_def alive_def syncTerm_def)
  then have "run_calls tracker_step t (call # calls) = run_calls tracker_step (syncTerm t tm now) (call # calls)"
    by simp
  then show ?thesis
    using renewal.run [OF protected_new_term [OF assms(1,2)] assms(4)] by metis
qed

theorem failover_grace_witness:
  "\<exists>bs t'. run_calls tracker_step zeroTracker [CallClaim 3 1000 [demo_lease], CallAlive 3 1049 demo_lease] = Ret (bs, t') \<and>
     list_all2 (lease_kept demo_lease) [CallClaim 3 1000 [demo_lease], CallAlive 3 1049 demo_lease] bs"
  by (rule failover_grace [of 3 _ 1000 _ demo_lease "[demo_lease]"]) (simp_all add: tracker_eval)

text \<open>
  C17: A claim is final. Once a lease has been claimed for expiry, then for the rest of the
  expiry attempt in that term every renewal of it is refused with \<open>ErrLeaseExpired\<close>, every
  check finds it dead, and it is not claimed a second time, however calls interleave.
\<close>
theorem claim_excludes_renewal:
  assumes "run_calls tracker_step zeroTracker before = Ret (as, t)"
    and "claimExpired t tm now ls = Ret (ids, t')" and "i \<in> set ids"
    and "list_all (same_term tm i) calls"
  shows "\<exists>bs t''. run_calls tracker_step t' calls = Ret (bs, t'') \<and> list_all2 (lease_refused i) calls bs"
proof -
  let ?t = "syncTerm t tm now"
  have wf: "tracker_wf ?t" using tracker_wf_sync [OF history_wf [OF assms(1)]] .
  have "tr_expiring ?t \<noteq> None"
    using claimLoop_nil [of ?t now ls ids t'] assms(2,3) unfolding claimExpired_def by force
  then have "claimed tm i t'"
    using claimLoop_eq [of ?t now ls] assms(2,3) wf
    by (auto simp: claimExpired_def claimed_def tracker_wf_def)
  from claim.run [OF this assms(4)] show ?thesis by blast
qed

theorem claim_excludes_renewal_witness:
  "\<exists>t t' bs t''. run_calls tracker_step zeroTracker [CallAlive 1 10 demo_lease] = Ret ([IsAlive True], t) \<and>
     claimExpired t 1 100 [demo_lease] = Ret ([1], t') \<and>
     run_calls tracker_step t' [CallRenew 1 101 demo_lease] = Ret (bs, t'') \<and>
     list_all2 (lease_refused 1) [CallRenew 1 101 demo_lease] bs"
proof -
  obtain t where t: "run_calls tracker_step zeroTracker [CallAlive 1 10 demo_lease] = Ret ([IsAlive True], t)"
      "t = \<lparr>tr_term = 1, tr_leaderSince = 10, tr_renewedAt = Some [], tr_expiring = Some []\<rparr>"
    by (simp add: tracker_eval)
  obtain t' where c: "claimExpired t 1 100 [demo_lease] = Ret ([1], t')"
    by (simp add: tracker_eval t(2))
  show ?thesis
    using claim_excludes_renewal [OF t(1) c, of 1 "[CallRenew 1 101 demo_lease]"] t(1) c by auto
qed

text \<open>
  A claim is exact. In a term other than zero the leases claimed are exactly those not
  already claimed whose latest candidate deadline has passed: the replicated one, one TTL
  after the start of the term, one TTL after the last renewal.
\<close>
theorem claim_exact:
  assumes "run_calls tracker_step zeroTracker before = Ret (as, t)" and "tm \<noteq> 0"
  shows "\<exists>ids t'. claimExpired t tm now ls = Ret (ids, t') \<and> distinct ids \<and>
    set ids = {Lease_LeaseID l | l. l \<in> set ls \<and> \<not> isExpiring (syncTerm t tm now) (Lease_LeaseID l) \<and>
      Max (deadline_candidates (syncTerm t tm now) l) \<le> now}"
proof -
  have "tr_expiring (syncTerm t tm now) \<noteq> None"
    using tracker_wf_sync [OF history_wf [OF assms(1)], of tm now] assms(2) by (simp add: tracker_wf_def)
  from claimLoop_eq [OF this, of now ls] show ?thesis
    unfolding claimExpired_def deadline_Max [symmetric] by auto
qed

lemma claim_exact_witness:
  "\<exists>ids t'. claimExpired zeroTracker 1 200 [demo_lease] = Ret (ids, t') \<and> distinct ids"
  using claim_exact [of "[]" "[]" zeroTracker 1 200 "[demo_lease]"] by auto

text \<open>
  The exclusion of renewals by a claim does not extend to a call that carries an older
  term: the tracker takes any other term for a new one, drops its claims, and accepts the
  renewal of a lease whose expiry is under way.
\<close>
theorem stale_term_reopens_claim:
  "\<exists>t. run_calls tracker_step zeroTracker
     [CallAlive 2 10 demo_lease, CallClaim 2 100 [demo_lease], CallRenew 2 101 demo_lease,
      CallRenew 1 102 demo_lease] =
     Ret ([IsAlive True, Claimed [1], Renewed (Some (Sentinel ErrLeaseExpired)), Renewed None], t)"
  by (simp add: tracker_eval)

end
