(* ===== verification/Lock_Queues.thy ===== *)
theory Lock_Queues
  imports Clavis_Prelude "HOL-Library.Sublist"
begin

text \<open>
  \<open>internal/cluster/lockqueue.go\<close>: the queues of callers waiting for a lock, in the memory of
  the leader. Every operation is one critical section under the mutex of \<open>lockQueues\<close>. A
  waiter is a pointer, here an identity with its immutable lock name; its \<open>ready\<close> channel
  has room for one signal, here membership in the set of signalled waiters.
\<close>

section \<open>State\<close>

record LockWaiter =
  W_id :: nat
  W_lockName :: string

record lockQueues =
  q_queues :: "(string, LockWaiter list) gomap"
  q_signalled :: "nat set"
  q_alloc :: nat

definition newLockQueues :: lockQueues where
  "newLockQueues = \<lparr>q_queues = [], q_signalled = {}, q_alloc = 0\<rparr>"

text \<open>\<open>q.queues[lockName]\<close>: the empty slice for an absent key.\<close>

definition queueOf :: "lockQueues \<Rightarrow> string \<Rightarrow> LockWaiter list" where
  "queueOf q lockName = (case mget (q_queues q) lockName of None \<Rightarrow> [] | Some ws \<Rightarrow> ws)"

section \<open>Operations\<close>

definition wake :: "lockQueues \<Rightarrow> LockWaiter \<Rightarrow> lockQueues" where
  "wake q w = q\<lparr>q_signalled := insert (W_id w) (q_signalled q)\<rparr>"

definition JoinLockQueue :: "lockQueues \<Rightarrow> string \<Rightarrow> LockWaiter \<times> lockQueues" where
  "JoinLockQueue q lockName =
     (let w = \<lparr>W_id = q_alloc q, W_lockName = lockName\<rparr>
      in (w, q\<lparr>q_alloc := Suc (q_alloc q),
               q_queues := mput lockName (queueOf q lockName @ [w]) (q_queues q)\<rparr>))"

definition LockHasWaiters :: "lockQueues \<Rightarrow> string \<Rightarrow> bool" where
  "LockHasWaiters q lockName \<longleftrightarrow> length (queueOf q lockName) > 0"

text \<open>A receive on the \<open>ready\<close> channel: possible when a signal is there, and takes it.\<close>

definition receiveReady :: "lockQueues \<Rightarrow> LockWaiter \<Rightarrow> lockQueues option" where
  "receiveReady q w =
     (if W_id w \<in> q_signalled q then Some (q\<lparr>q_signalled := q_signalled q - {W_id w}\<rparr>) else None)"

definition IsHead :: "lockQueues \<Rightarrow> LockWaiter \<Rightarrow> bool" where
  "IsHead q w =
     (let queue = queueOf q (W_lockName w) in length queue > 0 \<and> queue ! 0 = w)"

text \<open>\<open>slices.Index\<close>, with \<open>None\<close> for -1, and \<open>slices.Delete(queue, i, i+1)\<close>.\<close>

fun slicesIndex :: "'a list \<Rightarrow> 'a \<Rightarrow> nat option" where
  "slicesIndex [] x = None"
| "slicesIndex (y # ys) x = (if y = x then Some 0 else map_option Suc (slicesIndex ys x))"

definition slicesDelete :: "'a list \<Rightarrow> nat \<Rightarrow> 'a list" where
  "slicesDelete xs i = take i xs @ drop (Suc i) xs"

definition Leave :: "lockQueues \<Rightarrow> LockWaiter \<Rightarrow> lockQueues" where
  "Leave q w =
     (case slicesIndex (queueOf q (W_lockName w)) w of
        None \<Rightarrow> q
      | Some i \<Rightarrow>
          (let queue = slicesDelete (queueOf q (W_lockName w)) i in
           if length queue = 0 then q\<lparr>q_queues := mdel (W_lockName w) (q_queues q)\<rparr>
           else
             (let q' = q\<lparr>q_queues := mput (W_lockName w) queue (q_queues q)\<rparr>
              in if i = 0 then wake q' (queue ! 0) else q')))"

definition wakeHead :: "string \<Rightarrow> lockQueues \<Rightarrow> lockQueues" where
  "wakeHead lockName q =
     (let queue = queueOf q lockName in if length queue > 0 then wake q (queue ! 0) else q)"

section \<open>The interface of a wait queue\<close>

lemma subseq_remove1: "subseq xs ys \<Longrightarrow> c \<notin> set xs \<Longrightarrow> subseq xs (remove1 c ys)"
  by (induction xs ys rule: list_emb.induct) auto

lemma subseq_append_right: "subseq xs ys \<Longrightarrow> subseq xs (ys @ zs)"
  by (metis list_emb_append2 subseq_order.refl subseq_order.trans sublist_imp_subseq sublist_append_rightI)

text \<open>
  What the service relies on: arrival order per lock, and that the waiter at the front is
  signalled when the lock is freed and when it moves to the front.
\<close>

locale wait_queue =
  fixes waiting :: "'q \<Rightarrow> 'n \<Rightarrow> 'w list"
    and signalled :: "'q \<Rightarrow> 'w \<Rightarrow> bool"
    and lock_of :: "'w \<Rightarrow> 'n"
    and join :: "'q \<Rightarrow> 'n \<Rightarrow> 'w \<times> 'q"
    and leave :: "'q \<Rightarrow> 'w \<Rightarrow> 'q"
    and freed :: "'n \<Rightarrow> 'q \<Rightarrow> 'q"
    and receive :: "'q \<Rightarrow> 'w \<Rightarrow> 'q option"
    and invar :: "'q \<Rightarrow> bool"
  assumes invar_distinct: "invar q \<Longrightarrow> distinct (waiting q n)"
    and invar_lock_of: "invar q \<Longrightarrow> w \<in> set (waiting q n) \<Longrightarrow> lock_of w = n"
    and join_invar: "invar q \<Longrightarrow> join q n = (w, q') \<Longrightarrow> invar q'"
    and join_waiting: "invar q \<Longrightarrow> join q n = (w, q') \<Longrightarrow>
      lock_of w = n \<and> w \<notin> set (waiting q n) \<and> waiting q' = (waiting q)(n := waiting q n @ [w])"
    and join_signalled: "invar q \<Longrightarrow> join q n = (w, q') \<Longrightarrow> signalled q' v = signalled q v"
    and leave_invar: "invar q \<Longrightarrow> invar (leave q w)"
    and leave_waiting: "invar q \<Longrightarrow>
      waiting (leave q w) = (waiting q)(lock_of w := remove1 w (waiting q (lock_of w)))"
    and leave_keeps_signals: "invar q \<Longrightarrow> signalled q v \<Longrightarrow> signalled (leave q w) v"
    and leave_signals: "invar q \<Longrightarrow> waiting q (lock_of w) = w # v # vs \<Longrightarrow> signalled (leave q w) v"
    and freed_invar: "invar q \<Longrightarrow> invar (freed n q)"
    and freed_waiting: "invar q \<Longrightarrow> waiting (freed n q) = waiting q"
    and freed_keeps_signals: "invar q \<Longrightarrow> signalled q v \<Longrightarrow> signalled (freed n q) v"
    and freed_signals: "invar q \<Longrightarrow> waiting q n = v # vs \<Longrightarrow> signalled (freed n q) v"
    and receive_invar: "invar q \<Longrightarrow> receive q w = Some q' \<Longrightarrow> invar q'"
    and receive_waiting: "invar q \<Longrightarrow> receive q w = Some q' \<Longrightarrow> waiting q' = waiting q"
    and receive_keeps_signals: "invar q \<Longrightarrow> receive q w = Some q' \<Longrightarrow> w \<in> set (waiting q n) \<Longrightarrow>
      v \<in> set (waiting q m) \<Longrightarrow> v \<noteq> w \<Longrightarrow> signalled q v \<Longrightarrow> signalled q' v"
    and receive_enabled: "receive q w \<noteq> None \<longleftrightarrow> signalled q w"
begin

lemma leave_head:
  assumes "invar q" and "waiting (leave q w) n = v # vs"
  shows "(\<exists>us. waiting q n = v # us) \<or> signalled (leave q w) v"
proof (cases "n = lock_of w")
  case False
  then show ?thesis using assms leave_waiting [OF assms(1), of w] by simp
next
  case True
  then have rem: "remove1 w (waiting q n) = v # vs" using assms leave_waiting [OF assms(1), of w] by simp
  then obtain u us where u: "waiting q n = u # us" by (cases "waiting q n") auto
  show ?thesis
    using leave_signals [OF assms(1), of w v vs] u rem True by (cases "u = w") auto
qed

lemma order_join:
  "invar q \<Longrightarrow> join q n = (w, q') \<Longrightarrow> subseq us (waiting q m) \<Longrightarrow> subseq us (waiting q' m)"
  by (auto simp: join_waiting subseq_append_right)

lemma order_leave:
  "invar q \<Longrightarrow> subseq us (waiting q m) \<Longrightarrow> w \<notin> set us \<Longrightarrow> subseq us (waiting (leave q w) m)"
  by (auto simp: leave_waiting subseq_remove1)

end

section \<open>Invariant\<close>

definition queue_inv :: "lockQueues \<Rightarrow> bool" where
  "queue_inv q \<longleftrightarrow> map_ok (q_queues q) \<and>
     (\<forall>n. mget (q_queues q) n \<noteq> Some []) \<and>
     (\<forall>n. distinct (queueOf q n)) \<and>
     (\<forall>n. \<forall>w \<in> set (queueOf q n). W_lockName w = n \<and> W_id w < q_alloc q) \<and>
     (\<forall>n m. \<forall>w \<in> set (queueOf q n). \<forall>v \<in> set (queueOf q m). W_id w = W_id v \<longrightarrow> w = v)"

lemma queueOf_simps [simp]:
  "map_ok (q_queues q) \<Longrightarrow>
     queueOf (q\<lparr>q_queues := mput n ws (q_queues q)\<rparr>) m = (if m = n then ws else queueOf q m)"
  "map_ok (q_queues q) \<Longrightarrow>
     queueOf (q\<lparr>q_queues := mdel n (q_queues q)\<rparr>) m = (if m = n then [] else queueOf q m)"
  "queueOf (q\<lparr>q_signalled := s\<rparr>) m = queueOf q m"
  "queueOf (q\<lparr>q_alloc := k\<rparr>) m = queueOf q m"
  by (simp_all add: queueOf_def)

lemma queueOf_alloc [simp]: "queueOf (q\<lparr>q_alloc := k, q_queues := es\<rparr>) m = queueOf (q\<lparr>q_queues := es\<rparr>) m"
  by (simp add: queueOf_def)

lemma queueOf_wake [simp]: "queueOf (wake q w) m = queueOf q m"
  by (simp add: wake_def)

lemma slicesIndex_None: "slicesIndex xs x = None \<longleftrightarrow> x \<notin> set xs"
  by (induction xs) auto

lemma slicesIndex_0: "slicesIndex xs x = Some 0 \<longleftrightarrow> (\<exists>ys. xs = x # ys)"
  by (cases xs) auto

lemma slicesDelete_Index: "slicesIndex xs x = Some i \<Longrightarrow> slicesDelete xs i = remove1 x xs"
  by (induction xs arbitrary: i) (auto simp: slicesDelete_def split: if_splits)

lemma queue_inv_map_ok: "queue_inv q \<Longrightarrow> map_ok (q_queues q)"
  by (simp add: queue_inv_def)

lemma queue_inv_waiterD:
  "queue_inv q \<Longrightarrow> w \<in> set (queueOf q n) \<Longrightarrow> W_lockName w = n"
  "queue_inv q \<Longrightarrow> w \<in> set (queueOf q n) \<Longrightarrow> W_id w < q_alloc q"
  by (simp_all add: queue_inv_def)

lemma queue_inv_idD:
  "queue_inv q \<Longrightarrow> w \<in> set (queueOf q n) \<Longrightarrow> v \<in> set (queueOf q m) \<Longrightarrow> W_id w = W_id v \<Longrightarrow> w = v"
  unfolding queue_inv_def by blast

lemma queue_invI:
  assumes "map_ok (q_queues q)" and "\<And>n. mget (q_queues q) n \<noteq> Some []"
    and "\<And>n. distinct (queueOf q n)"
    and "\<And>n w. w \<in> set (queueOf q n) \<Longrightarrow> W_lockName w = n \<and> W_id w < q_alloc q"
    and "\<And>n m w v. w \<in> set (queueOf q n) \<Longrightarrow> v \<in> set (queueOf q m) \<Longrightarrow> W_id w = W_id v \<Longrightarrow> w = v"
  shows "queue_inv q"
  unfolding queue_inv_def using assms by blast

lemma queueOf_Leave:
  assumes "queue_inv q"
  shows "queueOf (Leave q w) = (queueOf q)(W_lockName w := remove1 w (queueOf q (W_lockName w)))"
proof (cases "slicesIndex (queueOf q (W_lockName w)) w")
  case None
  then have "Leave q w = q" "w \<notin> set (queueOf q (W_lockName w))"
    by (simp add: Leave_def, simp add: slicesIndex_None)
  then show ?thesis by (simp add: remove1_idem)
next
  case (Some i)
  then show ?thesis
    using queue_inv_map_ok [OF assms] slicesDelete_Index [OF Some]
    by (auto simp: Leave_def Let_def fun_eq_iff)
qed

lemma Leave_fields:
  "q_alloc (Leave q w) = q_alloc q" "map_ok (q_queues q) \<Longrightarrow> map_ok (q_queues (Leave q w))"
  "q_signalled q \<subseteq> q_signalled (Leave q w)"
  by (auto simp: Leave_def wake_def Let_def split: option.splits)

lemma Leave_no_empty:
  assumes "queue_inv q"
  shows "mget (q_queues (Leave q w)) n \<noteq> Some []"
  using assms queue_inv_map_ok [OF assms]
  by (auto simp: Leave_def wake_def Let_def queue_inv_def split: option.splits)

lemma queue_inv_Leave [inv_intros]:
  assumes inv: "queue_inv q"
  shows "queue_inv (Leave q w)"
proof -
  have sub: "v \<in> set (queueOf q n)" if "v \<in> set (queueOf (Leave q w) n)" for v n
    using that set_remove1_subset [of w "queueOf q (W_lockName w)"]
    by (auto simp: queueOf_Leave [OF inv] split: if_splits)
  show ?thesis
  proof (rule queue_invI)
    show "map_ok (q_queues (Leave q w))" by (rule Leave_fields(2) [OF queue_inv_map_ok [OF inv]])
    show "mget (q_queues (Leave q w)) n \<noteq> Some []" for n by (rule Leave_no_empty [OF inv])
    show "distinct (queueOf (Leave q w) n)" for n
      using inv by (simp add: queueOf_Leave [OF inv] queue_inv_def)
    show "W_lockName v = n \<and> W_id v < q_alloc (Leave q w)" if "v \<in> set (queueOf (Leave q w) n)" for n v
      using queue_inv_waiterD [OF inv sub [OF that]] by (simp add: Leave_fields)
    show "u = v" if "u \<in> set (queueOf (Leave q w) n)" "v \<in> set (queueOf (Leave q w) m)" "W_id u = W_id v"
      for n m u v by (rule queue_inv_idD [OF inv sub [OF that(1)] sub [OF that(2)] that(3)])
  qed
qed

lemma queue_inv_signalled [simp]: "queue_inv (q\<lparr>q_signalled := s\<rparr>) = queue_inv q"
  by (simp add: queue_inv_def)

lemma queue_inv_Join:
  assumes inv: "queue_inv q" and join: "JoinLockQueue q n = (w, q')"
  shows "queue_inv q'"
proof -
  have ok: "map_ok (q_queues q)" by (rule queue_inv_map_ok [OF inv])
  have w: "w = \<lparr>W_id = q_alloc q, W_lockName = n\<rparr>"
    and q': "q_alloc q' = Suc (q_alloc q)" "q_queues q' = mput n (queueOf q n @ [w]) (q_queues q)"
    using join by (auto simp: JoinLockQueue_def Let_def)
  have queue: "queueOf q' m = (if m = n then queueOf q n @ [w] else queueOf q m)" for m
    using ok by (simp add: queueOf_def q'(2))
  have new: "W_id v < W_id w" if "v \<in> set (queueOf q m)" for v m
    using queue_inv_waiterD(2) [OF inv that] w by simp
  show ?thesis
  proof (rule queue_invI)
    show "map_ok (q_queues q')" using ok by (simp add: q')
    show "mget (q_queues q') m \<noteq> Some []" for m using inv ok by (simp add: q' queue_inv_def)
    show "distinct (queueOf q' m)" for m
      using inv new [of w n] by (auto simp: queue queue_inv_def)
    show "W_lockName v = m \<and> W_id v < q_alloc q'" if "v \<in> set (queueOf q' m)" for m v
      using that queue_inv_waiterD [OF inv, of v m] w
      by (auto simp: queue q' less_Suc_eq split: if_splits)
    show "u = v" if "u \<in> set (queueOf q' m)" "v \<in> set (queueOf q' k)" "W_id u = W_id v" for m k u v
      using that new [of u m] new [of v k] queue_inv_idD [OF inv, of u m v k]
      by (auto simp: queue split: if_splits)
  qed
qed

interpretation lq: wait_queue queueOf "\<lambda>q w. W_id w \<in> q_signalled q" W_lockName JoinLockQueue Leave
    wakeHead receiveReady queue_inv
proof
  fix q :: lockQueues and n m :: string and w v :: LockWaiter and q' vs
  assume inv: "queue_inv q"
  note ok = queue_inv_map_ok [OF inv]
  show "distinct (queueOf q n)" using inv by (simp add: queue_inv_def)
  show "queue_inv (Leave q w)" by (rule queue_inv_Leave [OF inv])
  show "queueOf (Leave q w) = (queueOf q)(W_lockName w := remove1 w (queueOf q (W_lockName w)))"
    by (rule queueOf_Leave [OF inv])
  show "W_id v \<in> q_signalled q \<Longrightarrow> W_id v \<in> q_signalled (Leave q w)"
    using Leave_fields(3) [of q w] by auto
  show "queueOf q (W_lockName w) = w # v # vs \<Longrightarrow> W_id v \<in> q_signalled (Leave q w)"
    by (simp add: Leave_def slicesDelete_def wake_def Let_def)
  show "queue_inv (wakeHead n q)" "queueOf (wakeHead n q) = queueOf q"
      "W_id v \<in> q_signalled q \<Longrightarrow> W_id v \<in> q_signalled (wakeHead n q)"
      "queueOf q n = v # vs \<Longrightarrow> W_id v \<in> q_signalled (wakeHead n q)"
    using inv by (auto simp: wakeHead_def wake_def Let_def fun_eq_iff)
  show "queue_inv q'" "queueOf q' = queueOf q" if "receiveReady q w = Some q'"
    using that inv by (auto simp: receiveReady_def fun_eq_iff split: if_splits)
  show "W_id v \<in> q_signalled q'" if "receiveReady q w = Some q'" "w \<in> set (queueOf q n)"
      "v \<in> set (queueOf q m)" "v \<noteq> w" "W_id v \<in> q_signalled q"
    using that queue_inv_idD [OF inv that(3,2)] by (auto simp: receiveReady_def split: if_splits)
  show "W_lockName w = n" if "w \<in> set (queueOf q n)" by (rule queue_inv_waiterD(1) [OF inv that])
  assume join: "JoinLockQueue q n = (w, q')"
  show "queue_inv q'" by (rule queue_inv_Join [OF inv join])
  show "W_lockName w = n \<and> w \<notin> set (queueOf q n) \<and> queueOf q' = (queueOf q)(n := queueOf q n @ [w])"
    using join ok queue_inv_waiterD(2) [OF inv, of w n] by (auto simp: JoinLockQueue_def Let_def fun_eq_iff)
  show "(W_id v \<in> q_signalled q') = (W_id v \<in> q_signalled q)"
    using join by (auto simp: JoinLockQueue_def Let_def)
qed (simp_all add: receiveReady_def)

section \<open>Arrival order\<close>

datatype queue_call =
    QJoin string
  | QLeave LockWaiter
  | QFreed string
  | QReceive LockWaiter
  | QIsHead LockWaiter
  | QHasWaiters string

datatype queue_answer = QWaiter LockWaiter | QBool bool | QDone

text \<open>A receive that would block is answered with \<open>False\<close>.\<close>

fun queue_step :: "lockQueues \<Rightarrow> queue_call \<Rightarrow> (queue_answer \<times> lockQueues) go" where
  "queue_step q (QJoin n) = (case JoinLockQueue q n of (w, q') \<Rightarrow> Ret (QWaiter w, q'))"
| "queue_step q (QLeave w) = Ret (QDone, Leave q w)"
| "queue_step q (QFreed n) = Ret (QDone, wakeHead n q)"
| "queue_step q (QReceive w) =
     (case receiveReady q w of None \<Rightarrow> Ret (QBool False, q) | Some q' \<Rightarrow> Ret (QBool True, q'))"
| "queue_step q (QIsHead w) = Ret (QBool (IsHead q w), q)"
| "queue_step q (QHasWaiters n) = Ret (QBool (LockHasWaiters q n), q)"

lemma queue_inv_step:
  assumes inv: "queue_inv q" and step: "queue_step q call = Ret (a, q')"
  shows "queue_inv q'"
proof (cases call)
  case (QJoin n)
  then show ?thesis using step lq.join_invar [OF inv, of n] by (auto split: prod.splits)
next
  case (QReceive w)
  then show ?thesis using step inv lq.receive_invar [OF inv, of w] by (auto split: option.splits)
qed (use step inv lq.leave_invar [OF inv] lq.freed_invar [OF inv] in auto)

lemma queue_inv_run: "run_calls queue_step q calls = Ret (as, q') \<Longrightarrow> queue_inv q \<Longrightarrow> queue_inv q'"
  by (induction calls arbitrary: q as) (auto dest: queue_inv_step split: go.splits prod.splits)

lemma queue_inv_new: "queue_inv newLockQueues"
  by (simp add: queue_inv_def newLockQueues_def queueOf_def)

text \<open>The waiters \<open>us\<close> wait for the lock \<open>n\<close> in this order, with others possibly between.\<close>

definition in_order :: "string \<Rightarrow> LockWaiter list \<Rightarrow> lockQueues \<Rightarrow> bool" where
  "in_order n us q \<longleftrightarrow> queue_inv q \<and> subseq us (queueOf q n)"

definition none_leaves :: "LockWaiter list \<Rightarrow> queue_call \<Rightarrow> bool" where
  "none_leaves us call \<longleftrightarrow> (\<forall>w \<in> set us. call \<noteq> QLeave w)"

text \<open>
  None but the first of them is told that it is next, and callers that are not queued are
  told to queue.
\<close>

definition not_overtaken :: "string \<Rightarrow> LockWaiter list \<Rightarrow> queue_call \<Rightarrow> queue_answer \<Rightarrow> bool" where
  "not_overtaken n us call a \<longleftrightarrow> (\<forall>b \<in> set (tl us). call = QIsHead b \<longrightarrow> a = QBool False) \<and>
     (us \<noteq> [] \<and> call = QHasWaiters n \<longrightarrow> a = QBool True)"

lemma in_order_in_queue: "in_order n us q \<Longrightarrow> set us \<subseteq> set (queueOf q n)"
  by (auto simp: in_order_def dest: list_emb_set)

lemma in_order_not_head:
  assumes order: "in_order n us q" and b: "b \<in> set (tl us)"
  shows "\<not> IsHead q b"
proof -
  have inv: "queue_inv q" and sub: "subseq us (queueOf q n)" using order by (simp_all add: in_order_def)
  obtain u us' where us: "us = u # us'" using b by (cases us) auto
  have b': "b \<in> set us" using b us by simp
  have name: "W_lockName b = n" using lq.invar_lock_of [OF inv] in_order_in_queue [OF order] b' by blast
  obtain v vs where v: "queueOf q n = v # vs" using sub us by (cases "queueOf q n") auto
  have "subseq us' vs" using sub unfolding us v by (metis subseq_Cons' subseq_Cons2_iff)
  then have "b \<in> set vs" using b us by (auto dest: list_emb_set)
  then have "v \<noteq> b" using lq.invar_distinct [OF inv, of n] v by auto
  then show ?thesis by (simp add: IsHead_def Let_def name v)
qed

lemma in_order_step:
  assumes order: "in_order n us q" and call: "none_leaves us call" and step: "queue_step q call = Ret (x, q')"
  shows "in_order n us q'"
proof -
  have inv: "queue_inv q" and sub: "subseq us (queueOf q n)" using order by (simp_all add: in_order_def)
  have "subseq us (queueOf q' n)"
  proof (cases call)
    case (QJoin m)
    then show ?thesis using step lq.order_join [OF inv _ sub] by (auto split: prod.splits)
  next
    case (QLeave w)
    then have "w \<notin> set us" using call by (auto simp: none_leaves_def)
    then show ?thesis using step QLeave lq.order_leave [OF inv sub] by auto
  next
    case (QReceive w)
    then show ?thesis using step sub lq.receive_waiting [OF inv] by (auto split: option.splits)
  qed (use step sub lq.freed_waiting [OF inv] in auto)
  then show ?thesis using queue_inv_step [OF inv step] by (simp add: in_order_def)
qed

interpretation fifo: promise queue_step "in_order n us" "none_leaves us" "not_overtaken n us"
  for n us
proof
  fix q call x q'
  assume order: "in_order n us q" and call: "none_leaves us call"
  show "queue_step q call \<noteq> Panic" by (cases call) (auto split: prod.splits option.splits)
  assume step: "queue_step q call = Ret (x, q')"
  show "in_order n us q'" by (rule in_order_step [OF order call step])
  have "us \<noteq> [] \<Longrightarrow> LockHasWaiters q n"
    using in_order_in_queue [OF order] by (cases us) (auto simp: LockHasWaiters_def)
  then show "not_overtaken n us call x"
    using step in_order_not_head [OF order] by (auto simp: not_overtaken_def)
qed

text \<open>
  C29: Waiters are served in arrival order. If one waiter joined a lock's queue before
  another and neither leaves, then however joins, departures, wake-ups and receives of
  others interleave, the later waiter is never the head, and the lock is reported as
  contended to callers that are not queued.
\<close>
theorem arrival_order:
  assumes "run_calls queue_step newLockQueues before = Ret (as, q)"
    and "JoinLockQueue q n = (a, q1)"
    and "run_calls queue_step q1 between = Ret (bs, q2)" and "list_all (none_leaves [a]) between"
    and "JoinLockQueue q2 n = (b, q3)" and "list_all (none_leaves [a, b]) after"
  shows "\<exists>cs q4. run_calls queue_step q3 after = Ret (cs, q4) \<and> in_order n [a, b] q4 \<and>
    list_all2 (not_overtaken n [a, b]) after cs"
proof -
  have inv: "queue_inv q" using queue_inv_run [OF assms(1) queue_inv_new] .
  have "in_order n [a] q1"
    using lq.join_waiting [OF inv assms(2)] lq.join_invar [OF inv assms(2)]
    by (simp add: in_order_def subseq_singleton_left)
  from fifo.run [OF this assms(4)] have order: "in_order n [a] q2" using assms(3) by simp
  then have inv2: "queue_inv q2" and sub: "subseq [a] (queueOf q2 n)" by (simp_all add: in_order_def)
  have "subseq [a, b] (queueOf q3 n)"
    using lq.join_waiting [OF inv2 assms(5)] list_emb_append_mono [OF sub, of "[b]" "[b]"] by simp
  then have "in_order n [a, b] q3" using lq.join_invar [OF inv2 assms(5)] by (simp add: in_order_def)
  from fifo.run [OF this assms(6)] show ?thesis by blast
qed

theorem arrival_order_witness:
  "\<exists>a q1 b q3 cs q4. JoinLockQueue newLockQueues ''x'' = (a, q1) \<and> JoinLockQueue q1 ''x'' = (b, q3) \<and>
     run_calls queue_step q3 [QFreed ''x'', QIsHead b, QHasWaiters ''x''] = Ret (cs, q4) \<and>
     list_all2 (not_overtaken ''x'' [a, b]) [QFreed ''x'', QIsHead b, QHasWaiters ''x''] cs"
proof -
  obtain a q1 where j1: "JoinLockQueue newLockQueues ''x'' = (a, q1)" by fastforce
  obtain b q3 where j2: "JoinLockQueue q1 ''x'' = (b, q3)" by fastforce
  show ?thesis
    using arrival_order [of "[]" "[]" newLockQueues "''x''" a q1 "[]" "[]" q1 b q3
        "[QFreed ''x'', QIsHead b, QHasWaiters ''x'']"] j1 j2
    by (fastforce simp: none_leaves_def)
qed

end
