(* ===== verification/Cluster_Node.thy ===== *)
theory Cluster_Node
  imports Raft_FSM Lease_Tracker Lock_Queues
begin

text \<open>
  \<open>internal/cluster/node.go\<close>, \<open>member.go\<close> and the \<open>Node\<close> methods of \<open>lease.go\<close>: one node of the
  cluster. The Raft library is not part of the repository: what the code reads from it
  (state, term, leader, configuration) and how the futures it returns resolve are
  arguments of the operations. A successful \<open>Apply\<close> future means that this node has applied
  the entry to its state machine, which runs the freed-lock hook; a failed one leaves open
  whether the entry takes effect.
\<close>

section \<open>State\<close>

record Config =
  Cfg_NodeID :: string
  Cfg_BindAddr :: string
  Cfg_RaftAdvertiseAddr :: string
  Cfg_DataDir :: string
  Cfg_Bootstrap :: bool
  Cfg_GRPCAdvertiseAddr :: string

record Node =
  node_cfg :: Config
  node_fsm :: FSM
  node_leases :: leaseTracker
  node_lockQueues :: lockQueues
  node_barrierTerm :: uint64

datatype raft_state = Follower | Candidate | Leader | RaftShutdown

datatype suffrage = Voter | Nonvoter | Staging

record Server =
  Server_Suffrage :: suffrage
  Server_ID :: string
  Server_Address :: string

text \<open>What a node reads from its Raft instance in one call.\<close>

record raft_view =
  rv_state :: raft_state
  rv_term :: uint64
  rv_leaderAddr :: string
  rv_leaderID :: string
  rv_config :: "raft_error + Server list"

text \<open>The protobuf library: encoding and decoding of a command, or the message of an error.\<close>

record 'd codec =
  cd_marshal :: "CommandWrapper \<Rightarrow> string + 'd"
  cd_unmarshal :: "'d \<Rightarrow> string + CommandWrapper"

definition codec_ok :: "'d codec \<Rightarrow> bool" where
  "codec_ok c \<longleftrightarrow> (\<forall>cmd d. cd_marshal c cmd = Inr d \<longrightarrow> cd_unmarshal c d = Inr cmd)"

section \<open>Committed entries\<close>

text \<open>
  The Raft library applies a committed entry: the state machine steps and its hook, set to
  \<open>lockQueues.wakeHead\<close> by \<open>NewNode\<close>, runs for each freed lock.
\<close>

definition applyEntry :: "'d codec \<Rightarrow> Node \<Rightarrow> 'd \<Rightarrow> (any_value \<times> Node) go" where
  "applyEntry c n data =
     (case RaftFSM_Apply (cd_unmarshal c) (node_fsm n) data of
        Panic \<Rightarrow> Panic
      | Ret (v, f', freed) \<Rightarrow>
          Ret (v, n\<lparr>node_fsm := f', node_lockQueues := runHook (Some wakeHead) freed (node_lockQueues n)\<rparr>))"

fun applyEntries :: "'d codec \<Rightarrow> Node \<Rightarrow> 'd list \<Rightarrow> Node go" where
  "applyEntries c n [] = Ret n"
| "applyEntries c n (d # ds) =
     (case applyEntry c n d of Panic \<Rightarrow> Panic | Ret (v, n') \<Rightarrow> applyEntries c n' ds)"

text \<open>How the future of \<open>raft.Apply\<close> resolves; the flag says whether the entry takes effect.\<close>

datatype apply_future = ApplyDone | ApplyFailed raft_error bool

definition Node_Apply :: "'d codec \<Rightarrow> apply_future \<Rightarrow> Node \<Rightarrow> CommandWrapper \<Rightarrow> ((goerr + response) \<times> Node) go" where
  "Node_Apply c future n cmd =
     (case cd_marshal c cmd of
        Inl msg \<Rightarrow> Ret (Inl (Wrapped ''failed to marshal proto'' (OtherError msg)), n)
      | Inr data \<Rightarrow>
          (case future of
             ApplyFailed e effect \<Rightarrow>
               (if effect
                then case applyEntry c n data of
                       Panic \<Rightarrow> Panic
                     | Ret (v, n') \<Rightarrow> Ret (Inl (Wrapped ''failed to apply command'' (RaftError e)), n')
                else Ret (Inl (Wrapped ''failed to apply command'' (RaftError e)), n))
           | ApplyDone \<Rightarrow>
               (case applyEntry c n data of
                  Panic \<Rightarrow> Panic
                | Ret (AnyError err, n') \<Rightarrow> Ret (Inl err, n')
                | Ret (AnyResponse r, n') \<Rightarrow> Ret (Inr r, n'))))"

definition IsLeader :: "raft_view \<Rightarrow> bool" where
  "IsLeader rv \<longleftrightarrow> rv_state rv = Leader"

text \<open>
  \<open>Now\<close>: the wall clock at the start of the node, the time its monotonic clock has advanced
  since, and the present wall clock.
\<close>

definition Now :: "time \<Rightarrow> int \<Rightarrow> time \<Rightarrow> time" where
  "Now clockStarted elapsed wallNow = (if is_zero clockStarted then wallNow else clockStarted + elapsed)"

definition GetLeaderID :: "raft_view \<Rightarrow> string" where
  "GetLeaderID rv = rv_leaderID rv"

definition GetLeader :: "raft_view \<Rightarrow> string" where
  "GetLeader rv = rv_leaderAddr rv"

text \<open>
  \<open>WaitForLeader\<close>: each event is a tick, with the leader address read at that moment, or the
  timeout. Without the timeout the loop goes on waiting (\<open>None\<close>).
\<close>

datatype wait_event = Tick raft_view | TimedOut

fun WaitForLeader :: "wait_event list \<Rightarrow> goerr option option" where
  "WaitForLeader [] = None"
| "WaitForLeader (TimedOut # es) = Some (Some (OtherError ''no leader elected within timeout''))"
| "WaitForLeader (Tick rv # es) = (if GetLeader rv \<noteq> '''' then Some None else WaitForLeader es)"

section \<open>Leases\<close>

definition awaitTermApplied :: "'d codec \<Rightarrow> raft_error option \<Rightarrow> 'd list \<Rightarrow> Node \<Rightarrow> uint64 \<Rightarrow>
    (goerr option \<times> Node) go" where
  "awaitTermApplied c barrier pending n tm =
     (if node_barrierTerm n = tm then Ret (None, n)
      else case barrier of
             Some e \<Rightarrow> Ret (Some (Wrapped ''apply earlier entries'' (RaftError e)), n)
           | None \<Rightarrow>
               (case applyEntries c n pending of
                  Panic \<Rightarrow> Panic
                | Ret n' \<Rightarrow> Ret (None, n'\<lparr>node_barrierTerm := tm\<rparr>)))"

text \<open>
  The outcomes a renewal meets: how its barrier resolves and which earlier entries it
  waited for, the clock, and how the verification of leadership resolves.
\<close>

record 'd renew_env =
  re_term :: uint64
  re_barrier :: "raft_error option"
  re_pending :: "'d list"
  re_now :: time
  re_verify :: "raft_error option"

definition RenewLease :: "'d codec \<Rightarrow> 'd renew_env \<Rightarrow> Node \<Rightarrow> uint64 \<Rightarrow> ((goerr + duration) \<times> Node) go" where
  "RenewLease c env n leaseID =
     (case awaitTermApplied c (re_barrier env) (re_pending env) n (re_term env) of
        Panic \<Rightarrow> Panic
      | Ret (Some err, n1) \<Rightarrow> Ret (Inl err, n1)
      | Ret (None, n1) \<Rightarrow>
          (case GetLease (node_fsm n1) leaseID of
             Panic \<Rightarrow> Panic
           | Ret None \<Rightarrow> Ret (Inl (Sentinel ErrLeaseNotFound), n1)
           | Ret (Some lease) \<Rightarrow>
               (case renew (node_leases n1) (re_term env) (re_now env) lease of
                  Panic \<Rightarrow> Panic
                | Ret (Some err, t) \<Rightarrow> Ret (Inl err, n1\<lparr>node_leases := t\<rparr>)
                | Ret (None, t) \<Rightarrow>
                    (case re_verify env of
                       Some e \<Rightarrow> Ret (Inl (Wrapped ''verify leadership'' (RaftError e)), n1\<lparr>node_leases := t\<rparr>)
                     | None \<Rightarrow> Ret (Inr (Lease_TTL lease), n1\<lparr>node_leases := t\<rparr>)))))"

definition CheckLeaseAlive :: "uint64 \<Rightarrow> time \<Rightarrow> Node \<Rightarrow> uint64 \<Rightarrow> (goerr option \<times> Node) go" where
  "CheckLeaseAlive tm now n leaseID =
     (case GetLease (node_fsm n) leaseID of
        Panic \<Rightarrow> Panic
      | Ret None \<Rightarrow> Ret (Some (Sentinel ErrLeaseNotFound), n)
      | Ret (Some lease) \<Rightarrow>
          (case alive (node_leases n) tm now lease of
             (ok, t) \<Rightarrow> Ret (if ok then None else Some (Sentinel ErrLeaseExpired), n\<lparr>node_leases := t\<rparr>)))"

text \<open>One tick of \<open>leaseExpiryLoop\<close>; \<open>outcome\<close> gives the future of each expiry command.\<close>

fun expireClaimed :: "'d codec \<Rightarrow> (uint64 \<Rightarrow> apply_future) \<Rightarrow> Node \<Rightarrow> uint64 list \<Rightarrow> Node go" where
  "expireClaimed c outcome n [] = Ret n"
| "expireClaimed c outcome n (leaseID # ids) =
     (case Node_Apply c (outcome leaseID) n (NewExpireLeaseCmd leaseID) of
        Panic \<Rightarrow> Panic
      | Ret (r, n') \<Rightarrow>
          expireClaimed c outcome
            (n'\<lparr>node_leases := finishExpiry (node_leases n') leaseID (\<not> isl r)\<rparr>) ids)"

definition expiryTick :: "'d codec \<Rightarrow> raft_view \<Rightarrow> time \<Rightarrow> (uint64 \<Rightarrow> apply_future) \<Rightarrow> Node \<Rightarrow> Node go" where
  "expiryTick c rv now outcome n =
     (if \<not> IsLeader rv then Ret n
      else case Leases (node_fsm n) of
             Panic \<Rightarrow> Panic
           | Ret ls \<Rightarrow>
               (case claimExpired (node_leases n) (rv_term rv) now ls of
                  Panic \<Rightarrow> Panic
                | Ret (ids, t) \<Rightarrow> expireClaimed c outcome (n\<lparr>node_leases := t\<rparr>) ids))"

section \<open>Entries and leases\<close>

lemma applyEntry_cases:
  assumes "applyEntry c n d = Ret (v, n')"
  obtains (bad) msg where "cd_unmarshal c d = Inl msg" "node_fsm n' = node_fsm n" "v = AnyError (OtherError msg)"
      "node_leases n' = node_leases n" "node_barrierTerm n' = node_barrierTerm n"
      "node_cfg n' = node_cfg n" "node_lockQueues n' = node_lockQueues n"
  | (good) cmd r freed where "cd_unmarshal c d = Inr cmd"
      "Apply (node_fsm n) (Some cmd) = Ret (r, node_fsm n', freed)"
      "v = (case r of Inl err \<Rightarrow> AnyError err | Inr x \<Rightarrow> AnyResponse x)"
      "node_leases n' = node_leases n" "node_barrierTerm n' = node_barrierTerm n"
      "node_cfg n' = node_cfg n" "node_lockQueues n' = runHook (Some wakeHead) freed (node_lockQueues n)"
proof (cases "cd_unmarshal c d")
  case (Inl err)
  then show ?thesis
    using assms bad by (auto simp: applyEntry_def RaftFSM_Apply_def runHook_def)
next
  case (Inr cmd)
  then obtain r f' freed where a: "Apply (node_fsm n) (Some cmd) = Ret (r, f', freed)"
    using assms by (auto simp: applyEntry_def RaftFSM_Apply_def split: go.splits)
  show ?thesis
    using assms Inr a good [of cmd r freed]
    by (auto simp: applyEntry_def RaftFSM_Apply_def split: sum.splits)
qed

lemma applyEntry_returns: "fsm_wf (node_fsm n) \<Longrightarrow> applyEntry c n d \<noteq> Panic"
  using Apply_returns [of "node_fsm n"]
  by (auto simp: applyEntry_def RaftFSM_Apply_def returns_def split: go.splits sum.splits)

text \<open>Only the expiry of a lease removes it.\<close>

lemma Apply_lease_kept:
  assumes inv: "fsm_inv f" and step: "Apply f cmd = Ret (r, f', freed)" and l: "lease_at f i = Some l"
    and "command_of cmd \<noteq> ExpireLease i"
  shows "lease_at f' i = Some l"
proof -
  have "i \<noteq> nextLeaseID f" using fsm_inv_leaseD [OF inv l] by (auto simp: lease_ok_def)
  moreover have "sp_leases s' i = Some l"
    if "spec_apply s c = (r, s', fr)" "sp_leases s i = Some l" "c \<noteq> ExpireLease i" "i \<noteq> sp_next s"
    for s c s' fr
    using that by (cases c) (auto split: option.splits if_splits)
  ultimately show ?thesis using Apply_spec(1) [OF inv step] l assms(4) by fastforce
qed

text \<open>Expiries consume no fencing token and no lease identifier.\<close>

lemma Apply_expire_state:
  assumes "fsm_inv f" and "Apply f (Some (NewExpireLeaseCmd i)) = Ret (r, f', freed)"
  shows "f' = f \<or> (\<exists>j. f' = expire_state f j)"
proof -
  have "applyExpireLease f (GetExpireLease (Some (NewExpireLeaseCmd i))) = Ret (r, f', freed)"
    using assms(2) by (simp add: Apply_def command_type_defs)
  then show ?thesis
    unfolding applyExpireLease_eq [OF fsm_inv_wf [OF assms(1)]] by (auto split: option.splits)
qed

lemma fsm_inv_expired:
  "fsm_inv f \<Longrightarrow> Apply f (Some (NewExpireLeaseCmd i)) = Ret (r, f', freed) \<Longrightarrow> fsm_inv f'"
  by (metis Apply_expire_state fsm_inv_expire)

lemma log_ok_expire:
  assumes ok: "log_ok f k" and step: "Apply f (Some (NewExpireLeaseCmd i)) = Ret (r, f', freed)"
  shows "log_ok f' k"
proof -
  have inv: "fsm_inv f" using ok by (simp add: log_ok_def)
  show ?thesis
    using ok Apply_expire_state [OF inv step] fsm_inv_expired [OF inv step]
    by (auto simp: log_ok_def expire_state_def)
qed

section \<open>An acknowledged renewal\<close>

text \<open>
  The events of a leader between which a lease must survive: ticks of the expiry loop,
  renewals and checks from clients, and the application of committed entries.
\<close>

datatype 'd node_event =
    TickEvent raft_view time "uint64 \<Rightarrow> apply_future"
  | RenewEvent "'d renew_env" uint64
  | CheckEvent uint64 time uint64
  | EntryEvent 'd

datatype node_answer = Acknowledged "goerr + duration" | Checked "goerr option" | NoAnswer

fun node_step :: "'d codec \<Rightarrow> Node \<Rightarrow> 'd node_event \<Rightarrow> (node_answer \<times> Node) go" where
  "node_step c n (TickEvent rv now outcome) =
     (case expiryTick c rv now outcome n of Panic \<Rightarrow> Panic | Ret n' \<Rightarrow> Ret (NoAnswer, n'))"
| "node_step c n (RenewEvent env leaseID) =
     (case RenewLease c env n leaseID of Panic \<Rightarrow> Panic | Ret (r, n') \<Rightarrow> Ret (Acknowledged r, n'))"
| "node_step c n (CheckEvent tm now leaseID) =
     (case CheckLeaseAlive tm now n leaseID of Panic \<Rightarrow> Panic | Ret (e, n') \<Rightarrow> Ret (Checked e, n'))"
| "node_step c n (EntryEvent d) =
     (case applyEntry c n d of Panic \<Rightarrow> Panic | Ret (v, n') \<Rightarrow> Ret (NoAnswer, n'))"

text \<open>An entry that is not the expiry of the given lease, nor its release of one of the locks \<open>L\<close>.\<close>

definition spares :: "'d codec \<Rightarrow> Lease \<Rightarrow> (string \<rightharpoonup> Lock) \<Rightarrow> 'd \<Rightarrow> bool" where
  "spares c lease L d \<longleftrightarrow>
     (\<forall>cmd. cd_unmarshal c d = Inr cmd \<longrightarrow> command_of (Some cmd) \<noteq> ExpireLease (Lease_LeaseID lease) \<and>
        (\<forall>m \<in> dom L. command_of (Some cmd) \<noteq> ReleaseLock m (Lease_LeaseID lease)))"

text \<open>
  Events up to one TTL after the acknowledgement. The barrier of the renewal has waited for
  the entries of earlier leaders, so none of the entries still to come expires the lease.
\<close>

fun event_within :: "'d codec \<Rightarrow> Lease \<Rightarrow> (string \<rightharpoonup> Lock) \<Rightarrow> time \<Rightarrow> 'd node_event \<Rightarrow> bool" where
  "event_within c lease L start (TickEvent rv now outcome) = (start \<le> now \<and> now < ttl_after start lease)"
| "event_within c lease L start (RenewEvent env leaseID) =
     (start \<le> re_now env \<and> re_now env < ttl_after start lease \<and> list_all (spares c lease L) (re_pending env))"
| "event_within c lease L start (CheckEvent tm now leaseID) = (start \<le> now \<and> now < ttl_after start lease)"
| "event_within c lease L start (EntryEvent d) = spares c lease L d"

fun event_cost :: "'d node_event \<Rightarrow> nat" where
  "event_cost (RenewEvent env leaseID) = length (re_pending env)"
| "event_cost (EntryEvent d) = 1"
| "event_cost _ = 0"

text \<open>The client is never told that the lease is gone: a renewal of it fails only for Raft's reasons.\<close>

fun lease_confirmed :: "Lease \<Rightarrow> 'd node_event \<Rightarrow> node_answer \<Rightarrow> bool" where
  "lease_confirmed lease (RenewEvent env leaseID) a =
     (leaseID = Lease_LeaseID lease \<longrightarrow>
        a = Acknowledged (Inr (Lease_TTL lease)) \<or>
        (\<exists>msg e. a = Acknowledged (Inl (Wrapped msg (RaftError e))) \<and> (re_barrier env = Some e \<or> re_verify env = Some e)))"
| "lease_confirmed lease (CheckEvent tm now leaseID) a = (leaseID = Lease_LeaseID lease \<longrightarrow> a = Checked None)"
| "lease_confirmed lease _ a = (a = NoAnswer)"

definition locks_held :: "Lease \<Rightarrow> (string \<rightharpoonup> Lock) \<Rightarrow> FSM \<Rightarrow> bool" where
  "locks_held lease L f \<longleftrightarrow>
     (\<forall>m lk. L m = Some lk \<longrightarrow> lock_at f m = Some lk \<and> Lock_LeaseID lk = Lease_LeaseID lease)"

definition lease_held :: "Lease \<Rightarrow> (string \<rightharpoonup> Lock) \<Rightarrow> time \<Rightarrow> nat \<Rightarrow> Node \<Rightarrow> bool" where
  "lease_held lease L start k n \<longleftrightarrow> log_ok (node_fsm n) k \<and> locks_held lease L (node_fsm n) \<and>
     lease_at (node_fsm n) (Lease_LeaseID lease) = Some lease \<and> protected lease start (node_leases n)"

lemma locks_held_step:
  assumes "fsm_inv f" and "Apply f cmd = Ret (r, f', freed)" and "locks_held lease L f"
    and "command_of cmd \<noteq> ExpireLease (Lease_LeaseID lease)"
    and "\<forall>m \<in> dom L. command_of cmd \<noteq> ReleaseLock m (Lease_LeaseID lease)"
  shows "locks_held lease L f'"
  using assms(3-5) Apply_lock_kept [OF assms(1,2)] unfolding locks_held_def by (metis domI)

lemma log_ok_mono: "log_ok f k \<Longrightarrow> j \<le> k \<Longrightarrow> log_ok f j"
  by (auto simp: log_ok_def)

lemma log_ok_wf: "log_ok f k \<Longrightarrow> fsm_wf f"
  by (simp add: log_ok_def fsm_inv_wf)

lemma lease_held_entry:
  assumes held: "lease_held lease L start (Suc k) n" and "spares c lease L d"
  shows "\<exists>v n'. applyEntry c n d = Ret (v, n') \<and> lease_held lease L start k n' \<and>
    node_barrierTerm n' = node_barrierTerm n"
proof -
  have ok: "log_ok (node_fsm n) (Suc k)" and l: "lease_at (node_fsm n) (Lease_LeaseID lease) = Some lease"
    using held by (simp_all add: lease_held_def)
  then have inv: "fsm_inv (node_fsm n)" by (simp add: log_ok_def)
  obtain v n' where step: "applyEntry c n d = Ret (v, n')"
    using applyEntry_returns [OF fsm_inv_wf [OF inv], of c d] by (cases "applyEntry c n d") auto
  from step show ?thesis
  proof (cases rule: applyEntry_cases)
    case (bad err)
    then show ?thesis using step held log_ok_mono [OF ok, of k] by (simp add: lease_held_def)
  next
    case (good cmd r freed)
    then have "command_of (Some cmd) \<noteq> ExpireLease (Lease_LeaseID lease)"
        "\<forall>m \<in> dom L. command_of (Some cmd) \<noteq> ReleaseLock m (Lease_LeaseID lease)"
      using assms(2) by (simp_all add: spares_def)
    then show ?thesis
      using step held good log_ok_step [OF ok good(2)] Apply_lease_kept [OF inv good(2) l]
        locks_held_step [OF inv good(2)]
      by (simp add: lease_held_def)
  qed
qed

lemma lease_held_entries:
  "lease_held lease L start (length ds + k) n \<Longrightarrow> list_all (spares c lease L) ds \<Longrightarrow>
     \<exists>n'. applyEntries c n ds = Ret n' \<and> lease_held lease L start k n'"
proof (induction ds arbitrary: n)
  case (Cons d ds)
  then obtain v n1 where "applyEntry c n d = Ret (v, n1)" "lease_held lease L start (length ds + k) n1"
    using lease_held_entry [of lease L start "length ds + k" n c d] by auto
  then show ?case using Cons by simp
qed simp

lemma lease_held_expire:
  assumes held: "lease_held lease L start k n" and "codec_ok c" and "j \<noteq> Lease_LeaseID lease"
  shows "\<exists>r n'. Node_Apply c future n (NewExpireLeaseCmd j) = Ret (r, n') \<and> lease_held lease L start k n'"
proof (cases "cd_marshal c (NewExpireLeaseCmd j)")
  case (Inl err)
  then show ?thesis using held by (simp add: Node_Apply_def)
next
  case (Inr d)
  then have dec: "cd_unmarshal c d = Inr (NewExpireLeaseCmd j)" using assms(2) by (simp add: codec_ok_def)
  have ok: "log_ok (node_fsm n) k" and l: "lease_at (node_fsm n) (Lease_LeaseID lease) = Some lease"
    using held by (simp_all add: lease_held_def)
  then have inv: "fsm_inv (node_fsm n)" by (simp add: log_ok_def)
  obtain v n' where step: "applyEntry c n d = Ret (v, n')"
    using applyEntry_returns [OF fsm_inv_wf [OF inv], of c d] by (cases "applyEntry c n d") auto
  obtain r freed where a: "Apply (node_fsm n) (Some (NewExpireLeaseCmd j)) = Ret (r, node_fsm n', freed)"
      and t: "node_leases n' = node_leases n"
    using step dec by (auto elim: applyEntry_cases)
  have "command_of (Some (NewExpireLeaseCmd j)) \<noteq> ExpireLease (Lease_LeaseID lease)"
      "\<forall>m \<in> dom L. command_of (Some (NewExpireLeaseCmd j)) \<noteq> ReleaseLock m (Lease_LeaseID lease)"
    using assms(3) by (simp_all add: command_of_def command_type_defs)
  then have "lease_held lease L start k n'"
    using held t log_ok_expire [OF ok a] Apply_lease_kept [OF inv a l] locks_held_step [OF inv a]
    by (simp add: lease_held_def)
  then show ?thesis
    using Inr step held by (auto simp: Node_Apply_def split: apply_future.splits any_value.splits)
qed

lemma lease_held_claimed:
  "lease_held lease L start k n \<Longrightarrow> codec_ok c \<Longrightarrow> Lease_LeaseID lease \<notin> set ids \<Longrightarrow>
     \<exists>n'. expireClaimed c outcome n ids = Ret n' \<and> lease_held lease L start k n'"
proof (induction ids arbitrary: n)
  case (Cons j ids)
  then obtain r n' where step: "Node_Apply c (outcome j) n (NewExpireLeaseCmd j) = Ret (r, n')"
      "lease_held lease L start k n'"
    using lease_held_expire [OF Cons.prems(1,2), of j "outcome j"] by auto
  then have "lease_held lease L start k (n'\<lparr>node_leases := finishExpiry (node_leases n') j (\<not> isl r)\<rparr>)"
    using finish_protected [of lease start "node_leases n'" j] Cons.prems(3) by (auto simp: lease_held_def)
  then show ?case using Cons step(1) by simp
qed simp

lemma Leases_eq:
  assumes "fsm_inv f"
  shows "\<exists>ls. Leases f = Ret ls \<and> (\<forall>l. l \<in> set ls \<longleftrightarrow> lease_at f (Lease_LeaseID l) = Some l)"
proof -
  note wf = fsm_inv_wf [OF assms]
  have "\<exists>ls. derefAll es = Ret ls \<and> (\<forall>l. l \<in> set ls \<longleftrightarrow> (\<exists>i. (i, Some l) \<in> set es))"
    if "None \<notin> snd ` set es" for es
    using that by (induction es rule: derefAll.induct) auto
  from this [OF wf_no_nil(2) [OF wf]] obtain ls where ls: "Leases f = Ret ls"
      "\<And>l. l \<in> set ls \<longleftrightarrow> (\<exists>i. (i, Some l) \<in> set (leases f))"
    by (auto simp: Leases_def)
  have "(\<exists>i. (i, Some l) \<in> set (leases f)) \<longleftrightarrow> lease_at f (Lease_LeaseID l) = Some l" for l
  proof -
    have mem: "(i, Some l) \<in> set (leases f) \<longleftrightarrow> lease_at f i = Some l" for i
      using gm.entries_iff [OF wf_map_ok(2) [OF wf]] lease_at_iff [OF wf] by auto
    show ?thesis
      unfolding mem using fsm_inv_leaseD [OF assms, of _ l] by (auto simp: lease_ok_def)
  qed
  then show ?thesis using ls by auto
qed

lemma lease_held_tick:
  assumes held: "lease_held lease L start k n" and "codec_ok c"
    and "start \<le> now" and "now < ttl_after start lease"
  shows "\<exists>n'. expiryTick c rv now outcome n = Ret n' \<and> lease_held lease L start k n'"
proof (cases "IsLeader rv")
  case True
  have inv: "fsm_inv (node_fsm n)" and prot: "protected lease start (node_leases n)"
      and l: "lease_at (node_fsm n) (Lease_LeaseID lease) = Some lease"
    using held by (simp_all add: lease_held_def log_ok_def)
  obtain ls where ls: "Leases (node_fsm n) = Ret ls"
      "\<And>l. l \<in> set ls \<longleftrightarrow> lease_at (node_fsm n) (Lease_LeaseID l) = Some l"
    using Leases_eq [OF inv] by blast
  have "\<forall>l \<in> set ls. Lease_LeaseID l = Lease_LeaseID lease \<longrightarrow> l = lease" using ls(2) l by auto
  from claim_protected [OF prot assms(3,4) this] obtain ids t where
    claim: "claimExpired (node_leases n) (rv_term rv) now ls = Ret (ids, t)" "protected lease start t"
      "Lease_LeaseID lease \<notin> set ids" by blast
  have "lease_held lease L start k (n\<lparr>node_leases := t\<rparr>)" using held claim(2) by (simp add: lease_held_def)
  from lease_held_claimed [OF this assms(2) claim(3), of outcome] show ?thesis
    using True ls(1) claim(1) by (simp add: expiryTick_def)
qed (use held in \<open>simp add: expiryTick_def\<close>)

lemma GetLease_eq: "fsm_wf f \<Longrightarrow> GetLease f i = Ret (lease_at f i)"
  by (cases "mget (leases f) i") (auto simp: GetLease_def view_iffs lease_at_None split: option.splits)

lemma lease_held_await:
  assumes held: "lease_held lease L start (length pending + k) n" and "list_all (spares c lease L) pending"
  shows "\<exists>e n'. awaitTermApplied c barrier pending n tm = Ret (e, n') \<and> lease_held lease L start k n' \<and>
    (e = None \<or> (\<exists>err. e = Some (Wrapped ''apply earlier entries'' (RaftError err)) \<and> barrier = Some err))"
proof -
  have weaken: "lease_held lease L start k n"
    using held log_ok_mono [of "node_fsm n" _ k] by (auto simp: lease_held_def)
  obtain n1 where entries: "applyEntries c n pending = Ret n1" "lease_held lease L start k n1"
    using lease_held_entries [OF assms] by blast
  then have "lease_held lease L start k (n1\<lparr>node_barrierTerm := tm\<rparr>)" by (simp add: lease_held_def)
  then show ?thesis
    using weaken entries(1) by (cases barrier) (simp_all add: awaitTermApplied_def)
qed

lemma lease_held_renew:
  assumes held: "lease_held lease L start (length (re_pending env) + k) n"
    and "start \<le> re_now env" and "re_now env < ttl_after start lease" and "list_all (spares c lease L) (re_pending env)"
  shows "\<exists>r n'. RenewLease c env n i = Ret (r, n') \<and> lease_held lease L start k n' \<and>
    lease_confirmed lease (RenewEvent env i) (Acknowledged r)"
proof -
  obtain e n2 where await: "awaitTermApplied c (re_barrier env) (re_pending env) n (re_term env) = Ret (e, n2)"
      "lease_held lease L start k n2"
      "e = None \<or> (\<exists>err. e = Some (Wrapped ''apply earlier entries'' (RaftError err)) \<and> re_barrier env = Some err)"
    using lease_held_await [OF held assms(4)] by blast
  have get: "GetLease (node_fsm n2) i = Ret (lease_at (node_fsm n2) i)"
    using GetLease_eq [OF log_ok_wf] await(2) by (auto simp: lease_held_def)
  have l: "lease_at (node_fsm n2) (Lease_LeaseID lease) = Some lease" and prot: "protected lease start (node_leases n2)"
    using await(2) by (simp_all add: lease_held_def)
  show ?thesis
  proof (cases "e = None \<and> lease_at (node_fsm n2) i \<noteq> None")
    case False
    then show ?thesis using await get l by (auto simp: RenewLease_def)
  next
    case True
    then obtain x where x: "lease_at (node_fsm n2) i = Some x" by auto
    from renew_protected [OF prot assms(2,3), of "re_term env" x] obtain e' t where
      r: "renew (node_leases n2) (re_term env) (re_now env) x = Ret (e', t)" "protected lease start t"
        "x = lease \<longrightarrow> e' = None" by blast
    have "lease_held lease L start k (n2\<lparr>node_leases := t\<rparr>)" using await(2) r(2) by (simp add: lease_held_def)
    then show ?thesis
      using True await(1) get x r l by (auto simp: RenewLease_def split: option.splits)
  qed
qed

lemma lease_held_check:
  assumes held: "lease_held lease L start k n" and "start \<le> now" and "now < ttl_after start lease"
  shows "\<exists>e n'. CheckLeaseAlive tm now n i = Ret (e, n') \<and> lease_held lease L start k n' \<and>
    (i = Lease_LeaseID lease \<longrightarrow> e = None)"
proof -
  have get: "GetLease (node_fsm n) i = Ret (lease_at (node_fsm n) i)"
    using GetLease_eq [OF log_ok_wf] held by (auto simp: lease_held_def)
  have "protected lease start (syncTerm (node_leases n) tm now)"
    using protected_sync [OF _ assms(2)] held by (simp add: lease_held_def)
  then show ?thesis
    using held get assms(3)
    by (auto simp: CheckLeaseAlive_def alive_def lease_held_def protected_def Let_def split: option.splits)
qed

lemma node_step_held:
  assumes held: "lease_held lease L start (event_cost e + k) n" and "codec_ok c" and "event_within c lease L start e"
  shows "\<exists>a n'. node_step c n e = Ret (a, n') \<and> lease_held lease L start k n' \<and> lease_confirmed lease e a"
proof (cases e)
  case (TickEvent rv now outcome)
  then show ?thesis using lease_held_tick [of lease L start k n c now rv outcome] assms by auto
next
  case (RenewEvent env i)
  then show ?thesis using lease_held_renew [of lease L start env k n c i] assms by auto
next
  case (CheckEvent tm now i)
  then show ?thesis using lease_held_check [of lease L start k n now tm i] assms by auto
next
  case (EntryEvent d)
  then show ?thesis using lease_held_entry [of lease L start k n c d] assms by auto
qed

interpretation held: paid_promise "node_step c" "\<lambda>k n. codec_ok c \<and> lease_held lease L start k n" event_cost
    "event_within c lease L start" "lease_confirmed lease"
  for c lease L start
proof
  fix e k n a n'
  assume "codec_ok c \<and> lease_held lease L start (event_cost e + k) n" "event_within c lease L start e"
  note step = node_step_held [of lease L start e k n c] this
  show "node_step c n e \<noteq> Panic" using step by auto
  assume "node_step c n e = Ret (a, n')"
  then show "codec_ok c \<and> lease_held lease L start k n'" "lease_confirmed lease e a" using step by auto
qed

lemma applyEntries_leases: "applyEntries c n ds = Ret n' \<Longrightarrow> node_leases n' = node_leases n"
  by (induction ds arbitrary: n) (auto elim: applyEntry_cases split: go.splits)

lemma RenewLease_ack:
  assumes "RenewLease c env n i = Ret (Inr ttl, n')" and "fsm_wf (node_fsm n')"
  obtains lease where "re_verify env = None" "lease_at (node_fsm n') i = Some lease" "ttl = Lease_TTL lease"
    "renew (node_leases n) (re_term env) (re_now env) lease = Ret (None, node_leases n')"
proof -
  obtain n1 where await: "awaitTermApplied c (re_barrier env) (re_pending env) n (re_term env) = Ret (None, n1)"
    using assms(1) by (auto simp: RenewLease_def split: go.splits option.splits)
  then have t: "node_leases n1 = node_leases n"
    by (auto simp: awaitTermApplied_def dest: applyEntries_leases split: if_splits option.splits go.splits)
  obtain lease t where g: "GetLease (node_fsm n1) i = Ret (Some lease)" "re_verify env = None"
      "renew (node_leases n1) (re_term env) (re_now env) lease = Ret (None, t)"
      "n' = n1\<lparr>node_leases := t\<rparr>" "ttl = Lease_TTL lease"
    using assms(1) await by (auto simp: RenewLease_def split: go.splits option.splits)
  show ?thesis
    using that [of lease] g t GetLease_eq [of "node_fsm n1" i] assms(2) by simp
qed

lemma renewal_survives:
  assumes "codec_ok c" and "tracker_wf (node_leases n)" and "zero_time < re_now env"
    and "RenewLease c env n i = Ret (Inr ttl, n')"
    and "log_ok (node_fsm n') (sum_list (map event_cost events))"
    and "lease_at (node_fsm n') i = Some lease" and "locks_held lease L (node_fsm n')"
    and "list_all (event_within c lease L (re_now env)) events"
  shows "ttl = Lease_TTL lease \<and> (\<exists>as n''. run_calls (node_step c) n' events = Ret (as, n'') \<and>
    lease_at (node_fsm n'') i = Some lease \<and> locks_held lease L (node_fsm n'') \<and>
    list_all2 (lease_confirmed lease) events as)"
proof -
  have r: "ttl = Lease_TTL lease"
      "renew (node_leases n) (re_term env) (re_now env) lease = Ret (None, node_leases n')"
    using RenewLease_ack [OF assms(4) log_ok_wf [OF assms(5)]] assms(6) by (metis option.inject)+
  have "protected lease (re_now env) (node_leases n')"
    by (rule renew_success_protected [OF assms(2,3) r(2)])
  moreover have id: "Lease_LeaseID lease = i"
    using fsm_inv_leaseD [of "node_fsm n'" i lease] assms(5,6) by (simp add: log_ok_def lease_ok_def)
  ultimately have "lease_held lease L (re_now env) (sum_list (map event_cost events) + 0) n'"
    using assms(5-7) by (simp add: lease_held_def)
  then obtain as n'' where "run_calls (node_step c) n' events = Ret (as, n'')"
      "lease_held lease L (re_now env) 0 n''" "list_all2 (lease_confirmed lease) events as"
    using held.run_paid [of c lease L "re_now env" events 0 n'] assms(1,8) by auto
  then show ?thesis using r(1) id by (auto simp: lease_held_def)
qed


definition demo_codec :: "CommandWrapper codec" where
  "demo_codec = \<lparr>cd_marshal = Inr, cd_unmarshal = Inr\<rparr>"

definition demo_fsm :: FSM where
  "demo_fsm = \<lparr>locks = [(''x'', Some \<lparr>Lock_Name = ''x'', Lock_OwnerID = ''a'', Lock_FencingToken = 1, Lock_LeaseID = 1\<rparr>)],
     leases = [(1, Some demo_lease)], endpoints = [], fencingCounter = 1, nextLeaseID = 2\<rparr>"

definition demo_node :: Node where
  "demo_node = \<lparr>node_cfg = \<lparr>Cfg_NodeID = ''n1'', Cfg_BindAddr = ''h:1'', Cfg_RaftAdvertiseAddr = ''h:1'',
       Cfg_DataDir = ''d'', Cfg_Bootstrap = True, Cfg_GRPCAdvertiseAddr = ''h:2''\<rparr>,
     node_fsm = demo_fsm, node_leases = zeroTracker, node_lockQueues = newLockQueues, node_barrierTerm = 1\<rparr>"

definition demo_view :: raft_view where
  "demo_view = \<lparr>rv_state = Leader, rv_term = 1, rv_leaderAddr = ''h:1'', rv_leaderID = ''n1'', rv_config = Inr []\<rparr>"

definition demo_locks :: "string \<rightharpoonup> Lock" where
  "demo_locks = [''x'' \<mapsto> \<lparr>Lock_Name = ''x'', Lock_OwnerID = ''a'', Lock_FencingToken = 1, Lock_LeaseID = 1\<rparr>]"

lemma demo_locks_held: "locks_held demo_lease demo_locks demo_fsm"
  by (simp add: locks_held_def demo_locks_def demo_fsm_def demo_lease_def lock_at_def)

lemma demo_codec_ok: "codec_ok demo_codec"
  by (simp add: codec_ok_def demo_codec_def)

lemma demo_fsm_inv: "fsm_inv demo_fsm"
  by (rule fsm_invI; auto simp: demo_fsm_def demo_lease_def fsm_wf_def map_ok_def lease_at_def lock_at_def
      lease_ok_def lock_ok_def GetEndpoint_def split: if_splits)


section \<open>The expiry loop\<close>

fun took_effect :: "apply_future \<Rightarrow> bool" where
  "took_effect ApplyDone = True"
| "took_effect (ApplyFailed e effect) = effect"

lemma Node_Apply_expire:
  assumes inv: "fsm_inv (node_fsm n)" and "codec_ok c" and "cd_marshal c (NewExpireLeaseCmd j) = Inr d"
  obtains r n' where "Node_Apply c future n (NewExpireLeaseCmd j) = Ret (r, n')" "node_leases n' = node_leases n"
    "fsm_inv (node_fsm n')"
    "lease_at (node_fsm n') = (if took_effect future then (lease_at (node_fsm n))(j := None) else lease_at (node_fsm n))"
    "\<And>m k. lock_at (node_fsm n') m = Some k \<longleftrightarrow>
       lock_at (node_fsm n) m = Some k \<and> \<not> (took_effect future \<and> Lock_LeaseID k = j)"
proof -
  have dec: "cd_unmarshal c d = Inr (NewExpireLeaseCmd j)" using assms(2,3) by (simp add: codec_ok_def)
  obtain v n1 where step: "applyEntry c n d = Ret (v, n1)"
    using applyEntry_returns [OF fsm_inv_wf [OF inv], of c d] by (cases "applyEntry c n d") auto
  obtain r freed where a: "Apply (node_fsm n) (Some (NewExpireLeaseCmd j)) = Ret (r, node_fsm n1, freed)"
      and t: "node_leases n1 = node_leases n"
    using step dec by (auto elim: applyEntry_cases)
  have cmd: "command_of (Some (NewExpireLeaseCmd j)) = ExpireLease j"
    by (simp add: command_of_def command_type_defs)
  note eff = expire_effect [OF inv cmd a]
  have inv1: "fsm_inv (node_fsm n1)" by (rule fsm_inv_expired [OF inv a])
  show ?thesis
  proof (cases "took_effect future")
    case True
    then obtain r' where "Node_Apply c future n (NewExpireLeaseCmd j) = Ret (r', n1)"
      using step assms(3) by (cases future; cases v) (auto simp: Node_Apply_def)
    then show ?thesis using that [of r' n1] t inv1 eff True by auto
  next
    case False
    then obtain r' where "Node_Apply c future n (NewExpireLeaseCmd j) = Ret (r', n)"
      using assms(3) by (cases future) (auto simp: Node_Apply_def)
    then show ?thesis using that [of r' n] inv False by auto
  qed
qed

lemma expireClaimed_effect:
  assumes "fsm_inv (node_fsm n)" and "codec_ok c" and "\<And>j. \<exists>d. cd_marshal c (NewExpireLeaseCmd j) = Inr d"
  shows "\<exists>n'. expireClaimed c outcome n ids = Ret n' \<and>
    (\<forall>i. lease_at (node_fsm n') i =
       (if i \<in> set ids \<and> took_effect (outcome i) then None else lease_at (node_fsm n) i)) \<and>
    (\<forall>m k. lock_at (node_fsm n') m = Some k \<longleftrightarrow>
       lock_at (node_fsm n) m = Some k \<and> \<not> (Lock_LeaseID k \<in> set ids \<and> took_effect (outcome (Lock_LeaseID k)))) \<and>
    (\<forall>i. isExpiring (node_leases n') i \<longleftrightarrow> isExpiring (node_leases n) i \<and> i \<notin> set ids)"
  using assms(1)
proof (induction ids arbitrary: n)
  case (Cons j ids)
  obtain d where d: "cd_marshal c (NewExpireLeaseCmd j) = Inr d" using assms(3) by blast
  obtain r n1 where step: "Node_Apply c (outcome j) n (NewExpireLeaseCmd j) = Ret (r, n1)"
      "node_leases n1 = node_leases n" "fsm_inv (node_fsm n1)"
      "lease_at (node_fsm n1) =
        (if took_effect (outcome j) then (lease_at (node_fsm n))(j := None) else lease_at (node_fsm n))"
      "\<And>m k. lock_at (node_fsm n1) m = Some k \<longleftrightarrow>
        lock_at (node_fsm n) m = Some k \<and> \<not> (took_effect (outcome j) \<and> Lock_LeaseID k = j)"
    using Node_Apply_expire [OF Cons.prems assms(2) d, of "outcome j"] by blast
  let ?n = "n1\<lparr>node_leases := finishExpiry (node_leases n1) j (\<not> isl r)\<rparr>"
  have finish: "isExpiring (finishExpiry t j b) i \<longleftrightarrow> isExpiring t i \<and> i \<noteq> j" for t b i
    by (auto simp: finishExpiry_def isExpiring_def Let_def)
  have "fsm_inv (node_fsm ?n)" using step(3) by simp
  from Cons.IH [OF this] obtain n' where n': "expireClaimed c outcome ?n ids = Ret n'"
      "\<And>i. lease_at (node_fsm n') i =
        (if i \<in> set ids \<and> took_effect (outcome i) then None else lease_at (node_fsm n1) i)"
      "\<And>m k. lock_at (node_fsm n') m = Some k \<longleftrightarrow>
        lock_at (node_fsm n1) m = Some k \<and> \<not> (Lock_LeaseID k \<in> set ids \<and> took_effect (outcome (Lock_LeaseID k)))"
      "\<And>i. isExpiring (node_leases n') i \<longleftrightarrow> isExpiring (node_leases n) i \<and> i \<noteq> j \<and> i \<notin> set ids"
    using step(2) finish by auto
  have "expireClaimed c outcome n (j # ids) = Ret n'" using step(1) n'(1) by simp
  moreover have "lease_at (node_fsm n') i =
      (if i \<in> set (j # ids) \<and> took_effect (outcome i) then None else lease_at (node_fsm n) i)" for i
    unfolding n'(2) step(4) by simp
  moreover have "lock_at (node_fsm n') m = Some k \<longleftrightarrow> lock_at (node_fsm n) m = Some k \<and>
      \<not> (Lock_LeaseID k \<in> set (j # ids) \<and> took_effect (outcome (Lock_LeaseID k)))" for m k
    unfolding n'(3) step(5) by auto
  ultimately show ?case using n'(4) by auto
qed simp

text \<open>The leases the expiry loop is to remove at an instant of a term.\<close>

definition due :: "Node \<Rightarrow> uint64 \<Rightarrow> time \<Rightarrow> uint64 \<Rightarrow> bool" where
  "due n tm now i \<longleftrightarrow> (let t = syncTerm (node_leases n) tm now in
     \<not> isExpiring t i \<and> (\<exists>l. lease_at (node_fsm n) i = Some l \<and> deadline t l \<le> now))"

text \<open>
  C19: One tick of the expiry loop on the leader removes exactly the leases that are past
  their deadline and whose expiry command took effect, frees exactly their locks, touches
  no other lease or lock, and leaves no claim behind, so an expiry that failed is retried
  at the next tick.
\<close>
theorem expiry_tick_exact:
  assumes "fsm_inv (node_fsm n)" and "tracker_wf (node_leases n)" and "codec_ok c"
    and "\<And>j. \<exists>d. cd_marshal c (NewExpireLeaseCmd j) = Inr d"
    and "IsLeader rv" and "rv_term rv \<noteq> 0" and "\<forall>i. \<not> isExpiring (node_leases n) i"
  shows "\<exists>n'. expiryTick c rv now outcome n = Ret n' \<and>
    (\<forall>i. lease_at (node_fsm n') i =
       (if due n (rv_term rv) now i \<and> took_effect (outcome i) then None else lease_at (node_fsm n) i)) \<and>
    (\<forall>m k. lock_at (node_fsm n') m = Some k \<longleftrightarrow> lock_at (node_fsm n) m = Some k \<and>
       \<not> (due n (rv_term rv) now (Lock_LeaseID k) \<and> took_effect (outcome (Lock_LeaseID k)))) \<and>
    (\<forall>i. \<not> isExpiring (node_leases n') i)"
proof -
  let ?t = "syncTerm (node_leases n) (rv_term rv) now"
  have some: "tr_expiring ?t \<noteq> None"
    using tracker_wf_sync [OF assms(2), of "rv_term rv" now] assms(6) by (simp add: tracker_wf_def)
  obtain ls where ls: "Leases (node_fsm n) = Ret ls"
      "\<And>l. l \<in> set ls \<longleftrightarrow> lease_at (node_fsm n) (Lease_LeaseID l) = Some l"
    using Leases_eq [OF assms(1)] by blast
  obtain ids m where claim: "claimLoop ?t now ls = Ret (ids, ?t\<lparr>tr_expiring := m\<rparr>)"
      "set ids = {i. \<not> isExpiring ?t i \<and> (\<exists>l \<in> set ls. Lease_LeaseID l = i \<and> deadline ?t l \<le> now)}"
      "\<forall>j. isExpiring (?t\<lparr>tr_expiring := m\<rparr>) j \<longleftrightarrow> isExpiring ?t j \<or> j \<in> set ids"
    using claimLoop_eq [OF some, of now ls] by (elim exE conjE) (rule that; assumption)
  have member: "l \<in> set ls \<and> Lease_LeaseID l = i \<longleftrightarrow> lease_at (node_fsm n) i = Some l" for i l
    using ls(2) [of l] fsm_inv_leaseD [OF assms(1), of i l] unfolding lease_ok_def by blast
  have "i \<in> set ids \<longleftrightarrow> due n (rv_term rv) now i" for i
    unfolding claim(2) due_def Let_def mem_Collect_eq member [symmetric] by blast
  moreover have "\<not> isExpiring ?t i" for i using assms(7) by (simp add: syncTerm_def isExpiring_def)
  moreover have "expiryTick c rv now outcome n =
      expireClaimed c outcome (n\<lparr>node_leases := ?t\<lparr>tr_expiring := m\<rparr>\<rparr>) ids"
    using assms(5) ls(1) claim(1) by (simp add: expiryTick_def claimExpired_def)
  moreover have "fsm_inv (node_fsm (n\<lparr>node_leases := ?t\<lparr>tr_expiring := m\<rparr>\<rparr>))" using assms(1) by simp
  from expireClaimed_effect [OF this assms(3,4), of outcome ids] obtain n' where
    "expireClaimed c outcome (n\<lparr>node_leases := ?t\<lparr>tr_expiring := m\<rparr>\<rparr>) ids = Ret n'"
    "\<forall>i. lease_at (node_fsm n') i =
       (if i \<in> set ids \<and> took_effect (outcome i) then None else lease_at (node_fsm n) i)"
    "\<forall>m k. lock_at (node_fsm n') m = Some k \<longleftrightarrow>
       lock_at (node_fsm n) m = Some k \<and> \<not> (Lock_LeaseID k \<in> set ids \<and> took_effect (outcome (Lock_LeaseID k)))"
    "\<forall>i. isExpiring (node_leases n') i \<longleftrightarrow> isExpiring (?t\<lparr>tr_expiring := m\<rparr>) i \<and> i \<notin> set ids" by auto
  ultimately show ?thesis using claim(3) by auto
qed

theorem expiry_tick_exact_witness:
  "\<exists>n'. expiryTick demo_codec demo_view 100 (\<lambda>i. ApplyDone) (demo_node\<lparr>node_leases := syncTerm zeroTracker 1 10\<rparr>) = Ret n' \<and>
     lease_at (node_fsm n') 1 = None \<and> (\<forall>i. \<not> isExpiring (node_leases n') i)"
proof -
  let ?n = "demo_node\<lparr>node_leases := syncTerm zeroTracker 1 10\<rparr>"
  have "fsm_inv (node_fsm ?n)" using demo_fsm_inv by (simp add: demo_node_def)
  moreover have "tracker_wf (node_leases ?n)" by (simp add: tracker_wf_sync [OF tracker_wf_zero])
  moreover have "\<exists>d. cd_marshal demo_codec (NewExpireLeaseCmd j) = Inr d" for j by (simp add: demo_codec_def)
  moreover have "\<forall>i. \<not> isExpiring (node_leases ?n) i" by (simp add: tracker_eval)
  moreover have "due ?n 1 100 1" by (simp add: due_def demo_node_def demo_fsm_def lease_at_def tracker_eval)
  ultimately show ?thesis
    using expiry_tick_exact [of ?n demo_codec demo_view 100 "\<lambda>i. ApplyDone"] demo_codec_ok
    by (auto simp: IsLeader_def demo_view_def)
qed

end
