(* ===== verification/Cluster_Members.thy ===== *)
theory Cluster_Members
  imports Cluster_Node
begin

text \<open>
  \<open>internal/cluster/member.go\<close>: membership and endpoint metadata. Membership itself is kept
  by the Raft library; the model returns the membership calls a node makes to it, in order.
\<close>

section \<open>Endpoints\<close>

definition SelfMember :: "Node \<Rightarrow> ClusterMember" where
  "SelfMember n = \<lparr>Member_NodeID = Cfg_NodeID (node_cfg n),
     Member_RaftAddress = Cfg_RaftAdvertiseAddr (node_cfg n),
     Member_GRPCAddress = Cfg_GRPCAdvertiseAddr (node_cfg n)\<rparr>"

text \<open>One tick of \<open>endpointMetadataLoop\<close>.\<close>

definition endpointTick :: "'d codec \<Rightarrow> raft_view \<Rightarrow> apply_future \<Rightarrow> Node \<Rightarrow> Node go" where
  "endpointTick c rv future n =
     (if \<not> IsLeader rv then Ret n
      else let self = SelfMember n in
        if GetEndpoint (node_fsm n) (Member_NodeID self) = Some (Member_GRPCAddress self) then Ret n
        else case Node_Apply c future n
                    (NewUpsertEndpointCmd (Member_NodeID self) (Member_GRPCAddress self)) of
               Panic \<Rightarrow> Panic
             | Ret (r, n') \<Rightarrow> Ret n')"

definition upsertEndpointMetadata :: "'d codec \<Rightarrow> apply_future \<Rightarrow> Node \<Rightarrow> ClusterMember \<Rightarrow>
    (goerr option \<times> Node) go" where
  "upsertEndpointMetadata c future n member =
     (case Node_Apply c future n
             (NewUpsertEndpointCmd (Member_NodeID member) (Member_GRPCAddress member)) of
        Panic \<Rightarrow> Panic
      | Ret (Inl err, n') \<Rightarrow> Ret (Some (Wrapped ''replicate endpoint metadata'' err), n')
      | Ret (Inr r, n') \<Rightarrow> Ret (None, n'))"

definition removeEndpointMetadata :: "'d codec \<Rightarrow> apply_future \<Rightarrow> Node \<Rightarrow> string \<Rightarrow>
    (goerr option \<times> Node) go" where
  "removeEndpointMetadata c future n nodeID =
     (case Node_Apply c future n (NewRemoveEndpointCmd nodeID) of
        Panic \<Rightarrow> Panic
      | Ret (Inl err, n') \<Rightarrow> Ret (Some (Wrapped ''remove endpoint metadata'' err), n')
      | Ret (Inr r, n') \<Rightarrow> Ret (None, n'))"

definition GetLeaderGRPCAddress :: "raft_view \<Rightarrow> Node \<Rightarrow> string" where
  "GetLeaderGRPCAddress rv n =
     (let leaderID = GetLeaderID rv in
      if leaderID = '''' then ''''
      else if leaderID = Cfg_NodeID (node_cfg n) then Cfg_GRPCAdvertiseAddr (node_cfg n)
      else case GetEndpoint (node_fsm n) leaderID of None \<Rightarrow> '''' | Some addr \<Rightarrow> addr)"

section \<open>Members\<close>

definition memberOf :: "Node \<Rightarrow> Server \<Rightarrow> ClusterMember" where
  "memberOf n server =
     \<lparr>Member_NodeID = Server_ID server, Member_RaftAddress = Server_Address server,
      Member_GRPCAddress =
        (if Server_ID server = Cfg_NodeID (node_cfg n) then Cfg_GRPCAdvertiseAddr (node_cfg n)
         else case GetEndpoint (node_fsm n) (Server_ID server) of None \<Rightarrow> '''' | Some a \<Rightarrow> a)\<rparr>"

text \<open>Node identifiers are unique in a Raft configuration, so the sort determines the order.\<close>

definition Members :: "raft_view \<Rightarrow> Node \<Rightarrow> ClusterMember list" where
  "Members rv n =
     (case rv_config rv of
        Inl e \<Rightarrow> [SelfMember n]
      | Inr servers \<Rightarrow> sort_key Member_NodeID (map (memberOf n) servers))"

section \<open>Changing the membership\<close>

datatype raft_call = AddVoter string string | RemoveServer string

text \<open>
  The scan of \<open>AddClusterMember\<close> over the configuration: the member is already a voter at
  that address, its address is taken by another node, or it is to be added.
\<close>

datatype scan_result = AlreadyVoter | AddressInUse string | ProposeVoter

fun scanServers :: "ClusterMember \<Rightarrow> Server list \<Rightarrow> scan_result" where
  "scanServers member [] = ProposeVoter"
| "scanServers member (server # servers) =
     (if Server_ID server = Member_NodeID member
      then (if Server_Address server = Member_RaftAddress member \<and> Server_Suffrage server = Voter
            then AlreadyVoter else ProposeVoter)
      else if Server_Address server = Member_RaftAddress member \<and> Server_ID server \<noteq> Member_NodeID member
      then AddressInUse (Server_ID server)
      else scanServers member servers)"

definition AddClusterMember :: "'d codec \<Rightarrow> raft_view \<Rightarrow> raft_error option \<Rightarrow> apply_future \<Rightarrow> Node \<Rightarrow>
    ClusterMember \<Rightarrow> (goerr option \<times> raft_call list \<times> Node) go" where
  "AddClusterMember c rv addFuture future n member =
     (if \<not> IsLeader rv
      then Ret (Some (Wrapped ''cannot add cluster member'' (RaftError ErrNotLeader)), [], n)
      else if Member_NodeID member = '''' \<or> Member_RaftAddress member = '''' \<or> Member_GRPCAddress member = ''''
      then Ret (Some (OtherError ''cluster member metadata is incomplete''), [], n)
      else case rv_config rv of
        Inl e \<Rightarrow> Ret (Some (Wrapped ''failed to read cluster config'' (RaftError e)), [], n)
      | Inr servers \<Rightarrow>
          (case scanServers member servers of
             AlreadyVoter \<Rightarrow>
               (case upsertEndpointMetadata c future n member of
                  Panic \<Rightarrow> Panic | Ret (err, n') \<Rightarrow> Ret (err, [], n'))
           | AddressInUse other \<Rightarrow>
               Ret (Some (OtherError (''raft address '' @ Member_RaftAddress member @
                 '' is already in use by node '' @ other @ ''; remove it before adding node '' @
                 Member_NodeID member)), [], n)
           | ProposeVoter \<Rightarrow>
               (let call = AddVoter (Member_NodeID member) (Member_RaftAddress member) in
                case addFuture of
                  Some e \<Rightarrow> Ret (Some (Wrapped ''failed to add voter'' (RaftError e)), [call], n)
                | None \<Rightarrow>
                    (case upsertEndpointMetadata c future n member of
                       Panic \<Rightarrow> Panic | Ret (err, n') \<Rightarrow> Ret (err, [call], n')))))"

definition RemoveClusterMember :: "'d codec \<Rightarrow> raft_view \<Rightarrow> raft_error option \<Rightarrow> apply_future \<Rightarrow> Node \<Rightarrow>
    string \<Rightarrow> (goerr option \<times> raft_call list \<times> Node) go" where
  "RemoveClusterMember c rv removeFuture future n nodeID =
     (if \<not> IsLeader rv
      then Ret (Some (Wrapped ''cannot remove cluster member'' (RaftError ErrNotLeader)), [], n)
      else case rv_config rv of
        Inl e \<Rightarrow> Ret (Some (Wrapped ''failed to read cluster config'' (RaftError e)), [], n)
      | Inr servers \<Rightarrow>
          (if \<not> list_ex (\<lambda>server. Server_ID server = nodeID) servers
           then Ret (Some (Sentinel ErrNodeNotFound), [], n)
           else case removeFuture of
                  Some e \<Rightarrow> Ret (Some (Wrapped ''failed to remove server'' (RaftError e)), [RemoveServer nodeID], n)
                | None \<Rightarrow>
                    (case removeEndpointMetadata c future n nodeID of
                       Panic \<Rightarrow> Panic | Ret (err, n') \<Rightarrow> Ret (err, [RemoveServer nodeID], n'))))"

section \<open>Starting and stopping a node\<close>

text \<open>How each step of assembling the Raft stack turns out.\<close>

record start_env =
  se_mkdir :: "goerr option"
  se_storage :: "goerr option"
  se_resolve :: "goerr option"
  se_transport :: "goerr option"
  se_raft :: "goerr option"
  se_hasState :: "goerr + bool"

datatype resource = ResStorage | ResTransport | ResRaft

definition withDefaults :: "Config \<Rightarrow> Config" where
  "withDefaults cfg0 =
     (let cfg = (if Cfg_RaftAdvertiseAddr cfg0 = ''''
                 then cfg0\<lparr>Cfg_RaftAdvertiseAddr := Cfg_BindAddr cfg0\<rparr> else cfg0)
      in if Cfg_GRPCAdvertiseAddr cfg = '''' then cfg\<lparr>Cfg_GRPCAdvertiseAddr := Cfg_BindAddr cfg\<rparr> else cfg)"

text \<open>
  The result, the cluster that is bootstrapped, if any, and the resources left open.
\<close>

definition NewNode :: "start_env \<Rightarrow> Config \<Rightarrow> (goerr + Node) \<times> Server list option \<times> resource list" where
  "NewNode env cfg0 =
     (let cfg = withDefaults cfg0;
          node = \<lparr>node_cfg = cfg, node_fsm = NewFSM, node_leases = zeroTracker,
                  node_lockQueues = newLockQueues, node_barrierTerm = 0\<rparr> in
      case se_mkdir env of
        Some err \<Rightarrow> (Inl (Wrapped ''failed to create data dir'' err), None, [])
      | None \<Rightarrow>
      case se_storage env of
        Some err \<Rightarrow> (Inl (Wrapped ''failed to create stores'' err), None, [])
      | None \<Rightarrow>
      case se_resolve env of
        Some err \<Rightarrow> (Inl (Wrapped ''failed to resolve raft advertise addr'' err), None, [ResStorage])
      | None \<Rightarrow>
      case se_transport env of
        Some err \<Rightarrow> (Inl (Wrapped ''failed to create transport'' err), None, [ResStorage])
      | None \<Rightarrow>
      case se_raft env of
        Some err \<Rightarrow> (Inl (Wrapped ''failed to create raft'' err), None, [ResStorage, ResTransport])
      | None \<Rightarrow>
      if Cfg_Bootstrap cfg then
        (case se_hasState env of
           Inl err \<Rightarrow> (Inl (Wrapped ''failed to check existing state'' err), None,
                       [ResStorage, ResTransport, ResRaft])
         | Inr hasState \<Rightarrow>
             (Inr node,
              if hasState then None
              else Some [\<lparr>Server_Suffrage = Voter, Server_ID = Cfg_NodeID cfg,
                          Server_Address = Cfg_RaftAdvertiseAddr cfg\<rparr>],
              [ResStorage, ResTransport, ResRaft]))
      else (Inr node, None, [ResStorage, ResTransport, ResRaft]))"

text \<open>\<open>Shutdown\<close> under \<open>shutdownOnce\<close>: whether it ran before, and what is still open.\<close>

record run_state =
  rs_stopped :: bool
  rs_open :: "resource list"

definition Shutdown :: "goerr option \<Rightarrow> run_state \<Rightarrow> goerr option \<times> run_state" where
  "Shutdown raftShutdown s =
     (if rs_stopped s then (None, s)
      else case raftShutdown of
             Some err \<Rightarrow> (Some (Wrapped ''failed to shutdown raft'' err), s\<lparr>rs_stopped := True\<rparr>)
           | None \<Rightarrow> (None, s\<lparr>rs_stopped := True, rs_open := []\<rparr>))"

section \<open>Properties\<close>

lemma scanServers_ProposeVoter:
  "scanServers member servers = ProposeVoter \<Longrightarrow> Member_NodeID member \<notin> Server_ID ` set servers \<Longrightarrow>
     Member_RaftAddress member \<notin> Server_Address ` set servers"
  by (induction servers) (auto split: if_splits)

lemma scanServers_AlreadyVoter:
  "scanServers member servers = AlreadyVoter \<Longrightarrow>
     \<exists>s \<in> set servers. Server_ID s = Member_NodeID member \<and> Server_Address s = Member_RaftAddress member \<and>
       Server_Suffrage s = Voter"
  by (induction servers) (auto split: if_splits)

lemma upsert_error_label:
  "upsertEndpointMetadata c future n member = Ret (Some err, n') \<Longrightarrow>
     \<exists>e. err = Wrapped ''replicate endpoint metadata'' e"
  by (auto simp: upsertEndpointMetadata_def split: go.splits sum.splits)


definition demo_member :: ClusterMember where
  "demo_member = \<lparr>Member_NodeID = ''n2'', Member_RaftAddress = ''h:7'', Member_GRPCAddress = ''h:8''\<rparr>"


text \<open>
  The scan for an address that is in use stops at the entry of the node itself. When a
  known node moves to an address that a later entry of the configuration has, the change is
  proposed instead of being refused, while the same configuration in the other order
  refuses it.
\<close>
theorem address_scan_depends_on_order:
  "scanServers \<lparr>Member_NodeID = ''n1'', Member_RaftAddress = ''h:2'', Member_GRPCAddress = ''g''\<rparr>
     [\<lparr>Server_Suffrage = Voter, Server_ID = ''n1'', Server_Address = ''h:1''\<rparr>,
      \<lparr>Server_Suffrage = Voter, Server_ID = ''n2'', Server_Address = ''h:2''\<rparr>] = ProposeVoter \<and>
   scanServers \<lparr>Member_NodeID = ''n1'', Member_RaftAddress = ''h:2'', Member_GRPCAddress = ''g''\<rparr>
     [\<lparr>Server_Suffrage = Voter, Server_ID = ''n2'', Server_Address = ''h:2''\<rparr>,
      \<lparr>Server_Suffrage = Voter, Server_ID = ''n1'', Server_Address = ''h:1''\<rparr>] = AddressInUse ''n2''"
  by simp

lemma Node_Apply_endpoint:
  assumes "codec_ok c" and "cd_marshal c cmd = Inr d" and "Node_Apply c ApplyDone n cmd = Ret (Inr r, n')"
  shows "\<exists>f' freed. Apply (node_fsm n) (Some cmd) = Ret (Inr r, f', freed) \<and> node_fsm n' = f' \<and>
    node_cfg n' = node_cfg n"
proof -
  have dec: "cd_unmarshal c d = Inr cmd" using assms(1,2) by (simp add: codec_ok_def)
  have "applyEntry c n d = Ret (AnyResponse r, n')"
    using assms(2,3) by (auto simp: Node_Apply_def split: go.splits any_value.splits)
  then show ?thesis using dec by (auto elim!: applyEntry_cases split: sum.splits)
qed



text \<open>
  A node starts consistent and bootstraps only new storage: a node that starts has an
  empty state machine, tracker and queues that satisfy their invariants, and the one-server
  cluster of itself is bootstrapped only when it was asked for and the storage holds no
  Raft state.
\<close>
theorem new_node_starts_consistent:
  assumes "NewNode env cfg = (r, bootstrapped, left)"
  shows "(\<forall>n. r = Inr n \<longrightarrow> fsm_inv (node_fsm n) \<and> tracker_wf (node_leases n) \<and> queue_inv (node_lockQueues n)) \<and>
    (\<forall>servers. bootstrapped = Some servers \<longrightarrow> Cfg_Bootstrap cfg \<and> se_hasState env = Inr False \<and>
       map Server_ID servers = [Cfg_NodeID cfg])"
  using assms fsm_inv_NewFSM tracker_wf_zero queue_inv_new
  by (auto simp: NewNode_def withDefaults_def Let_def split: option.splits sum.splits if_splits)

lemma new_node_starts_consistent_witness:
  "\<exists>n servers left. NewNode \<lparr>se_mkdir = None, se_storage = None, se_resolve = None, se_transport = None, se_raft = None,
       se_hasState = Inr False\<rparr> (node_cfg demo_node) = (Inr n, Some servers, left) \<and>
     fsm_inv (node_fsm n) \<and> map Server_ID servers = [''n1'']"
proof -
  obtain n servers left where run: "NewNode \<lparr>se_mkdir = None, se_storage = None, se_resolve = None, se_transport = None,
      se_raft = None, se_hasState = Inr False\<rparr> (node_cfg demo_node) = (Inr n, Some servers, left)"
    by (simp add: NewNode_def withDefaults_def demo_node_def Let_def)
  have "Cfg_NodeID (node_cfg demo_node) = ''n1''" by (simp add: demo_node_def)
  then show ?thesis using new_node_starts_consistent [OF run] run by auto
qed

text \<open>
  A shutdown whose Raft instance fails to stop reports the error once, leaves the
  transport and the storage open, and a second call reports success without trying again.
\<close>
theorem failed_shutdown_is_not_retried:
  "Shutdown (Some e) \<lparr>rs_stopped = False, rs_open = res\<rparr> =
     (Some (Wrapped ''failed to shutdown raft'' e), \<lparr>rs_stopped = True, rs_open = res\<rparr>) \<and>
   Shutdown r \<lparr>rs_stopped = True, rs_open = res\<rparr> = (None, \<lparr>rs_stopped = True, rs_open = res\<rparr>)"
  by (simp add: Shutdown_def)

end
