(* ===== verification/Lock_Service.thy ===== *)
theory Lock_Service
  imports Cluster_Members
begin

text \<open>
  \<open>internal/service/service.go\<close>: the operations behind the RPCs. Each takes what it reads
  from Raft and from the clock, and how its proposal resolves, as an environment. The
  waiting acquisition is a loop whose rounds are given by what the rest of the node does
  meanwhile and by the case its \<open>select\<close> takes.
\<close>

section \<open>Responses\<close>

text \<open>\<open>as[T]\<close>: \<open>proj\<close> is the type assertion.\<close>

definition as_typed :: "(response \<Rightarrow> 'a option) \<Rightarrow> goerr + response \<Rightarrow> goerr + 'a" where
  "as_typed proj result =
     (case result of
        Inl err \<Rightarrow> Inl err
      | Inr r \<Rightarrow> (case proj r of
                   None \<Rightarrow> Inl (OtherError ''unexpected FSM response type'')
                 | Some typed \<Rightarrow> Inr typed))"

fun isCreateLeaseResponse :: "response \<Rightarrow> CreateLeaseResponse option" where
  "isCreateLeaseResponse (RespCreateLease r) = Some r"
| "isCreateLeaseResponse _ = None"

fun isAcquireLockResponse :: "response \<Rightarrow> AcquireLockResponse option" where
  "isAcquireLockResponse (RespAcquireLock r) = Some r"
| "isAcquireLockResponse _ = None"

section \<open>Leases\<close>

definition maxLeaseTTLSeconds :: int64 where
  "maxLeaseTTLSeconds = word_of_int ((2 ^ 63 - 1) div 1000000000)"

definition leaseTTLDuration :: "int64 \<Rightarrow> time \<Rightarrow> goerr + duration" where
  "leaseTTLDuration ttlSeconds now =
     (if sint ttlSeconds \<le> 0
      then Inl (InvalidArgumentError ''ttl_seconds must be greater than 0'')
      else if sint ttlSeconds > sint maxLeaseTTLSeconds
      then Inl (InvalidArgumentError ''ttl_seconds exceeds the maximum supported duration'')
      else
        (let ttl = ttlSeconds * second;
             maxExpiryNanos = max_int64 - unix_nano now
         in if sint maxExpiryNanos \<le> 0 \<or> sint ttl > sint maxExpiryNanos
            then Inl (InvalidArgumentError ''ttl_seconds exceeds the maximum supported expiry'')
            else Inr ttl))"

text \<open>What an operation meets: Raft as it reads it, the clock, the future of its proposal.\<close>

record service_env =
  sv_view :: raft_view
  sv_now :: time
  sv_future :: apply_future

definition ensureLeader :: "raft_view \<Rightarrow> Node \<Rightarrow> goerr option" where
  "ensureLeader rv n =
     (if IsLeader rv then None else Some (NotLeaderError (GetLeaderGRPCAddress rv n)))"

definition Service_CreateLease :: "'d codec \<Rightarrow> service_env \<Rightarrow> Node \<Rightarrow> string \<Rightarrow> int64 \<Rightarrow>
    ((goerr + CreateLeaseResponse) \<times> Node) go" where
  "Service_CreateLease c env n ownerID ttlSeconds =
     (case ensureLeader (sv_view env) n of
        Some err \<Rightarrow> Ret (Inl err, n)
      | None \<Rightarrow>
          if ownerID = '''' then Ret (Inl (InvalidArgumentError ''owner_id required''), n)
          else
            (case leaseTTLDuration ttlSeconds (sv_now env) of
               Inl err \<Rightarrow> Ret (Inl err, n)
             | Inr ttl \<Rightarrow>
                 (case Node_Apply c (sv_future env) n (NewCreateLeaseCmd ownerID ttl (sv_now env)) of
                    Panic \<Rightarrow> Panic
                  | Ret (r, n') \<Rightarrow> Ret (as_typed isCreateLeaseResponse r, n'))))"

definition Service_RenewLease :: "'d codec \<Rightarrow> raft_view \<Rightarrow> 'd renew_env \<Rightarrow> Node \<Rightarrow> uint64 \<Rightarrow>
    ((goerr + duration) \<times> Node) go" where
  "Service_RenewLease c rv env n leaseID =
     (case ensureLeader rv n of
        Some err \<Rightarrow> Ret (Inl err, n)
      | None \<Rightarrow> RenewLease c env n leaseID)"

section \<open>Locks\<close>

definition heldBy :: "Node \<Rightarrow> string \<Rightarrow> uint64 \<Rightarrow> bool go" where
  "heldBy n lockName leaseID =
     (case GetLock (node_fsm n) lockName of
        Panic \<Rightarrow> Panic
      | Ret None \<Rightarrow> Ret False
      | Ret (Some lock) \<Rightarrow> Ret (Lock_LeaseID lock = leaseID))"

definition heldByOther :: "Node \<Rightarrow> string \<Rightarrow> uint64 \<Rightarrow> bool go" where
  "heldByOther n lockName leaseID =
     (case GetLock (node_fsm n) lockName of
        Panic \<Rightarrow> Panic
      | Ret None \<Rightarrow> Ret False
      | Ret (Some lock) \<Rightarrow> Ret (Lock_LeaseID lock \<noteq> leaseID))"

definition acquire :: "'d codec \<Rightarrow> service_env \<Rightarrow> Node \<Rightarrow> string \<Rightarrow> string \<Rightarrow> uint64 \<Rightarrow>
    ((goerr + AcquireLockResponse) \<times> Node) go" where
  "acquire c env n lockName ownerID leaseID =
     (case CheckLeaseAlive (rv_term (sv_view env)) (sv_now env) n leaseID of
        Panic \<Rightarrow> Panic
      | Ret (Some err, n1) \<Rightarrow> Ret (Inl err, n1)
      | Ret (None, n1) \<Rightarrow>
          (case Node_Apply c (sv_future env) n1 (NewAcquireLockCmd lockName ownerID leaseID) of
             Panic \<Rightarrow> Panic
           | Ret (r, n2) \<Rightarrow> Ret (as_typed isAcquireLockResponse r, n2)))"

text \<open>
  One round of the waiting loop: what other goroutines do to the node before the checks
  and before the \<open>select\<close>, the environment of an attempt, and the case that is taken.
\<close>

datatype select_case = ReadySignal | RecheckTick raft_view | WaitTimeout | ContextDone

record wait_round =
  wr_before :: "Node \<Rightarrow> Node"
  wr_env :: service_env
  wr_meanwhile :: "Node \<Rightarrow> Node"
  wr_select :: select_case

text \<open>Whether the waiter tries now: it is the head and the lock does not look taken.\<close>

definition mayTry :: "Node \<Rightarrow> LockWaiter \<Rightarrow> string \<Rightarrow> uint64 \<Rightarrow> bool go" where
  "mayTry n waiter lockName leaseID =
     (if IsHead (node_lockQueues n) waiter
      then case heldByOther n lockName leaseID of Panic \<Rightarrow> Panic | Ret b \<Rightarrow> Ret (\<not> b)
      else Ret False)"

text \<open>A round ends the loop, goes on to the next, or blocks on a signal that is not there.\<close>

datatype loop_step = Return "goerr + AcquireLockResponse" Node | Again Node | Blocked

definition selectStep :: "LockWaiter \<Rightarrow> wait_round \<Rightarrow> Node \<Rightarrow> loop_step" where
  "selectStep waiter r n0 =
     (let n = wr_meanwhile r n0 in
      case wr_select r of
        ReadySignal \<Rightarrow>
          (case receiveReady (node_lockQueues n) waiter of
             None \<Rightarrow> Blocked
           | Some q \<Rightarrow> Again (n\<lparr>node_lockQueues := q\<rparr>))
      | RecheckTick rv \<Rightarrow>
          (case ensureLeader rv n of Some err \<Rightarrow> Return (Inl err) n | None \<Rightarrow> Again n)
      | WaitTimeout \<Rightarrow> Return (Inl (Sentinel ErrLockAlreadyHeld)) n
      | ContextDone \<Rightarrow> Return (Inl (Sentinel ErrLockAlreadyHeld)) n)"

definition waitRound :: "'d codec \<Rightarrow> LockWaiter \<Rightarrow> string \<Rightarrow> string \<Rightarrow> uint64 \<Rightarrow> wait_round \<Rightarrow> Node \<Rightarrow> loop_step go" where
  "waitRound c waiter lockName ownerID leaseID r n =
     (let n1 = wr_before r n in
      case mayTry n1 waiter lockName leaseID of
        Panic \<Rightarrow> Panic
      | Ret False \<Rightarrow> Ret (selectStep waiter r n1)
      | Ret True \<Rightarrow>
          (case acquire c (wr_env r) n1 lockName ownerID leaseID of
             Panic \<Rightarrow> Panic
           | Ret (Inr resp, n2) \<Rightarrow> Ret (Return (Inr resp) n2)
           | Ret (Inl err, n2) \<Rightarrow>
               Ret (if errors_Is err ErrLockAlreadyHeld then selectStep waiter r n2
                    else Return (Inl err) n2)))"

text \<open>
  The loop, \<open>None\<close> while it is still waiting when the rounds end. The waiter leaves its
  queue on every return.
\<close>

fun waitLoop :: "'d codec \<Rightarrow> LockWaiter \<Rightarrow> string \<Rightarrow> string \<Rightarrow> uint64 \<Rightarrow> wait_round list \<Rightarrow> Node \<Rightarrow>
    ((goerr + AcquireLockResponse) \<times> Node) option go" where
  "waitLoop c waiter lockName ownerID leaseID [] n = Ret None"
| "waitLoop c waiter lockName ownerID leaseID (r # rs) n =
     (case waitRound c waiter lockName ownerID leaseID r n of
        Panic \<Rightarrow> Panic
      | Ret Blocked \<Rightarrow> Ret None
      | Ret (Again n') \<Rightarrow> waitLoop c waiter lockName ownerID leaseID rs n'
      | Ret (Return result n') \<Rightarrow>
          Ret (Some (result, n'\<lparr>node_lockQueues := Leave (node_lockQueues n') waiter\<rparr>)))"

definition Service_AcquireLock :: "'d codec \<Rightarrow> service_env \<Rightarrow> wait_round list \<Rightarrow> Node \<Rightarrow> string \<Rightarrow> string \<Rightarrow>
    uint64 \<Rightarrow> bool \<Rightarrow> ((goerr + AcquireLockResponse) \<times> Node) option go" where
  "Service_AcquireLock c env rounds n lockName ownerID leaseID wait =
     (case ensureLeader (sv_view env) n of
        Some err \<Rightarrow> Ret (Some (Inl err, n))
      | None \<Rightarrow>
          if ownerID = '''' \<or> lockName = ''''
          then Ret (Some (Inl (InvalidArgumentError ''owner_id, lock_name and lease_id are required''), n))
          else if \<not> wait then
            (case (if LockHasWaiters (node_lockQueues n) lockName
                   then heldBy n lockName leaseID else Ret True) of
               Panic \<Rightarrow> Panic
             | Ret False \<Rightarrow> Ret (Some (Inl (Sentinel ErrLockAlreadyHeld), n))
             | Ret True \<Rightarrow>
                 (case acquire c env n lockName ownerID leaseID of
                    Panic \<Rightarrow> Panic | Ret result \<Rightarrow> Ret (Some result)))
          else
            (case JoinLockQueue (node_lockQueues n) lockName of
               (waiter, q) \<Rightarrow>
                 waitLoop c waiter lockName ownerID leaseID rounds (n\<lparr>node_lockQueues := q\<rparr>)))"

definition Service_ReleaseLock :: "'d codec \<Rightarrow> service_env \<Rightarrow> Node \<Rightarrow> string \<Rightarrow> uint64 \<Rightarrow>
    (goerr option \<times> Node) go" where
  "Service_ReleaseLock c env n lockName leaseID =
     (case ensureLeader (sv_view env) n of
        Some err \<Rightarrow> Ret (Some err, n)
      | None \<Rightarrow>
          if lockName = '''' then Ret (Some (InvalidArgumentError ''lock_name required''), n)
          else
            (case Node_Apply c (sv_future env) n (NewReleaseLockCmd lockName leaseID) of
               Panic \<Rightarrow> Panic
             | Ret (Inl err, n') \<Rightarrow> Ret (Some err, n')
             | Ret (Inr r, n') \<Rightarrow> Ret (None, n')))"

section \<open>Status and membership\<close>

record StatusResult =
  Status_NodeID :: string
  Status_IsLeader :: bool
  Status_LeaderGRPCAddress :: string
  Status_State :: raft_state
  Status_GRPCAddress :: string
  Status_Members :: "ClusterMember list"
  Status_Stats :: Stats

definition Service_Status :: "raft_view \<Rightarrow> Node \<Rightarrow> StatusResult" where
  "Service_Status rv n =
     \<lparr>Status_NodeID = Cfg_NodeID (node_cfg n), Status_IsLeader = IsLeader rv,
      Status_LeaderGRPCAddress = GetLeaderGRPCAddress rv n, Status_State = rv_state rv,
      Status_GRPCAddress = Member_GRPCAddress (SelfMember n), Status_Members = Members rv n,
      Status_Stats = FSM_Stats (node_fsm n)\<rparr>"

definition Service_JoinNode :: "'d codec \<Rightarrow> raft_view \<Rightarrow> raft_error option \<Rightarrow> apply_future \<Rightarrow> Node \<Rightarrow>
    ClusterMember \<Rightarrow> ((goerr + string) \<times> raft_call list \<times> Node) go" where
  "Service_JoinNode c rv addFuture future n member =
     (case ensureLeader rv n of
        Some err \<Rightarrow> Ret (Inl err, [], n)
      | None \<Rightarrow>
          (case AddClusterMember c rv addFuture future n member of
             Panic \<Rightarrow> Panic
           | Ret (Some err, calls, n') \<Rightarrow> Ret (Inl err, calls, n')
           | Ret (None, calls, n') \<Rightarrow> Ret (Inr (GetLeaderGRPCAddress rv n'), calls, n')))"

definition Service_RemoveNode :: "'d codec \<Rightarrow> raft_view \<Rightarrow> raft_error option \<Rightarrow> apply_future \<Rightarrow> Node \<Rightarrow>
    string \<Rightarrow> (goerr option \<times> raft_call list \<times> Node) go" where
  "Service_RemoveNode c rv removeFuture future n nodeID =
     (case ensureLeader rv n of
        Some err \<Rightarrow> Ret (Some err, [], n)
      | None \<Rightarrow>
          if nodeID = '''' then Ret (Some (InvalidArgumentError ''node_id required''), [], n)
          else RemoveClusterMember c rv removeFuture future n nodeID)"

section \<open>Lease creation\<close>

lemma sint_maxLeaseTTLSeconds: "sint maxLeaseTTLSeconds = 9223372036"
  by (simp add: maxLeaseTTLSeconds_def)

lemma sint_second [simp]: "sint second = 1000000000"
  by (simp add: second_def)

lemma leaseTTLDuration_eq:
  assumes "0 < now" and "now < 2 ^ 63"
  shows "(if 0 < sint s \<and> now + sint s * 1000000000 < 2 ^ 63
          then leaseTTLDuration s now = Inr (s * second) \<and> sint (s * second) = sint s * 1000000000
          else \<exists>msg. leaseTTLDuration s now = Inl (InvalidArgumentError msg))"
proof (cases "0 < sint s \<and> sint s \<le> 9223372036")
  case False
  then show ?thesis using assms by (auto simp: leaseTTLDuration_def sint_maxLeaseTTLSeconds)
next
  case True
  then have prod: "sint (s * second) = sint s * 1000000000"
    by (subst sint64_times) auto
  have now: "sint (unix_nano now) = now" using assms by (simp add: unix_nano_def sint64_of_int)
  have rest: "sint (max_int64 - unix_nano now) = 2 ^ 63 - 1 - now"
    using assms now by (subst sint64_minus) auto
  show ?thesis using True assms prod rest by (auto simp: leaseTTLDuration_def sint_maxLeaseTTLSeconds Let_def)
qed

lemma Node_Apply_done:
  assumes "codec_ok c" and "cd_marshal c cmd = Inr d" and "Apply (node_fsm n) (Some cmd) = Ret (r, f', freed)"
  shows "Node_Apply c ApplyDone n cmd =
    Ret (r, n\<lparr>node_fsm := f', node_lockQueues := runHook (Some wakeHead) freed (node_lockQueues n)\<rparr>)"
proof -
  have "cd_unmarshal c d = Inr cmd" using assms(1,2) by (simp add: codec_ok_def)
  then show ?thesis
    using assms(2,3) by (cases r) (simp_all add: Node_Apply_def applyEntry_def RaftFSM_Apply_def)
qed

lemma create_accepted:
  assumes "fsm_inv f" and "0 < sint ttl" and "0 < now" and "now + sint ttl < 2 ^ 63"
  shows "\<exists>f' l. Apply f (Some (NewCreateLeaseCmd ow ttl now)) =
      Ret (Inr (RespCreateLease \<lparr>CreateResp_LeaseID = nextLeaseID f, CreateResp_ExpiresAt = now + sint ttl,
        CreateResp_TTL = ttl\<rparr>), f', []) \<and>
    lease_at f' = (lease_at f)(nextLeaseID f \<mapsto> l) \<and> Lease_OwnerID l = ow \<and> Lease_TTL l = ttl"
proof -
  let ?c = "GetCreateLease (Some (NewCreateLeaseCmd ow ttl now))"
  have now: "sint (unix_nano now) = now" using assms(2-4) by (simp add: unix_nano_def sint64_of_int)
  have ok: "create_ok ?c" using assms by (simp add: create_ok_def now)
  have m: "map_ok (leases f)" by (rule wf_map_ok(2) [OF fsm_inv_wf [OF assms(1)]])
  show ?thesis
    using m by (simp add: Apply_def applyCreateLease_ok [OF ok] now)
      (rule exI [of _ "create_lease f ?c"], simp add: create_lease_def)
qed

text \<open>
  C31: Creating a lease through the service. On a leader whose proposal commits, with an
  owner and a clock in range: a positive TTL whose deadline is representable is accepted,
  the response carries the next lease identifier, the exact TTL and the exact deadline, and
  the lease is in the replicated state; any other TTL is an invalid argument and nothing is
  proposed. In no case does the state machine reject what the service let through.
\<close>
theorem service_create_lease:
  assumes "codec_ok c" and "\<And>cmd. \<exists>d. cd_marshal c cmd = Inr d" and "fsm_inv (node_fsm n)"
    and "IsLeader (sv_view env)" and "sv_future env = ApplyDone" and "owner \<noteq> []"
    and "0 < sv_now env" and "sv_now env < 2 ^ 63"
  shows "if 0 < sint s \<and> sv_now env + sint s * 1000000000 < 2 ^ 63
    then \<exists>n' l. Service_CreateLease c env n owner s =
        Ret (Inr \<lparr>CreateResp_LeaseID = nextLeaseID (node_fsm n),
                  CreateResp_ExpiresAt = sv_now env + sint s * 1000000000,
                  CreateResp_TTL = s * second\<rparr>, n') \<and>
      lease_at (node_fsm n') = (lease_at (node_fsm n))(nextLeaseID (node_fsm n) \<mapsto> l) \<and>
      Lease_OwnerID l = owner \<and> sint (Lease_TTL l) = sint s * 1000000000
    else \<exists>msg. Service_CreateLease c env n owner s = Ret (Inl (InvalidArgumentError msg), n)"
proof (cases "0 < sint s \<and> sv_now env + sint s * 1000000000 < 2 ^ 63")
  case False
  then obtain msg where "leaseTTLDuration s (sv_now env) = Inl (InvalidArgumentError msg)"
    using leaseTTLDuration_eq [OF assms(7,8), of s] by auto
  then show ?thesis using assms False by (auto simp: Service_CreateLease_def ensureLeader_def)
next
  case True
  then have ttl: "leaseTTLDuration s (sv_now env) = Inr (s * second)" "sint (s * second) = sint s * 1000000000"
    using leaseTTLDuration_eq [OF assms(7,8), of s] by auto
  obtain d where d: "cd_marshal c (NewCreateLeaseCmd owner (s * second) (sv_now env)) = Inr d"
    using assms(2) by blast
  obtain f' l where a: "Apply (node_fsm n) (Some (NewCreateLeaseCmd owner (s * second) (sv_now env))) =
      Ret (Inr (RespCreateLease \<lparr>CreateResp_LeaseID = nextLeaseID (node_fsm n),
        CreateResp_ExpiresAt = sv_now env + sint (s * second), CreateResp_TTL = s * second\<rparr>), f', [])"
      "lease_at f' = (lease_at (node_fsm n))(nextLeaseID (node_fsm n) \<mapsto> l)"
      "Lease_OwnerID l = owner" "Lease_TTL l = s * second"
    using create_accepted [OF assms(3), of "s * second" "sv_now env" owner] True ttl(2) assms(7) by auto
  let ?n = "n\<lparr>node_fsm := f', node_lockQueues := runHook (Some wakeHead) [] (node_lockQueues n)\<rparr>"
  have "Service_CreateLease c env n owner s =
      Ret (Inr \<lparr>CreateResp_LeaseID = nextLeaseID (node_fsm n),
                CreateResp_ExpiresAt = sv_now env + sint s * 1000000000, CreateResp_TTL = s * second\<rparr>, ?n)"
    using ttl assms(4-6) Node_Apply_done [OF assms(1) d a(1)]
    by (simp add: Service_CreateLease_def ensureLeader_def as_typed_def)
  moreover have "lease_at (node_fsm ?n) = (lease_at (node_fsm n))(nextLeaseID (node_fsm n) \<mapsto> l)"
    using a(2) by simp
  moreover have "sint (Lease_TTL l) = sint s * 1000000000" using a(4) ttl(2) by simp
  ultimately show ?thesis using True a(3) by (simp only: if_True simp_thms) blast
qed

theorem service_create_lease_witness:
  "\<exists>n' l. Service_CreateLease demo_codec \<lparr>sv_view = demo_view, sv_now = 1000, sv_future = ApplyDone\<rparr> demo_node ''b'' 30 =
      Ret (Inr \<lparr>CreateResp_LeaseID = 2, CreateResp_ExpiresAt = 30000001000, CreateResp_TTL = 30 * second\<rparr>, n') \<and>
    lease_at (node_fsm n') = (lease_at demo_fsm)(2 \<mapsto> l)"
proof -
  let ?env = "\<lparr>sv_view = demo_view, sv_now = 1000, sv_future = ApplyDone\<rparr>"
  have n: "node_fsm demo_node = demo_fsm" "nextLeaseID demo_fsm = 2" by (simp_all add: demo_node_def demo_fsm_def)
  have "\<exists>d. cd_marshal demo_codec cmd = Inr d" for cmd by (simp add: demo_codec_def)
  moreover have "IsLeader (sv_view ?env)" by (simp add: IsLeader_def demo_view_def)
  ultimately show ?thesis
    using service_create_lease [of demo_codec demo_node ?env "''b''" 30] demo_codec_ok demo_fsm_inv
    by (auto simp: n)
qed

section \<open>Followers\<close>

text \<open>
  C32: A node that is not the leader changes nothing: every mutating operation of the service
  is answered with a \<open>NotLeaderError\<close> that carries the leader's client address as this node
  knows it, before its arguments are looked at, and the node is left as it was.
\<close>
theorem followers_redirect:
  assumes "\<not> IsLeader (sv_view env)"
  shows "let hint = GetLeaderGRPCAddress (sv_view env) n in
    Service_CreateLease c env n owner ttl = Ret (Inl (NotLeaderError hint), n) \<and>
    Service_RenewLease c (sv_view env) renv n i = Ret (Inl (NotLeaderError hint), n) \<and>
    Service_AcquireLock c env rounds n name owner i wait = Ret (Some (Inl (NotLeaderError hint), n)) \<and>
    Service_ReleaseLock c env n name i = Ret (Some (NotLeaderError hint), n) \<and>
    Service_JoinNode c (sv_view env) e fut n member = Ret (Inl (NotLeaderError hint), [], n) \<and>
    Service_RemoveNode c (sv_view env) e fut n node = Ret (Some (NotLeaderError hint), [], n)"
  using assms
  by (simp add: Service_CreateLease_def Service_RenewLease_def Service_AcquireLock_def Service_ReleaseLock_def
      Service_JoinNode_def Service_RemoveNode_def ensureLeader_def Let_def)

theorem followers_redirect_witness:
  "\<not> IsLeader (demo_view\<lparr>rv_state := Follower\<rparr>) \<and>
   Service_ReleaseLock demo_codec \<lparr>sv_view = demo_view\<lparr>rv_state := Follower\<rparr>, sv_now = 1, sv_future = ApplyDone\<rparr>
     demo_node ''x'' 1 = Ret (Some (NotLeaderError ''h:2''), demo_node)"
proof -
  let ?env = "\<lparr>sv_view = demo_view\<lparr>rv_state := Follower\<rparr>, sv_now = 1, sv_future = ApplyDone\<rparr>"
  have "\<not> IsLeader (sv_view ?env)" by (simp add: IsLeader_def)
  moreover have "GetLeaderGRPCAddress (sv_view ?env) demo_node = ''h:2''"
    by (simp add: GetLeaderGRPCAddress_def GetLeaderID_def demo_view_def demo_node_def)
  ultimately show ?thesis using followers_redirect [of ?env demo_node demo_codec] by (simp add: Let_def)
qed

section \<open>Waiting\<close>

text \<open>The rest of the node keeps the queues well formed while a caller waits.\<close>

definition keeps_queues :: "wait_round \<Rightarrow> bool" where
  "keeps_queues r \<longleftrightarrow> (\<forall>n. queue_inv (node_lockQueues n) \<longrightarrow>
     queue_inv (node_lockQueues (wr_before r n)) \<and> queue_inv (node_lockQueues (wr_meanwhile r n)))"

lemma queue_inv_hook: "queue_inv q \<Longrightarrow> queue_inv (runHook (Some wakeHead) freed q)"
  unfolding runHook_def
  by (induction freed arbitrary: q) (auto simp: lockFreed_def lq.freed_invar)

lemma queue_inv_entry:
  "applyEntry c n d = Ret (v, n') \<Longrightarrow> queue_inv (node_lockQueues n) \<Longrightarrow> queue_inv (node_lockQueues n')"
  by (auto elim!: applyEntry_cases simp: queue_inv_hook)

lemma queue_inv_Node_Apply:
  "Node_Apply c future n cmd = Ret (r, n') \<Longrightarrow> queue_inv (node_lockQueues n) \<Longrightarrow> queue_inv (node_lockQueues n')"
  by (auto simp: Node_Apply_def dest: queue_inv_entry
      split: sum.splits apply_future.splits if_splits go.splits any_value.splits)

lemma CheckLeaseAlive_queues:
  "CheckLeaseAlive tm now n i = Ret (e, n') \<Longrightarrow>
     node_lockQueues n' = node_lockQueues n \<and> node_fsm n' = node_fsm n"
  by (auto simp: CheckLeaseAlive_def split: go.splits option.splits prod.splits)

lemma queue_inv_acquire:
  assumes "acquire c env n name owner i = Ret (r, n')" and "queue_inv (node_lockQueues n)"
  shows "queue_inv (node_lockQueues n')"
proof -
  obtain e n1 where check: "CheckLeaseAlive (rv_term (sv_view env)) (sv_now env) n i = Ret (e, n1)"
    using assms(1) by (auto simp: acquire_def split: go.splits)
  then have "queue_inv (node_lockQueues n1)" using CheckLeaseAlive_queues [OF check] assms(2) by simp
  then show ?thesis
    using assms(1) check queue_inv_Node_Apply
    by (auto simp: acquire_def split: option.splits go.splits prod.splits)
qed

lemma selectStep_queues:
  assumes "keeps_queues r" and "queue_inv (node_lockQueues n)"
  shows "case selectStep w r n of Again n' \<Rightarrow> queue_inv (node_lockQueues n')
    | Return res n' \<Rightarrow> queue_inv (node_lockQueues n') | Blocked \<Rightarrow> True"
  using assms lq.receive_invar
  by (auto simp: selectStep_def keeps_queues_def Let_def split: select_case.splits option.splits)

lemma waitRound_queues:
  assumes r: "keeps_queues r" and "queue_inv (node_lockQueues n)" and x: "waitRound c w name owner i r n = Ret x"
  shows "case x of Again n' \<Rightarrow> queue_inv (node_lockQueues n')
    | Return res n' \<Rightarrow> queue_inv (node_lockQueues n') | Blocked \<Rightarrow> True"
proof -
  let ?n = "wr_before r n"
  have inv: "queue_inv (node_lockQueues ?n)" using assms(1,2) by (simp add: keeps_queues_def)
  obtain b where b: "mayTry ?n w name i = Ret b"
    using x by (auto simp: waitRound_def Let_def split: go.splits)
  show ?thesis
  proof (cases b)
    case False
    then show ?thesis using x b selectStep_queues [OF r inv, of w] by (auto simp: waitRound_def Let_def)
  next
    case True
    then obtain res m where acq: "acquire c (wr_env r) ?n name owner i = Ret (res, m)"
      using x b by (auto simp: waitRound_def Let_def split: go.splits)
    have "queue_inv (node_lockQueues m)" by (rule queue_inv_acquire [OF acq inv])
    then show ?thesis
      using x b True acq selectStep_queues [OF r, of m w]
      by (cases res) (auto simp: waitRound_def Let_def split: if_splits)
  qed
qed

lemma waitLoop_leaves:
  assumes "waitLoop c w name owner i rounds n = Ret (Some (result, n'))"
    and "queue_inv (node_lockQueues n)" and "list_all keeps_queues rounds"
  shows "\<exists>q. queue_inv q \<and> node_lockQueues n' = Leave q w"
  using assms
proof (induction rounds arbitrary: n)
  case (Cons r rs)
  obtain x where x: "waitRound c w name owner i r n = Ret x"
    using Cons.prems(1) by (auto split: go.splits)
  note round = waitRound_queues [OF _ Cons.prems(2) x]
  show ?case
  proof (cases x)
    case (Again m)
    then have "queue_inv (node_lockQueues m)" using round Cons.prems(3) by simp
    then show ?thesis using Cons.IH [of m] Cons.prems(1,3) x Again by simp
  next
    case (Return res m)
    then have "queue_inv (node_lockQueues m)" using round Cons.prems(3) by simp
    then show ?thesis using Cons.prems(1) x Return by auto
  qed (use Cons.prems(1) x in simp)
qed simp

text \<open>
  C33: A waiting caller never stays in the queue: whenever a waiting acquisition returns,
  with the lock, with an error of its attempt, on a lost leadership, on its timeout or on
  the end of its context, its waiter is no longer queued, whatever the rest of the node did
  meanwhile.
\<close>
theorem waiter_leaves:
  assumes "queue_inv (node_lockQueues n)" and "list_all keeps_queues rounds"
    and "IsLeader (sv_view env)" and "owner \<noteq> []" and "name \<noteq> []"
    and "Service_AcquireLock c env rounds n name owner i True = Ret (Some (result, n'))"
  shows "queue_inv (node_lockQueues n') \<and>
    fst (JoinLockQueue (node_lockQueues n) name) \<notin> set (queueOf (node_lockQueues n') name)"
proof -
  obtain w q where join: "JoinLockQueue (node_lockQueues n) name = (w, q)" by fastforce
  have w: "W_lockName w = name" using lq.join_waiting [OF assms(1) join] by simp
  have q: "queue_inv (node_lockQueues (n\<lparr>node_lockQueues := q\<rparr>))" using lq.join_invar [OF assms(1) join] by simp
  have loop: "waitLoop c w name owner i rounds (n\<lparr>node_lockQueues := q\<rparr>) = Ret (Some (result, n'))"
    using assms(3-6) join by (simp add: Service_AcquireLock_def ensureLeader_def)
  obtain p where p: "queue_inv p" "node_lockQueues n' = Leave p w"
    using waitLoop_leaves [OF loop q assms(2)] by blast
  then show ?thesis
    using join lq.leave_invar [OF p(1)] lq.leave_waiting [OF p(1), of w] lq.invar_distinct [OF p(1), of name] w
    by simp
qed

definition demo_round :: wait_round where
  "demo_round = \<lparr>wr_before = (\<lambda>n. n), wr_env = \<lparr>sv_view = demo_view, sv_now = 90, sv_future = ApplyDone\<rparr>,
     wr_meanwhile = (\<lambda>n. n), wr_select = WaitTimeout\<rparr>"

theorem waiter_leaves_witness:
  "\<exists>result n'. Service_AcquireLock demo_codec (wr_env demo_round) [demo_round] demo_node ''y'' ''a'' 1 True =
      Ret (Some (result, n')) \<and> queue_inv (node_lockQueues n') \<and>
    fst (JoinLockQueue (node_lockQueues demo_node) ''y'') \<notin> set (queueOf (node_lockQueues n') ''y'')"
proof -
  have q: "queue_inv (node_lockQueues demo_node)" using queue_inv_new by (simp add: demo_node_def)
  have r: "list_all keeps_queues [demo_round]" by (simp add: keeps_queues_def demo_round_def)
  have l: "IsLeader (sv_view (wr_env demo_round))" by (simp add: demo_round_def IsLeader_def demo_view_def)
  obtain result n' where run:
    "Service_AcquireLock demo_codec (wr_env demo_round) [demo_round] demo_node ''y'' ''a'' 1 True = Ret (Some (result, n'))"
    by (simp add: Service_AcquireLock_def ensureLeader_def IsLeader_def demo_view_def demo_round_def
        JoinLockQueue_def demo_node_def newLockQueues_def queueOf_def waitRound_def mayTry_def IsHead_def
        heldByOther_def GetLock_def demo_fsm_def acquire_def CheckLeaseAlive_def GetLease_def tracker_eval
        Node_Apply_def demo_codec_def applyEntry_def RaftFSM_Apply_def Apply_def command_type_defs
        applyAcquireLock_def as_typed_def Let_def)
  show ?thesis using waiter_leaves [OF q r l _ _ run] run by simp
qed

end
