(* ===== verification/Lock_Waiting.thy ===== *)
theory Lock_Waiting
  imports Lock_Service
begin

text \<open>
  All callers that wait for locks on one node, together: the loop of \<open>AcquireLock\<close> in
  \<open>service.go\<close> cut at the points where its mutexes are taken, so that any two callers, the
  expiry loop and the application of committed entries interleave between the check for
  the head, the look at the lock, the attempt and the \<open>select\<close>. The property is that no
  wake-up is lost.
\<close>

section \<open>Callers and steps\<close>

text \<open>Where a caller is in its loop.\<close>

datatype phase =
    AtTop
  | SeenHead
  | Proposing
  | Selecting

text \<open>A caller has a waiter, a lease and a phase.\<close>

record wait_state =
  ws_node :: Node
  ws_callers :: "LockWaiter \<rightharpoonup> uint64 \<times> phase"

definition move :: "LockWaiter \<Rightarrow> uint64 \<Rightarrow> phase \<Rightarrow> wait_state \<Rightarrow> wait_state" where
  "move w lease ph s = s\<lparr>ws_callers := (ws_callers s)(w \<mapsto> (lease, ph))\<rparr>"

definition set_queues :: "lockQueues \<Rightarrow> Node \<Rightarrow> Node" where
  "set_queues q n = n\<lparr>node_lockQueues := q\<rparr>"

lemma set_queues_simps [simp]:
  "node_lockQueues (set_queues q n) = q" "node_fsm (set_queues q n) = node_fsm n"
  by (simp_all add: set_queues_def)

definition depart :: "LockWaiter \<Rightarrow> Node \<Rightarrow> wait_state \<Rightarrow> wait_state" where
  "depart w n s = \<lparr>ws_node = set_queues (Leave (node_lockQueues n) w) n, ws_callers = (ws_callers s)(w := None)\<rparr>"

inductive wait_step :: "'d codec \<Rightarrow> wait_state \<Rightarrow> wait_state \<Rightarrow> bool" for c where
  join: "JoinLockQueue (node_lockQueues (ws_node s)) name = (w, q) \<Longrightarrow>
    wait_step c s (move w lease AtTop (s\<lparr>ws_node := set_queues q (ws_node s)\<rparr>))"
| is_head: "ws_callers s w = Some (lease, AtTop) \<Longrightarrow> IsHead (node_lockQueues (ws_node s)) w \<Longrightarrow>
    wait_step c s (move w lease SeenHead s)"
| not_head: "ws_callers s w = Some (lease, AtTop) \<Longrightarrow> \<not> IsHead (node_lockQueues (ws_node s)) w \<Longrightarrow>
    wait_step c s (move w lease Selecting s)"
| looks_free: "ws_callers s w = Some (lease, SeenHead) \<Longrightarrow>
    heldByOther (ws_node s) (W_lockName w) lease = Ret False \<Longrightarrow> wait_step c s (move w lease Proposing s)"
| looks_held: "ws_callers s w = Some (lease, SeenHead) \<Longrightarrow>
    heldByOther (ws_node s) (W_lockName w) lease = Ret True \<Longrightarrow> wait_step c s (move w lease Selecting s)"
| refused: "ws_callers s w = Some (lease, Proposing) \<Longrightarrow>
    acquire c env (ws_node s) (W_lockName w) owner lease = Ret (Inl err, n) \<Longrightarrow>
    errors_Is err ErrLockAlreadyHeld \<Longrightarrow> wait_step c s (move w lease Selecting (s\<lparr>ws_node := n\<rparr>))"
| returned: "ws_callers s w = Some (lease, Proposing) \<Longrightarrow>
    acquire c env (ws_node s) (W_lockName w) owner lease = Ret (r, n) \<Longrightarrow> wait_step c s (depart w n s)"
| signal: "ws_callers s w = Some (lease, Selecting) \<Longrightarrow>
    receiveReady (node_lockQueues (ws_node s)) w = Some q \<Longrightarrow>
    wait_step c s (move w lease AtTop (s\<lparr>ws_node := set_queues q (ws_node s)\<rparr>))"
| recheck: "ws_callers s w = Some (lease, Selecting) \<Longrightarrow> wait_step c s (move w lease AtTop s)"
| give_up: "ws_callers s w = Some (lease, Selecting) \<Longrightarrow> wait_step c s (depart w (ws_node s) s)"
| entry: "applyEntry c (ws_node s) d = Ret (v, n) \<Longrightarrow> wait_step c s (s\<lparr>ws_node := n\<rparr>)"
| tracker: "wait_step c s (s\<lparr>ws_node := (ws_node s)\<lparr>node_leases := t\<rparr>\<rparr>)"

section \<open>What a command does to a held lock\<close>

lemma Apply_keeps_or_frees:
  assumes wf: "fsm_wf f" and step: "Apply f cmd = Ret (r, f', freed)"
  shows "fsm_wf f' \<and> (\<forall>n k. lock_at f n = Some k \<longrightarrow> lock_at f' n = Some k \<or> n \<in> set freed)"
  using step
proof (cases rule: Apply_cases)
  case create
  then show ?thesis
    using wf fsm_wf_create [OF wf]
    by (cases "create_ok (GetCreateLease cmd)")
      (auto simp: applyCreateLease_ok applyCreateLease_error lock_at_def)
next
  case acquire
  then show ?thesis
    using wf fsm_wf_acquire [OF wf] wf_map_ok(1) [OF wf]
    by (auto simp: applyAcquireLock_eq [OF wf] split: option.splits if_splits)
next
  case release
  then show ?thesis
    using wf wf_map_ok(1) [OF wf]
    by (auto simp: applyReleaseLock_eq [OF wf] fsm_wf_def split: option.splits if_splits)
next
  case expire
  then show ?thesis
    using wf fsm_wf_expire [OF wf] names_of_lease_iff [OF wf]
    by (auto simp: applyExpireLease_eq [OF wf] lock_at_expire [OF wf] split: option.splits if_splits)
next
  case upsert
  then show ?thesis using wf by (auto simp: applyUpsertEndpoint_def fsm_wf_def lock_at_def split: if_splits)
next
  case remove
  then show ?thesis using wf by (auto simp: applyRemoveEndpoint_def fsm_wf_def lock_at_def split: if_splits)
qed (use wf in auto)

section \<open>What the hook does to the queues\<close>

lemma hook_Cons: "runHook (Some wakeHead) (m # ns) q = runHook (Some wakeHead) ns (wakeHead m q)"
  by (simp add: runHook_def lockFreed_def)

lemma hook_waiting: "queue_inv q \<Longrightarrow> queueOf (runHook (Some wakeHead) ns q) = queueOf q"
  by (induction ns arbitrary: q) (simp_all add: hook_Cons lq.freed_invar lq.freed_waiting, simp add: runHook_def)

lemma hook_keeps_signals:
  fixes v :: LockWaiter
  shows "queue_inv q \<Longrightarrow> W_id v \<in> q_signalled q \<Longrightarrow> W_id v \<in> q_signalled (runHook (Some wakeHead) ns q)"
proof (induction ns arbitrary: q)
  case (Cons m ns)
  then show ?case
    using lq.freed_invar [of q m] lq.freed_keeps_signals [of q v m] by (simp add: hook_Cons)
qed (simp add: runHook_def)

lemma hook_signals:
  assumes "queue_inv q" and "n \<in> set ns" and "queueOf q n = v # vs"
  shows "W_id v \<in> q_signalled (runHook (Some wakeHead) ns q)"
  using assms
proof (induction ns arbitrary: q)
  case (Cons m ns)
  have inv: "queue_inv (wakeHead m q)" by (rule lq.freed_invar [OF Cons.prems(1)])
  show ?case
  proof (cases "n = m")
    case True
    then show ?thesis
      using hook_keeps_signals [OF inv] lq.freed_signals [OF Cons.prems(1,3)] by (simp add: hook_Cons)
  next
    case False
    then show ?thesis
      using Cons.IH [OF inv] Cons.prems lq.freed_waiting [OF Cons.prems(1)] by (simp add: hook_Cons)
  qed
qed simp

section \<open>Invariant\<close>

lemma IsHead_iff: "IsHead q w \<longleftrightarrow> (\<exists>ws. queueOf q (W_lockName w) = w # ws)"
  by (cases "queueOf q (W_lockName w)") (auto simp: IsHead_def Let_def)

text \<open>A caller in its \<open>select\<close> has a signal waiting, or another lease holds the lock.\<close>

definition covered :: "Node \<Rightarrow> LockWaiter \<Rightarrow> uint64 \<Rightarrow> bool" where
  "covered n w lease \<longleftrightarrow> W_id w \<in> q_signalled (node_lockQueues n) \<or>
     (\<exists>k. lock_at (node_fsm n) (W_lockName w) = Some k \<and> Lock_LeaseID k \<noteq> lease)"

definition caller_ok :: "Node \<Rightarrow> LockWaiter \<Rightarrow> uint64 \<times> phase \<Rightarrow> bool" where
  "caller_ok n w lp \<longleftrightarrow>
     (snd lp \<in> {SeenHead, Proposing} \<longrightarrow> IsHead (node_lockQueues n) w) \<and>
     (snd lp = Selecting \<and> IsHead (node_lockQueues n) w \<longrightarrow> covered n w (fst lp))"

definition wait_inv :: "wait_state \<Rightarrow> bool" where
  "wait_inv s \<longleftrightarrow> fsm_wf (node_fsm (ws_node s)) \<and> queue_inv (node_lockQueues (ws_node s)) \<and>
     (\<forall>w. ws_callers s w \<noteq> None \<longleftrightarrow> w \<in> set (queueOf (node_lockQueues (ws_node s)) (W_lockName w))) \<and>
     (\<forall>w lp. ws_callers s w = Some lp \<longrightarrow> caller_ok (ws_node s) w lp)"

text \<open>A change of the node that keeps the queues and uncovers no head.\<close>

definition calm :: "Node \<Rightarrow> Node \<Rightarrow> bool" where
  "calm n n' \<longleftrightarrow> fsm_wf (node_fsm n') \<and> queue_inv (node_lockQueues n') \<and>
     queueOf (node_lockQueues n') = queueOf (node_lockQueues n) \<and>
     (\<forall>w lease. IsHead (node_lockQueues n) w \<longrightarrow> covered n w lease \<longrightarrow> covered n' w lease)"

lemma calm_refl: "fsm_wf (node_fsm n) \<Longrightarrow> queue_inv (node_lockQueues n) \<Longrightarrow> calm n n"
  by (simp add: calm_def)

lemma IsHead_cong: "queueOf q' = queueOf q \<Longrightarrow> IsHead q' w = IsHead q w"
  by (simp add: IsHead_def)

lemma calm_wait_inv:
  assumes inv: "wait_inv s" and calm: "calm (ws_node s) n"
  shows "wait_inv (s\<lparr>ws_node := n\<rparr>)"
proof -
  have q: "queueOf (node_lockQueues n) = queueOf (node_lockQueues (ws_node s))" using calm by (simp add: calm_def)
  have "caller_ok n w lp" if "ws_callers s w = Some lp" for w lp
  proof -
    have "caller_ok (ws_node s) w lp" using inv that unfolding wait_inv_def by blast
    then show ?thesis using calm IsHead_cong [OF q, of w] by (auto simp: caller_ok_def calm_def)
  qed
  then show ?thesis using inv calm by (simp add: wait_inv_def calm_def)
qed

lemma calm_entry:
  assumes "applyEntry c n d = Ret (v, n')" and wf: "fsm_wf (node_fsm n)" and inv: "queue_inv (node_lockQueues n)"
  shows "calm n n'"
  using assms(1)
proof (cases rule: applyEntry_cases)
  case (bad msg)
  then show ?thesis using wf inv by (simp add: calm_def covered_def)
next
  case (good cmd r freed)
  note step = Apply_keeps_or_frees [OF wf good(2)]
  have "covered n' w lease" if "IsHead (node_lockQueues n) w" "covered n w lease" for w lease
  proof -
    obtain ws where ws: "queueOf (node_lockQueues n) (W_lockName w) = w # ws"
      using \<open>IsHead _ w\<close> by (auto simp: IsHead_iff)
    show ?thesis
    proof (cases "W_id w \<in> q_signalled (node_lockQueues n) \<or> W_lockName w \<in> set freed")
      case True
      then show ?thesis using hook_keeps_signals [OF inv, of w freed] hook_signals [OF inv _ ws] good(7)
        by (auto simp: covered_def)
    next
      case False
      then show ?thesis using that(2) step by (auto simp: covered_def)
    qed
  qed
  then show ?thesis
    using step good(7) queue_inv_hook [OF inv] hook_waiting [OF inv] by (simp add: calm_def)
qed

lemma calm_Node_Apply:
  assumes "Node_Apply c future n cmd = Ret (r, n')" and "fsm_wf (node_fsm n)" and "queue_inv (node_lockQueues n)"
  shows "calm n n'"
proof -
  have "n' = n \<or> (\<exists>d v. applyEntry c n d = Ret (v, n'))"
    using assms(1) by (auto simp: Node_Apply_def split: sum.splits apply_future.splits if_splits go.splits any_value.splits)
  then show ?thesis by (auto intro: calm_entry [OF _ assms(2,3)] calm_refl [OF assms(2,3)])
qed

lemma calm_acquire:
  assumes acq: "acquire c env n name owner lease = Ret (r, n')"
    and "fsm_wf (node_fsm n)" and "queue_inv (node_lockQueues n)"
  shows "calm n n'"
proof -
  obtain e n1 where check: "CheckLeaseAlive (rv_term (sv_view env)) (sv_now env) n lease = Ret (e, n1)"
    using acq by (auto simp: acquire_def split: go.splits)
  note same = CheckLeaseAlive_queues [OF check]
  have n1: "calm n n1" using assms(2,3) same by (simp add: calm_def covered_def)
  have "n' = n1 \<or> (\<exists>x. Node_Apply c (sv_future env) n1 (NewAcquireLockCmd name owner lease) = Ret (x, n'))"
    using acq check by (auto simp: acquire_def split: option.splits go.splits)
  then show ?thesis
  proof
    assume "\<exists>x. Node_Apply c (sv_future env) n1 (NewAcquireLockCmd name owner lease) = Ret (x, n')"
    then have "calm n1 n'" using calm_Node_Apply assms(2,3) same by metis
    then show ?thesis using n1 same by (auto simp: calm_def covered_def)
  qed (use n1 in simp)
qed

text \<open>An attempt that is refused as held found the lock with another lease.\<close>

lemma refused_covered:
  assumes acq: "acquire c env n name owner lease = Ret (Inl err, n')" and "errors_Is err ErrLockAlreadyHeld"
    and wf: "fsm_wf (node_fsm n)" and "codec_ok c"
  shows "\<exists>k. lock_at (node_fsm n') name = Some k \<and> Lock_LeaseID k \<noteq> lease"
proof -
  let ?cmd = "NewAcquireLockCmd name owner lease"
  obtain e n1 where check: "CheckLeaseAlive (rv_term (sv_view env)) (sv_now env) n lease = Ret (e, n1)"
    using acq by (auto simp: acquire_def split: go.splits)
  have err: "unwrap_all err = Sentinel ErrLockAlreadyHeld" using assms(2) by (simp add: errors_Is_def)
  have "e = None"
    using acq check err
    by (auto simp: acquire_def CheckLeaseAlive_def split: option.splits go.splits if_splits prod.splits)
  then obtain r where r: "Node_Apply c (sv_future env) n1 ?cmd = Ret (r, n')" "as_typed isAcquireLockResponse r = Inl err"
    using acq check by (auto simp: acquire_def split: go.splits)
  have "r = Inl err" using r(2) err by (auto simp: as_typed_def split: sum.splits option.splits)
  then obtain d where d: "cd_marshal c ?cmd = Inr d" "applyEntry c n1 d = Ret (AnyError err, n')"
    using r(1) err
    by (auto simp: Node_Apply_def split: sum.splits apply_future.splits go.splits any_value.splits if_splits)
  then have "cd_unmarshal c d = Inr ?cmd" using assms(4) by (simp add: codec_ok_def)
  with d(2) obtain x freed where a: "Apply (node_fsm n1) (Some ?cmd) = Ret (x, node_fsm n', freed)" "x = Inl err"
    by (auto elim!: applyEntry_cases split: sum.splits)
  have wf1: "fsm_wf (node_fsm n1)" using CheckLeaseAlive_queues [OF check] wf by simp
  have "applyAcquireLock (node_fsm n1) (GetAcquireLock (Some ?cmd)) = Ret (Inl err, node_fsm n', freed)"
    using a by (simp add: Apply_def command_type_defs)
  then show ?thesis
    using err by (auto simp: applyAcquireLock_eq [OF wf1] split: option.splits if_splits)
qed

lemma heldByOther_eq:
  "fsm_wf (node_fsm n) \<Longrightarrow> heldByOther n name lease = Ret b \<Longrightarrow>
     b = (\<exists>k. lock_at (node_fsm n) name = Some k \<and> Lock_LeaseID k \<noteq> lease)"
  by (auto simp: heldByOther_def GetLock_def view_iffs split: option.splits)

lemma wait_invD:
  assumes "wait_inv s"
  shows "fsm_wf (node_fsm (ws_node s))" "queue_inv (node_lockQueues (ws_node s))"
    "ws_callers s w \<noteq> None \<longleftrightarrow> w \<in> set (queueOf (node_lockQueues (ws_node s)) (W_lockName w))"
    "ws_callers s w = Some lp \<Longrightarrow> caller_ok (ws_node s) w lp"
  using assms unfolding wait_inv_def by blast+

lemma wait_invI:
  assumes "fsm_wf (node_fsm (ws_node s))" and "queue_inv (node_lockQueues (ws_node s))"
    and "\<And>w. ws_callers s w \<noteq> None \<longleftrightarrow> w \<in> set (queueOf (node_lockQueues (ws_node s)) (W_lockName w))"
    and "\<And>w lp. ws_callers s w = Some lp \<Longrightarrow> caller_ok (ws_node s) w lp"
  shows "wait_inv s"
  using assms unfolding wait_inv_def by blast

lemma wait_inv_move:
  assumes inv: "wait_inv s" and here: "ws_callers s w \<noteq> None" and ok: "caller_ok (ws_node s) w (lease, ph)"
  shows "wait_inv (move w lease ph s)"
proof (rule wait_invI)
  show "fsm_wf (node_fsm (ws_node (move w lease ph s)))" "queue_inv (node_lockQueues (ws_node (move w lease ph s)))"
    using wait_invD(1,2) [OF inv] by (simp_all add: move_def)
  show "ws_callers (move w lease ph s) v \<noteq> None \<longleftrightarrow>
      v \<in> set (queueOf (node_lockQueues (ws_node (move w lease ph s))) (W_lockName v))" for v
    using wait_invD(3) [OF inv, of v] here by (auto simp: move_def)
  show "caller_ok (ws_node (move w lease ph s)) v lp" if "ws_callers (move w lease ph s) v = Some lp" for v lp
    using that ok wait_invD(4) [OF inv, of v lp] by (auto simp: move_def split: if_splits)
qed

lemma wait_inv_join:
  assumes inv: "wait_inv s" and join: "JoinLockQueue (node_lockQueues (ws_node s)) name = (w, q)"
  shows "wait_inv (move w lease AtTop (s\<lparr>ws_node := set_queues q (ws_node s)\<rparr>))" (is "wait_inv ?s")
proof (rule wait_invI)
  note old = wait_invD(1,2) [OF inv]
  note j = lq.join_waiting [OF old(2) join]
  have node: "ws_node ?s = set_queues q (ws_node s)" "node_lockQueues (ws_node ?s) = q"
      "node_fsm (ws_node ?s) = node_fsm (ws_node s)" by (simp_all add: move_def set_queues_def)
  show "fsm_wf (node_fsm (ws_node ?s))" "queue_inv (node_lockQueues (ws_node ?s))"
    using old(1) lq.join_invar [OF old(2) join] by (simp_all add: node)
  show "ws_callers ?s v \<noteq> None \<longleftrightarrow> v \<in> set (queueOf (node_lockQueues (ws_node ?s)) (W_lockName v))" for v
    unfolding node using wait_invD(3) [OF inv, of v] j by (auto simp: move_def)
  show "caller_ok (ws_node ?s) v lp" if "ws_callers ?s v = Some lp" for v lp
  proof (cases "v = w")
    case True
    then show ?thesis using that by (auto simp: move_def caller_ok_def)
  next
    case False
    then have v: "ws_callers s v = Some lp" using that by (simp add: move_def)
    then have "v \<in> set (queueOf (node_lockQueues (ws_node s)) (W_lockName v))" using wait_invD(3) [OF inv, of v] by auto
    then have "IsHead q v = IsHead (node_lockQueues (ws_node s)) v"
      using j by (cases "queueOf (node_lockQueues (ws_node s)) (W_lockName v)") (auto simp: IsHead_iff)
    then show ?thesis
      using wait_invD(4) [OF inv v] lq.join_signalled [OF old(2) join, of v]
      by (auto simp: caller_ok_def covered_def node)
  qed
qed

lemma wait_inv_depart:
  assumes inv: "wait_inv (s\<lparr>ws_node := n\<rparr>)" and here: "ws_callers s w \<noteq> None"
  shows "wait_inv (depart w n s)" (is "wait_inv ?s")
proof (rule wait_invI)
  let ?q = "node_lockQueues n"
  have old: "fsm_wf (node_fsm n)" "queue_inv ?q" using wait_invD(1,2) [OF inv] by simp_all
  have dom: "ws_callers s v \<noteq> None \<longleftrightarrow> v \<in> set (queueOf ?q (W_lockName v))" for v
    using wait_invD(3) [OF inv, of v] by simp
  have node: "node_lockQueues (ws_node ?s) = Leave ?q w" "node_fsm (ws_node ?s) = node_fsm n"
    by (simp_all add: depart_def set_queues_def)
  note left = lq.leave_waiting [OF old(2), of w]
  show "fsm_wf (node_fsm (ws_node ?s))" "queue_inv (node_lockQueues (ws_node ?s))"
    using old lq.leave_invar by (simp_all add: node)
  show "ws_callers ?s v \<noteq> None \<longleftrightarrow> v \<in> set (queueOf (node_lockQueues (ws_node ?s)) (W_lockName v))" for v
    using dom [of v] lq.invar_distinct [OF old(2), of "W_lockName v"]
    by (cases "v = w") (auto simp: node left depart_def)
  show "caller_ok (ws_node ?s) v lp" if "ws_callers ?s v = Some lp" for v lp
  proof -
    have v: "v \<noteq> w" "ws_callers s v = Some lp" using that by (auto simp: depart_def split: if_splits)
    have ok: "caller_ok n v lp" using wait_invD(4) [OF inv, of v lp] v(2) by simp
    have keep: "IsHead ?q v \<Longrightarrow> IsHead (Leave ?q w) v" using v(1) by (auto simp: IsHead_iff left)
    have fresh: "IsHead (Leave ?q w) v \<Longrightarrow> IsHead ?q v \<or> W_id v \<in> q_signalled (Leave ?q w)"
      using lq.leave_head [OF old(2), of w "W_lockName v" v] by (auto simp: IsHead_iff)
    show ?thesis
      using ok keep fresh lq.leave_keeps_signals [OF old(2), of v w] by (auto simp: caller_ok_def covered_def node)
  qed
qed

lemma wait_inv_signal:
  assumes inv: "wait_inv s" and here: "ws_callers s w = Some (lease, Selecting)"
    and recv: "receiveReady (node_lockQueues (ws_node s)) w = Some q"
  shows "wait_inv (move w lease AtTop (s\<lparr>ws_node := set_queues q (ws_node s)\<rparr>))" (is "wait_inv ?s")
proof (rule wait_invI)
  note old = wait_invD(1,2) [OF inv]
  have node: "node_lockQueues (ws_node ?s) = q" "node_fsm (ws_node ?s) = node_fsm (ws_node s)"
    by (simp_all add: move_def set_queues_def)
  note same = lq.receive_waiting [OF old(2) recv]
  have w: "w \<in> set (queueOf (node_lockQueues (ws_node s)) (W_lockName w))"
    using wait_invD(3) [OF inv, of w] here by simp
  show "fsm_wf (node_fsm (ws_node ?s))" "queue_inv (node_lockQueues (ws_node ?s))"
    using old(1) lq.receive_invar [OF old(2) recv] by (simp_all add: node)
  show "ws_callers ?s v \<noteq> None \<longleftrightarrow> v \<in> set (queueOf (node_lockQueues (ws_node ?s)) (W_lockName v))" for v
    unfolding node same using wait_invD(3) [OF inv, of v] w by (auto simp: move_def)
  show "caller_ok (ws_node ?s) v lp" if "ws_callers ?s v = Some lp" for v lp
  proof (cases "v = w")
    case True
    then show ?thesis using that by (auto simp: move_def caller_ok_def)
  next
    case False
    then have v: "ws_callers s v = Some lp" using that by (simp add: move_def)
    then have "v \<in> set (queueOf (node_lockQueues (ws_node s)) (W_lockName v))" using wait_invD(3) [OF inv, of v] by auto
    then show ?thesis
      using wait_invD(4) [OF inv v] IsHead_cong [OF same, of v] False
        lq.receive_keeps_signals [OF old(2) recv w, of v "W_lockName v"]
      by (auto simp: caller_ok_def covered_def node)
  qed
qed

lemma wait_inv_step:
  assumes "wait_step c s s'" and inv: "wait_inv s" and "codec_ok c"
  shows "wait_inv s'"
  using assms(1)
proof cases
  case (join name w q lease)
  then show ?thesis using wait_inv_join [OF inv] by simp
next
  case (is_head w lease)
  then show ?thesis using wait_inv_move [OF inv] by (simp add: caller_ok_def)
next
  case (not_head w lease)
  then show ?thesis using wait_inv_move [OF inv] by (simp add: caller_ok_def)
next
  case (looks_free w lease)
  then show ?thesis using wait_inv_move [OF inv] wait_invD(4) [OF inv, of w] by (simp add: caller_ok_def)
next
  case (looks_held w lease)
  then show ?thesis
    using wait_inv_move [OF inv] heldByOther_eq [OF wait_invD(1) [OF inv]] by (simp add: caller_ok_def covered_def)
next
  case (refused w lease env owner err n)
  have "wait_inv (s\<lparr>ws_node := n\<rparr>)"
    using calm_wait_inv [OF inv] calm_acquire [OF refused(3) wait_invD(1,2) [OF inv]] by simp
  moreover have "covered n w lease"
    using refused_covered [OF refused(3,4) wait_invD(1) [OF inv] assms(3)] by (simp add: covered_def)
  ultimately show ?thesis using wait_inv_move [of "s\<lparr>ws_node := n\<rparr>"] refused by (simp add: caller_ok_def)
next
  case (returned w lease env owner r n)
  have "wait_inv (s\<lparr>ws_node := n\<rparr>)"
    using calm_wait_inv [OF inv] calm_acquire [OF returned(3) wait_invD(1,2) [OF inv]] by simp
  then show ?thesis using wait_inv_depart returned by simp
next
  case (signal w lease q)
  then show ?thesis using wait_inv_signal [OF inv] by simp
next
  case (recheck w lease)
  then show ?thesis using wait_inv_move [OF inv] by (simp add: caller_ok_def)
next
  case (give_up w lease)
  then show ?thesis using wait_inv_depart [of "ws_node s" s] inv by simp
next
  case (entry d v n)
  then show ?thesis using calm_wait_inv [OF inv calm_entry [OF entry(2) wait_invD(1,2) [OF inv]]] by simp
next
  case (tracker t)
  have "calm (ws_node s) ((ws_node s)\<lparr>node_leases := t\<rparr>)"
    using wait_invD(1,2) [OF inv] by (simp add: calm_def covered_def)
  then show ?thesis using calm_wait_inv [OF inv] tracker by simp
qed

text \<open>A node no caller waits on yet.\<close>

definition idle :: "Node \<Rightarrow> wait_state" where
  "idle n = \<lparr>ws_node = n, ws_callers = Map.empty\<rparr>"

lemma wait_inv_idle:
  "fsm_wf (node_fsm n) \<Longrightarrow> node_lockQueues n = newLockQueues \<Longrightarrow> wait_inv (idle n)"
  by (rule wait_invI) (simp_all add: idle_def queue_inv_new, simp add: newLockQueues_def queueOf_def)

lemma wait_inv_reachable:
  assumes "(wait_step c)\<^sup>*\<^sup>* (idle n) s" and "codec_ok c" and "fsm_wf (node_fsm n)"
    and "node_lockQueues n = newLockQueues"
  shows "wait_inv s"
  using assms(1)
proof (induction rule: rtranclp_induct)
  case base
  show ?case by (rule wait_inv_idle [OF assms(3,4)])
next
  case (step s s')
  show ?case by (rule wait_inv_step [OF step(2,3) assms(2)])
qed

section \<open>Properties\<close>

text \<open>
  C7: No wake-up is lost. However waiting callers, the expiry loop and committed entries
  interleave, the caller at the head of a queue is never left asleep next to a lock it
  could take: it is on its way to a check or an attempt, or a signal is waiting for it, or
  another lease holds the lock.
\<close>
theorem no_lost_wakeup:
  assumes "(wait_step c)\<^sup>*\<^sup>* (idle n) s" and "codec_ok c" and "fsm_wf (node_fsm n)"
    and "node_lockQueues n = newLockQueues"
    and "queueOf (node_lockQueues (ws_node s)) name = w # ws"
  shows "\<exists>lease ph. ws_callers s w = Some (lease, ph) \<and>
    (ph = Selecting \<longrightarrow> W_id w \<in> q_signalled (node_lockQueues (ws_node s)) \<or>
       (\<exists>k. lock_at (node_fsm (ws_node s)) name = Some k \<and> Lock_LeaseID k \<noteq> lease))"
proof -
  have inv: "wait_inv s" by (rule wait_inv_reachable [OF assms(1-4)])
  have name: "W_lockName w = name"
    using lq.invar_lock_of [OF wait_invD(2) [OF inv], of w name] assms(5) by simp
  have head: "IsHead (node_lockQueues (ws_node s)) w" using assms(5) name by (simp add: IsHead_iff)
  have "ws_callers s w \<noteq> None" using wait_invD(3) [OF inv, of w] assms(5) name by simp
  then obtain lease ph where w: "ws_callers s w = Some (lease, ph)" by auto
  have "ph = Selecting \<longrightarrow> covered (ws_node s) w lease"
    using wait_invD(4) [OF inv w] head by (simp add: caller_ok_def)
  then show ?thesis using w unfolding covered_def name by blast
qed

text \<open>
  Attempts follow the queue. In every reachable state a caller that proposes an
  acquisition is the head of its lock's queue, so at most one caller per lock spends a
  commit on it at any time.
\<close>
theorem one_proposer:
  assumes "(wait_step c)\<^sup>*\<^sup>* (idle n) s" and "codec_ok c" and "fsm_wf (node_fsm n)"
    and "node_lockQueues n = newLockQueues"
    and "ws_callers s w = Some (lease, Proposing)"
  shows "IsHead (node_lockQueues (ws_node s)) w \<and>
    (\<forall>v lease'. ws_callers s v = Some (lease', Proposing) \<longrightarrow> W_lockName v = W_lockName w \<longrightarrow> v = w)"
proof -
  have inv: "wait_inv s" by (rule wait_inv_reachable [OF assms(1-4)])
  have "IsHead (node_lockQueues (ws_node s)) v" if "ws_callers s v = Some (l, Proposing)" for v l
    using wait_invD(4) [OF inv that] by (simp add: caller_ok_def)
  note heads = this
  have "v = w" if "ws_callers s v = Some (l, Proposing)" "W_lockName v = W_lockName w" for v l
    using heads [OF that(1)] heads [OF assms(5)] that(2) unfolding IsHead_iff by (metis list.inject)
  then show ?thesis using heads [OF assms(5)] by blast
qed

text \<open>A caller that joins the queue of a lock and comes as far as its attempt, or its \<open>select\<close>.\<close>

definition demo_waiter :: "string \<Rightarrow> LockWaiter" where
  "demo_waiter name = \<lparr>W_id = 0, W_lockName = name\<rparr>"

definition demo_joined :: "string \<Rightarrow> phase \<Rightarrow> wait_state" where
  "demo_joined name ph =
     \<lparr>ws_node = set_queues (snd (JoinLockQueue newLockQueues name)) demo_node,
      ws_callers = [demo_waiter name \<mapsto> (2, ph)]\<rparr>"

lemma demo_ready:
  "codec_ok demo_codec" "fsm_wf (node_fsm demo_node)" "node_lockQueues demo_node = newLockQueues"
  using demo_codec_ok fsm_inv_wf [OF demo_fsm_inv] by (simp_all add: demo_node_def)

lemma demo_move: "move (demo_waiter name) 2 ph' (demo_joined name ph) = demo_joined name ph'"
  by (simp add: move_def demo_joined_def)

lemma demo_queue: "queueOf (node_lockQueues (ws_node (demo_joined name ph))) name = [demo_waiter name]"
  by (simp add: demo_joined_def demo_waiter_def JoinLockQueue_def newLockQueues_def queueOf_def Let_def)

lemma demo_seen: "(wait_step demo_codec)\<^sup>*\<^sup>* (idle demo_node) (demo_joined name SeenHead)"
proof -
  let ?q = "snd (JoinLockQueue newLockQueues name)"
  have "JoinLockQueue (node_lockQueues (ws_node (idle demo_node))) name = (demo_waiter name, ?q)"
    by (simp add: idle_def demo_ready JoinLockQueue_def demo_waiter_def newLockQueues_def Let_def)
  from wait_step.join [OF this, where lease = 2 and c = demo_codec]
  have 1: "wait_step demo_codec (idle demo_node) (demo_joined name AtTop)"
    by (simp add: move_def idle_def demo_joined_def)
  have "IsHead (node_lockQueues (ws_node (demo_joined name AtTop))) (demo_waiter name)"
    using demo_queue [of name AtTop] by (simp add: IsHead_iff demo_waiter_def)
  from wait_step.is_head [OF _ this, of 2 demo_codec]
  have "wait_step demo_codec (demo_joined name AtTop) (demo_joined name SeenHead)"
    by (simp only: demo_move) (simp add: demo_joined_def)
  with r_into_rtranclp [of "wait_step demo_codec", OF 1] show ?thesis by (rule rtranclp.rtrancl_into_rtrancl)
qed

theorem no_lost_wakeup_witness:
  "\<exists>s lease. (wait_step demo_codec)\<^sup>*\<^sup>* (idle demo_node) s \<and>
     ws_callers s (demo_waiter ''x'') = Some (lease, Selecting) \<and>
     (\<exists>k. lock_at (node_fsm (ws_node s)) ''x'' = Some k \<and> Lock_LeaseID k \<noteq> lease)"
proof -
  have held: "heldByOther (ws_node (demo_joined ''x'' SeenHead)) (W_lockName (demo_waiter ''x'')) 2 = Ret True"
    by (simp add: heldByOther_def GetLock_def demo_joined_def demo_node_def demo_fsm_def demo_waiter_def)
  from wait_step.looks_held [OF _ this, of demo_codec]
  have "wait_step demo_codec (demo_joined ''x'' SeenHead) (demo_joined ''x'' Selecting)"
    by (simp only: demo_move) (simp add: demo_joined_def)
  then have run: "(wait_step demo_codec)\<^sup>*\<^sup>* (idle demo_node) (demo_joined ''x'' Selecting)"
    by (rule rtranclp.rtrancl_into_rtrancl [OF demo_seen])
  have "0 \<notin> q_signalled (node_lockQueues (ws_node (demo_joined ''x'' Selecting)))"
    by (simp add: demo_joined_def JoinLockQueue_def newLockQueues_def Let_def)
  moreover have w: "ws_callers (demo_joined ''x'' Selecting) (demo_waiter ''x'') = Some (2, Selecting)"
    by (simp add: demo_joined_def)
  ultimately have "\<exists>k. lock_at (node_fsm (ws_node (demo_joined ''x'' Selecting))) ''x'' = Some k \<and> Lock_LeaseID k \<noteq> 2"
    using no_lost_wakeup [OF run demo_ready demo_queue] by (simp add: demo_waiter_def)
  then show ?thesis using run w by blast
qed

lemma one_proposer_witness:
  "\<exists>s. (wait_step demo_codec)\<^sup>*\<^sup>* (idle demo_node) s \<and>
     ws_callers s (demo_waiter ''y'') = Some (2, Proposing) \<and> IsHead (node_lockQueues (ws_node s)) (demo_waiter ''y'')"
proof -
  have free: "heldByOther (ws_node (demo_joined ''y'' SeenHead)) (W_lockName (demo_waiter ''y'')) 2 = Ret False"
    by (simp add: heldByOther_def GetLock_def demo_joined_def demo_node_def demo_fsm_def demo_waiter_def)
  from wait_step.looks_free [OF _ this, of demo_codec]
  have "wait_step demo_codec (demo_joined ''y'' SeenHead) (demo_joined ''y'' Proposing)"
    by (simp only: demo_move) (simp add: demo_joined_def)
  then have run: "(wait_step demo_codec)\<^sup>*\<^sup>* (idle demo_node) (demo_joined ''y'' Proposing)"
    by (rule rtranclp.rtrancl_into_rtrancl [OF demo_seen])
  have w: "ws_callers (demo_joined ''y'' Proposing) (demo_waiter ''y'') = Some (2, Proposing)"
    by (simp add: demo_joined_def)
  show ?thesis using one_proposer [OF run demo_ready w] run w by blast
qed

end
