(* ===== verification/Grpc_Server.thy ===== *)
theory Grpc_Server
  imports Lock_Service "HOL-Library.Signed_Division"
begin

text \<open>
  \<open>internal/transport\<close>: the gRPC server (\<open>grpcserver/server.go\<close>), which maps requests to
  service calls and errors to status codes, and the leader hint that a status carries
  (\<open>leaderhint/leaderhint.go\<close>). A status is what the gRPC library transmits: a code, a
  message and details. Messages of the public API are records; encoding them is the
  library's.
\<close>

section \<open>Status errors\<close>

datatype code =
    OK | Canceled | Unknown | InvalidArgument | DeadlineExceeded | NotFound | AlreadyExists | PermissionDenied
  | ResourceExhausted | FailedPrecondition | Aborted | OutOfRange | Unimplemented | Internal | Unavailable
  | DataLoss | Unauthenticated

datatype detail = LeaderHint string | OtherDetail

record status =
  st_code :: code
  st_message :: string
  st_details :: "detail list"

text \<open>An error as a gRPC caller sees it: a status, or an error that carries none.\<close>

datatype rpc_error = StatusError status | PlainError string

definition status_Code :: "rpc_error option \<Rightarrow> code" where
  "status_Code err = (case err of None \<Rightarrow> OK | Some (StatusError st) \<Rightarrow> st_code st | Some (PlainError _) \<Rightarrow> Unknown)"

text \<open>
  \<open>leaderhint.Error\<close>; \<open>attaches\<close> says for which address the library can encode the detail.
\<close>

definition leaderhint_Error :: "(string \<Rightarrow> bool) \<Rightarrow> string \<Rightarrow> rpc_error" where
  "leaderhint_Error attaches grpcAddress =
     (let st = \<lparr>st_code = Unavailable, st_message = ''not leader'', st_details = []\<rparr> in
      if grpcAddress = '''' then StatusError st
      else if \<not> attaches grpcAddress then StatusError st
      else StatusError (st\<lparr>st_details := [LeaderHint grpcAddress]\<rparr>))"

fun firstHint :: "detail list \<Rightarrow> string" where
  "firstHint [] = ''''"
| "firstHint (LeaderHint grpcAddress # ds) = (if grpcAddress \<noteq> '''' then grpcAddress else firstHint ds)"
| "firstHint (OtherDetail # ds) = firstHint ds"

definition FromError :: "rpc_error option \<Rightarrow> string" where
  "FromError err =
     (case err of
        None \<Rightarrow> ''''
      | Some (PlainError _) \<Rightarrow> ''''
      | Some (StatusError st) \<Rightarrow> firstHint (st_details st))"

section \<open>Error translation\<close>

text \<open>\<open>errors.As\<close> for the two error types of the service.\<close>

fun asInvalidArgument :: "goerr \<Rightarrow> string option" where
  "asInvalidArgument (InvalidArgumentError msg) = Some msg"
| "asInvalidArgument (Wrapped msg e) = asInvalidArgument e"
| "asInvalidArgument _ = None"

fun asNotLeader :: "goerr \<Rightarrow> string option" where
  "asNotLeader (NotLeaderError addr) = Some addr"
| "asNotLeader (Wrapped msg e) = asNotLeader e"
| "asNotLeader _ = None"

text \<open>
  What the transport takes from elsewhere: for which addresses the library can attach a
  hint, and the text \<open>err.Error()\<close> of an error, on which nothing branches.
\<close>

record transport =
  tp_attaches :: "string \<Rightarrow> bool"
  tp_text :: "goerr \<Rightarrow> string"

definition status_Error :: "code \<Rightarrow> string \<Rightarrow> rpc_error" where
  "status_Error cd msg = StatusError \<lparr>st_code = cd, st_message = msg, st_details = []\<rparr>"

text \<open>\<open>toGRPCError\<close> of an error; of nil, which no handler passes, it is nil.\<close>

definition toGRPCError :: "transport \<Rightarrow> goerr \<Rightarrow> rpc_error" where
  "toGRPCError tp err =
     (let text = tp_text tp err in
      case asInvalidArgument err of
        Some msg \<Rightarrow> status_Error InvalidArgument msg
      | None \<Rightarrow>
      case asNotLeader err of
        Some addr \<Rightarrow> leaderhint_Error (tp_attaches tp) addr
      | None \<Rightarrow>
      if errors_Is_raft err ErrNotLeader \<or> errors_Is_raft err ErrLeadershipLost \<or>
         errors_Is_raft err ErrLeadershipTransferInProgress \<or> errors_Is_raft err ErrRaftShutdown
      then status_Error Unavailable text
      else if errors_Is err ErrLockAlreadyHeld then status_Error AlreadyExists text
      else if errors_Is err ErrLeaseNotFound \<or> errors_Is err ErrLockNotFound \<or> errors_Is err ErrNodeNotFound
      then status_Error NotFound text
      else if errors_Is err ErrLeaseExpired then status_Error FailedPrecondition text
      else if errors_Is err ErrInvalidLeaseTTL \<or> errors_Is err ErrInvalidTimestamp \<or> errors_Is err ErrInvalidClusterNode
      then status_Error InvalidArgument text
      else if errors_Is err ErrNotLockOwner then status_Error PermissionDenied text
      else status_Error Internal text)"

section \<open>Handlers\<close>

text \<open>Go's integer division, which truncates.\<close>

definition go_div :: "int64 \<Rightarrow> int64 \<Rightarrow> int64" where
  "go_div a b = word_of_int (sint a sdiv sint b)"

record Pb_CreateLeaseResponse =
  PbCreate_LeaseId :: uint64
  PbCreate_TtlSeconds :: int64

record Pb_AcquireLockResponse =
  PbAcquire_FencingToken :: uint64
  PbAcquire_LeaseTtlSeconds :: int64

record Pb_HeartbeatResponse =
  PbHeartbeat_LeaseId :: uint64
  PbHeartbeat_TtlSeconds :: int64

record Pb_ClusterMember =
  PbMember_NodeId :: string
  PbMember_RaftAddress :: string
  PbMember_GrpcAddress :: string

record Pb_GetStatusResponse =
  PbStatus_NodeId :: string
  PbStatus_IsLeader :: bool
  PbStatus_LeaderGrpcAddress :: string
  PbStatus_State :: raft_state
  PbStatus_GrpcAddress :: string
  PbStatus_Members :: "Pb_ClusterMember list"
  PbStatus_Leases :: "32 word"
  PbStatus_Locks :: "32 word"
  PbStatus_FencingCounter :: uint64

definition toProtoMembers :: "ClusterMember list \<Rightarrow> Pb_ClusterMember list" where
  "toProtoMembers members =
     map (\<lambda>member. \<lparr>PbMember_NodeId = Member_NodeID member, PbMember_RaftAddress = Member_RaftAddress member,
                    PbMember_GrpcAddress = Member_GRPCAddress member\<rparr>) members"

definition Server_CreateLease :: "transport \<Rightarrow> 'd codec \<Rightarrow> service_env \<Rightarrow> Node \<Rightarrow> string \<Rightarrow> int64 \<Rightarrow>
    ((rpc_error + Pb_CreateLeaseResponse) \<times> Node) go" where
  "Server_CreateLease tp c env n ownerId ttlSeconds =
     (case Service_CreateLease c env n ownerId ttlSeconds of
        Panic \<Rightarrow> Panic
      | Ret (Inl err, n') \<Rightarrow> Ret (Inl (toGRPCError tp err), n')
      | Ret (Inr resp, n') \<Rightarrow>
          Ret (Inr \<lparr>PbCreate_LeaseId = CreateResp_LeaseID resp,
                    PbCreate_TtlSeconds = go_div (CreateResp_TTL resp) second\<rparr>, n'))"

definition Server_AcquireLock :: "transport \<Rightarrow> 'd codec \<Rightarrow> service_env \<Rightarrow> wait_round list \<Rightarrow> Node \<Rightarrow> string \<Rightarrow> string \<Rightarrow>
    uint64 \<Rightarrow> bool \<Rightarrow> ((rpc_error + Pb_AcquireLockResponse) \<times> Node) option go" where
  "Server_AcquireLock tp c env rounds n lockName ownerId leaseId wait =
     (case Service_AcquireLock c env rounds n lockName ownerId leaseId wait of
        Panic \<Rightarrow> Panic
      | Ret None \<Rightarrow> Ret None
      | Ret (Some (Inl err, n')) \<Rightarrow> Ret (Some (Inl (toGRPCError tp err), n'))
      | Ret (Some (Inr resp, n')) \<Rightarrow>
          Ret (Some (Inr \<lparr>PbAcquire_FencingToken = AcquireResp_FencingToken resp,
                          PbAcquire_LeaseTtlSeconds = go_div (AcquireResp_LeaseTTL resp) second\<rparr>, n')))"

definition Server_ReleaseLock :: "transport \<Rightarrow> 'd codec \<Rightarrow> service_env \<Rightarrow> Node \<Rightarrow> string \<Rightarrow> uint64 \<Rightarrow>
    ((rpc_error + bool) \<times> Node) go" where
  "Server_ReleaseLock tp c env n lockName leaseId =
     (case Service_ReleaseLock c env n lockName leaseId of
        Panic \<Rightarrow> Panic
      | Ret (Some err, n') \<Rightarrow> Ret (Inl (toGRPCError tp err), n')
      | Ret (None, n') \<Rightarrow> Ret (Inr True, n'))"

text \<open>
  One heartbeat stream: each round has what \<open>Recv\<close> yields, the node as other calls left it
  by then, what the renewal meets, and the error of \<open>Send\<close>, if any. The result is the error
  the stream ends with (\<open>Some None\<close> for a regular end, \<open>None\<close> while it is still open), the
  responses sent, and the node.
\<close>

datatype recv_result = RecvRequest uint64 | RecvEOF | RecvError rpc_error

record 'd heartbeat_round =
  hr_recv :: recv_result
  hr_before :: "Node \<Rightarrow> Node"
  hr_view :: raft_view
  hr_renew :: "'d renew_env"
  hr_send :: "rpc_error option"

fun Heartbeat :: "transport \<Rightarrow> 'd codec \<Rightarrow> 'd heartbeat_round list \<Rightarrow> Node \<Rightarrow>
    (rpc_error option option \<times> Pb_HeartbeatResponse list \<times> Node) go" where
  "Heartbeat tp c [] n = Ret (None, [], n)"
| "Heartbeat tp c (r # rs) n =
     (case hr_recv r of
        RecvEOF \<Rightarrow> Ret (Some None, [], n)
      | RecvError err \<Rightarrow> Ret (Some (Some err), [], n)
      | RecvRequest leaseId \<Rightarrow>
          (case Service_RenewLease c (hr_view r) (hr_renew r) (hr_before r n) leaseId of
             Panic \<Rightarrow> Panic
           | Ret (Inl err, n') \<Rightarrow> Ret (Some (Some (toGRPCError tp err)), [], n')
           | Ret (Inr ttl, n') \<Rightarrow>
               (case hr_send r of
                  Some err \<Rightarrow> Ret (Some (Some err), [], n')
                | None \<Rightarrow>
                    (case Heartbeat tp c rs n' of
                       Panic \<Rightarrow> Panic
                     | Ret (err, resps, n'') \<Rightarrow>
                         Ret (err, \<lparr>PbHeartbeat_LeaseId = leaseId,
                                    PbHeartbeat_TtlSeconds = go_div ttl second\<rparr> # resps, n'')))))"

definition GetStatus :: "raft_view \<Rightarrow> Node \<Rightarrow> Pb_GetStatusResponse" where
  "GetStatus rv n =
     (let resp = Service_Status rv n in
      \<lparr>PbStatus_NodeId = Status_NodeID resp, PbStatus_IsLeader = Status_IsLeader resp,
       PbStatus_LeaderGrpcAddress = Status_LeaderGRPCAddress resp, PbStatus_State = Status_State resp,
       PbStatus_GrpcAddress = Status_GRPCAddress resp, PbStatus_Members = toProtoMembers (Status_Members resp),
       PbStatus_Leases = of_nat (Stats_Leases (Status_Stats resp)),
       PbStatus_Locks = of_nat (Stats_Locks (Status_Stats resp)),
       PbStatus_FencingCounter = Stats_FencingCounter (Status_Stats resp)\<rparr>)"

definition Server_JoinNode :: "transport \<Rightarrow> 'd codec \<Rightarrow> raft_view \<Rightarrow> raft_error option \<Rightarrow> apply_future \<Rightarrow> Node \<Rightarrow>
    Pb_ClusterMember \<Rightarrow> ((rpc_error + bool \<times> string) \<times> raft_call list \<times> Node) go" where
  "Server_JoinNode tp c rv addFuture future n req =
     (case Service_JoinNode c rv addFuture future n
             \<lparr>Member_NodeID = PbMember_NodeId req, Member_RaftAddress = PbMember_RaftAddress req,
              Member_GRPCAddress = PbMember_GrpcAddress req\<rparr> of
        Panic \<Rightarrow> Panic
      | Ret (Inl err, calls, n') \<Rightarrow> Ret (Inl (toGRPCError tp err), calls, n')
      | Ret (Inr leaderAddr, calls, n') \<Rightarrow> Ret (Inr (True, leaderAddr), calls, n'))"

definition Server_RemoveNode :: "transport \<Rightarrow> 'd codec \<Rightarrow> raft_view \<Rightarrow> raft_error option \<Rightarrow> apply_future \<Rightarrow> Node \<Rightarrow>
    string \<Rightarrow> ((rpc_error + bool) \<times> raft_call list \<times> Node) go" where
  "Server_RemoveNode tp c rv removeFuture future n nodeId =
     (case Service_RemoveNode c rv removeFuture future n nodeId of
        Panic \<Rightarrow> Panic
      | Ret (Some err, calls, n') \<Rightarrow> Ret (Inl (toGRPCError tp err), calls, n')
      | Ret (None, calls, n') \<Rightarrow> Ret (Inr True, calls, n'))"

section \<open>What a caller can tell from a status\<close>

text \<open>Errors of a node that cannot serve now, though another one or a later call may.\<close>

definition leadership_errors :: "goerr set" where
  "leadership_errors = RaftError ` {ErrNotLeader, ErrLeadershipLost, ErrLeadershipTransferInProgress, ErrRaftShutdown}"

lemma as_core:
  "asInvalidArgument e = (case unwrap_all e of InvalidArgumentError msg \<Rightarrow> Some msg | _ \<Rightarrow> None)"
  "asNotLeader e = (case unwrap_all e of NotLeaderError addr \<Rightarrow> Some addr | _ \<Rightarrow> None)"
  by (induction e) auto

text \<open>The status by the innermost error.\<close>

lemma toGRPCError_core:
  "toGRPCError tp e =
     (let t = tp_text tp e in
      case unwrap_all e of
        InvalidArgumentError msg \<Rightarrow> status_Error InvalidArgument msg
      | NotLeaderError addr \<Rightarrow> leaderhint_Error (tp_attaches tp) addr
      | RaftError r \<Rightarrow> status_Error (if RaftError r \<in> leadership_errors then Unavailable else Internal) t
      | Sentinel ErrLockAlreadyHeld \<Rightarrow> status_Error AlreadyExists t
      | Sentinel ErrLeaseExpired \<Rightarrow> status_Error FailedPrecondition t
      | Sentinel ErrNotLockOwner \<Rightarrow> status_Error PermissionDenied t
      | Sentinel ErrUnknownCommand \<Rightarrow> status_Error Internal t
      | Sentinel s \<Rightarrow> status_Error (if s \<in> {ErrLeaseNotFound, ErrLockNotFound, ErrNodeNotFound} then NotFound
                                   else InvalidArgument) t
      | _ \<Rightarrow> status_Error Internal t)"
  by (auto simp: toGRPCError_def Let_def errors_Is_def errors_Is_raft_def leadership_errors_def as_core
      split: goerr.split sentinel.split)

lemma status_Code_simps [simp]:
  "status_Code (Some (status_Error cd msg)) = cd" "status_Code (Some (leaderhint_Error attaches a)) = Unavailable"
  "FromError (Some (status_Error cd msg)) = []"
  "FromError (Some (leaderhint_Error attaches a)) = (if attaches a then a else [])"
  by (auto simp: status_Code_def status_Error_def leaderhint_Error_def FromError_def Let_def)

lemma unwrap_all_core: "unwrap_all e \<noteq> Wrapped msg e'"
  by (induction e) auto

text \<open>
  C24: A caller can tell failures apart by the status alone. A held lock is the only error that
  becomes \<open>AlreadyExists\<close>, an expired lease the only one that becomes \<open>FailedPrecondition\<close>, a
  foreign lock the only one that becomes \<open>PermissionDenied\<close>; \<open>Unavailable\<close> is exactly the
  loss or absence of leadership; a leader hint that is read from the status is the address
  the service put into its \<open>NotLeaderError\<close>, and it is read whenever the address can be
  attached; and no error is reported as success.
\<close>

theorem errors_by_status:
  "(status_Code (Some (toGRPCError tp e)) = AlreadyExists \<longleftrightarrow> errors_Is e ErrLockAlreadyHeld) \<and>
   (status_Code (Some (toGRPCError tp e)) = FailedPrecondition \<longleftrightarrow> errors_Is e ErrLeaseExpired) \<and>
   (status_Code (Some (toGRPCError tp e)) = PermissionDenied \<longleftrightarrow> errors_Is e ErrNotLockOwner) \<and>
   (status_Code (Some (toGRPCError tp e)) = Unavailable \<longleftrightarrow> unwrap_all e \<in> leadership_errors \<union> range NotLeaderError) \<and>
   FromError (Some (toGRPCError tp e)) =
     (case unwrap_all e of NotLeaderError a \<Rightarrow> if tp_attaches tp a then a else [] | _ \<Rightarrow> []) \<and>
   status_Code (Some (toGRPCError tp e)) \<noteq> OK"
  unfolding toGRPCError_core errors_Is_def
  by (cases "unwrap_all e") (auto simp: leadership_errors_def Let_def unwrap_all_core split: sentinel.splits)

section \<open>Heartbeats\<close>

lemma go_div_seconds:
  assumes "0 \<le> sint s" and "sint s \<le> 9223372036"
  shows "go_div (s * second) second = s"
proof -
  have prod: "sint (s * second) = sint s * 1000000000" using assms by (subst sint64_times) auto
  have "sint s * 1000000000 sdiv 1000000000 = sint s"
    using assms by (cases "sint s = 0") (simp_all add: signed_divide_int_def sgn_mult)
  then show ?thesis by (simp add: go_div_def prod)
qed

text \<open>The renewal behind a response: the request of its round, answered by the node.\<close>

definition acknowledges :: "'d codec \<Rightarrow> 'd heartbeat_round \<Rightarrow> Node \<Rightarrow> Pb_HeartbeatResponse \<Rightarrow> Node \<Rightarrow> bool" where
  "acknowledges c r n resp n' \<longleftrightarrow> hr_recv r = RecvRequest (PbHeartbeat_LeaseId resp) \<and> IsLeader (hr_view r) \<and>
     (\<exists>ttl. RenewLease c (hr_renew r) (hr_before r n) (PbHeartbeat_LeaseId resp) = Ret (Inr ttl, n') \<and>
        PbHeartbeat_TtlSeconds resp = go_div ttl second)"

lemma Service_RenewLease_ok:
  "Service_RenewLease c rv env n i = Ret (Inr ttl, n') \<longleftrightarrow> IsLeader rv \<and> RenewLease c env n i = Ret (Inr ttl, n')"
  by (auto simp: Service_RenewLease_def ensureLeader_def)

text \<open>
  C23: A heartbeat response is an acknowledged renewal. The responses of a stream, in order, are
  the answers to its first requests; behind each one is a call of \<open>RenewLease\<close> on the leader
  for the lease of that request that succeeded with the TTL that is reported, and the
  stream goes on from the node that call left. No request is skipped: a stream that is
  still open has answered every request.
\<close>

theorem heartbeat_acknowledges:
  assumes "Heartbeat tp c rs n = Ret (err, resps, n')"
  shows "length resps \<le> length rs \<and>
    (\<exists>ns. length ns = Suc (length resps) \<and> ns ! 0 = n \<and>
       (\<forall>k < length resps. acknowledges c (rs ! k) (ns ! k) (resps ! k) (ns ! Suc k))) \<and>
    (err = None \<longrightarrow> length resps = length rs)"
  using assms
proof (induction rs arbitrary: n resps)
  case Nil
  then show ?case by (auto intro!: exI [of _ "[n]"])
next
  case (Cons r rs)
  show ?case
  proof (cases resps)
    case Nil
    then have "err \<noteq> None" using Cons.prems
      by (auto split: recv_result.splits go.splits prod.splits sum.splits option.splits)
    then show ?thesis using Nil by (auto intro!: exI [of _ "[n]"])
  next
    case resps: (Cons resp resps')
    then obtain i ttl n1 where r: "hr_recv r = RecvRequest i"
      "Service_RenewLease c (hr_view r) (hr_renew r) (hr_before r n) i = Ret (Inr ttl, n1)"
      "Heartbeat tp c rs n1 = Ret (err, resps', n')"
      "resp = \<lparr>PbHeartbeat_LeaseId = i, PbHeartbeat_TtlSeconds = go_div ttl second\<rparr>"
      using Cons.prems by (auto split: recv_result.splits go.splits prod.splits sum.splits option.splits)
    then have ack: "acknowledges c r n resp n1" by (auto simp: acknowledges_def Service_RenewLease_ok)
    obtain ns where ns: "length ns = Suc (length resps')" "ns ! 0 = n1"
      "\<forall>k < length resps'. acknowledges c (rs ! k) (ns ! k) (resps' ! k) (ns ! Suc k)"
      "length resps' \<le> length rs" "err = None \<longrightarrow> length resps' = length rs"
      using Cons.IH [OF r(3)] by blast
    have "\<forall>k < length resps. acknowledges c ((r # rs) ! k) ((n # ns) ! k) (resps ! k) ((n # ns) ! Suc k)"
      using ack ns(2,3) resps by (auto simp: nth_Cons split: nat.splits)
    then show ?thesis using ns resps by (auto intro!: exI [of _ "n # ns"])
  qed
qed

definition demo_transport :: transport where
  "demo_transport = \<lparr>tp_attaches = (\<lambda>a. True), tp_text = (\<lambda>e. [])\<rparr>"

definition demo_heartbeat :: "uint64 \<Rightarrow> CommandWrapper heartbeat_round" where
  "demo_heartbeat i = \<lparr>hr_recv = RecvRequest i, hr_before = (\<lambda>n. n), hr_view = demo_view,
     hr_renew = \<lparr>re_term = 1, re_barrier = None, re_pending = [], re_now = 90, re_verify = None\<rparr>, hr_send = None\<rparr>"

theorem heartbeat_acknowledges_witness:
  "\<exists>n' n''. Heartbeat demo_transport demo_codec [demo_heartbeat 1, demo_heartbeat 7] demo_node =
      Ret (Some (Some (toGRPCError demo_transport (Sentinel ErrLeaseNotFound))),
           [\<lparr>PbHeartbeat_LeaseId = 1, PbHeartbeat_TtlSeconds = 0\<rparr>], n') \<and>
    acknowledges demo_codec (demo_heartbeat 1) demo_node \<lparr>PbHeartbeat_LeaseId = 1, PbHeartbeat_TtlSeconds = 0\<rparr> n''"
proof -
  obtain n' where run: "Heartbeat demo_transport demo_codec [demo_heartbeat 1, demo_heartbeat 7] demo_node =
      Ret (Some (Some (toGRPCError demo_transport (Sentinel ErrLeaseNotFound))),
           [\<lparr>PbHeartbeat_LeaseId = 1, PbHeartbeat_TtlSeconds = 0\<rparr>], n')"
    by (simp add: demo_heartbeat_def Service_RenewLease_def ensureLeader_def IsLeader_def demo_view_def RenewLease_def
        awaitTermApplied_def GetLease_def demo_node_def demo_fsm_def tracker_eval go_div_def second_def signed_divide_int_def)
  with heartbeat_acknowledges [OF run] show ?thesis by auto
qed

end
