(* ===== verification/Client_Resolver.thy ===== *)
theory Client_Resolver
  imports Grpc_Server
begin

text \<open>
  \<open>pkg/client/resolver.go\<close>: the addresses a client knows, its pool of connections, leader
  discovery, and the failover of calls. The network is a parameter: what dialling an
  address yields, and what a node answers to an attempt, given per iteration of a loop,
  together with what the context reports there. Addresses are ASCII strings.
\<close>

section \<open>Errors of the client\<close>

datatype client_err =
    CtxErr string
  | Rpc rpc_error
  | ErrLeaseUnavailable
  | ErrLockHeld
  | ClientError string
  | ClientWrapped string client_err

text \<open>\<open>status.Code\<close> and \<open>leaderhint.FromError\<close>, which look through wrappings for a status.\<close>

fun rpc_of :: "client_err \<Rightarrow> rpc_error" where
  "rpc_of (Rpc e) = e"
| "rpc_of (ClientWrapped msg e) = rpc_of e"
| "rpc_of _ = PlainError []"

abbreviation client_Code :: "client_err \<Rightarrow> code" where
  "client_Code e \<equiv> status_Code (Some (rpc_of e))"

abbreviation client_hint :: "client_err \<Rightarrow> string" where
  "client_hint e \<equiv> FromError (Some (rpc_of e))"

section \<open>Addresses\<close>

text \<open>A connection: the address it was dialled to, and a number that tells connections apart.\<close>

datatype conn = Conn (conn_addr: string) (conn_id: nat)

record resolver =
  r_seedAddrs :: "string list"
  r_currentAddr :: string
  r_conns :: "(string, conn) gomap"

definition newResolver :: "string list \<Rightarrow> resolver" where
  "newResolver seeds =
     \<lparr>r_seedAddrs = seeds, r_currentAddr = (if length seeds > 0 then seeds ! 0 else ''''), r_conns = []\<rparr>"

text \<open>\<open>strings.Split(s, ",")\<close> and \<open>strings.TrimSpace\<close> on ASCII.\<close>

fun splitComma :: "string \<Rightarrow> string list" where
  "splitComma [] = [[]]"
| "splitComma (ch # s) =
     (if ch = CHR '','' then [] # splitComma s
      else case splitComma s of [] \<Rightarrow> [[ch]] | part # parts \<Rightarrow> (ch # part) # parts)"

definition isSpace :: "char \<Rightarrow> bool" where
  "isSpace ch \<longleftrightarrow> ch \<in> {CHR '' '', CHR 0x09, CHR 0x0A, CHR 0x0B, CHR 0x0C, CHR 0x0D}"

definition TrimSpace :: "string \<Rightarrow> string" where
  "TrimSpace s = rev (dropWhile isSpace (rev (dropWhile isSpace s)))"

text \<open>The inner and the outer loop; \<open>seen\<close> holds exactly the addresses in \<open>normalized\<close>.\<close>

fun normalizeParts :: "string list \<Rightarrow> string list \<Rightarrow> string list" where
  "normalizeParts [] normalized = normalized"
| "normalizeParts (part # parts) normalized =
     (let trimmed = TrimSpace part in
      if trimmed = '''' \<or> trimmed \<in> set normalized then normalizeParts parts normalized
      else normalizeParts parts (normalized @ [trimmed]))"

fun normalizeAddrs :: "string list \<Rightarrow> string list \<Rightarrow> string list" where
  "normalizeAddrs [] normalized = normalized"
| "normalizeAddrs (addr # addrs) normalized = normalizeAddrs addrs (normalizeParts (splitComma addr) normalized)"

definition normalizeSeedAddrs :: "string list \<Rightarrow> string list" where
  "normalizeSeedAddrs addrs = normalizeAddrs addrs []"

definition current :: "resolver \<Rightarrow> string" where
  "current r = r_currentAddr r"

fun candidateLoop :: "string list \<Rightarrow> string list \<Rightarrow> string list" where
  "candidateLoop [] addrs = addrs"
| "candidateLoop (addr # seeds) addrs =
     (if addr \<in> set addrs then candidateLoop seeds addrs else candidateLoop seeds (addrs @ [addr]))"

definition candidateAddrs :: "resolver \<Rightarrow> string list" where
  "candidateAddrs r =
     candidateLoop (r_seedAddrs r) (if r_currentAddr r \<noteq> '''' then [r_currentAddr r] else [])"

definition rememberSeedLocked :: "resolver \<Rightarrow> string \<Rightarrow> resolver" where
  "rememberSeedLocked r addr =
     (if addr \<in> set (r_seedAddrs r) then r else r\<lparr>r_seedAddrs := r_seedAddrs r @ [addr]\<rparr>)"

definition rememberAddr :: "resolver \<Rightarrow> string \<Rightarrow> resolver" where
  "rememberAddr r addr =
     (if addr = '''' then r else rememberSeedLocked (r\<lparr>r_currentAddr := addr\<rparr>) addr)"

definition rememberSeed :: "resolver \<Rightarrow> string \<Rightarrow> resolver" where
  "rememberSeed r addr = (if addr = '''' then r else rememberSeedLocked r addr)"

definition rememberStatus :: "resolver \<Rightarrow> Pb_GetStatusResponse ptr \<Rightarrow> resolver" where
  "rememberStatus r p =
     (case p of
        None \<Rightarrow> r
      | Some resp \<Rightarrow>
          (let r1 = rememberSeed r (PbStatus_GrpcAddress resp);
               r2 = foldl (\<lambda>r member. rememberSeed r (PbMember_GrpcAddress member)) r1 (PbStatus_Members resp)
           in if PbStatus_LeaderGrpcAddress resp \<noteq> '''' then rememberAddr r2 (PbStatus_LeaderGrpcAddress resp)
              else if PbStatus_IsLeader resp \<and> PbStatus_GrpcAddress resp \<noteq> ''''
              then rememberAddr r2 (PbStatus_GrpcAddress resp)
              else r2))"

section \<open>Connections\<close>

text \<open>
  \<open>connFor\<close>: \<open>dial\<close> opens a connection outside the mutex, and \<open>meanwhile\<close> is what other
  callers do to the resolver before it is taken again. The last result lists the
  connections that were closed.
\<close>

definition connFor :: "(string \<Rightarrow> client_err + conn) \<Rightarrow> (resolver \<Rightarrow> resolver) \<Rightarrow> resolver \<Rightarrow> string \<Rightarrow>
    (client_err + conn) \<times> resolver \<times> conn list" where
  "connFor dial meanwhile r addr =
     (case mget (r_conns r) addr of
        Some conn \<Rightarrow> (Inr conn, r, [])
      | None \<Rightarrow>
          (let r1 = meanwhile r in
           case dial addr of
             Inl err \<Rightarrow> (Inl (ClientWrapped (''failed to connect to '' @ addr) err), r1, [])
           | Inr conn \<Rightarrow>
               (case mget (r_conns r1) addr of
                  Some existing \<Rightarrow> (Inr existing, r1, [conn])
                | None \<Rightarrow> (Inr conn, r1\<lparr>r_conns := mput addr conn (r_conns r1)\<rparr>, []))))"

text \<open>\<open>close\<close>: the pool is emptied; every connection is closed and the first error reported.\<close>

definition resolver_close :: "(conn \<Rightarrow> client_err option) \<Rightarrow> resolver \<Rightarrow> client_err option \<times> resolver \<times> conn list" where
  "resolver_close closeConn r =
     (let closed = map snd (r_conns r) in
      (foldl (\<lambda>firstErr conn. case firstErr of None \<Rightarrow> closeConn conn | Some e \<Rightarrow> Some e) None closed,
       r\<lparr>r_conns := []\<rparr>, closed))"

section \<open>Calls\<close>

text \<open>
  What one iteration of a loop meets: the error of its context, what dialling yields and
  what other callers do meanwhile, what the node behind a connection answers, and whether
  the attempt's own timeout had run out while the caller's context was still live.
\<close>

record 'a net =
  net_ctx :: "client_err option"
  net_dial :: "string \<Rightarrow> client_err + conn"
  net_meanwhile :: "resolver \<Rightarrow> resolver"
  net_call :: "conn \<Rightarrow> rpc_error + 'a"
  net_unresponsive :: bool

text \<open>
  \<open>tryCandidates\<close> from iteration \<open>k\<close>. Nothing bounds the addresses that hints name, so the
  loop is a partial function; the attempts per address are part of the result.
\<close>

partial_function (option) tryLoop :: "(nat \<Rightarrow> 'a net) \<Rightarrow> nat \<Rightarrow> string list \<Rightarrow> (string \<Rightarrow> nat) \<Rightarrow> client_err option \<Rightarrow>
    resolver \<Rightarrow> ((client_err + 'a) \<times> bool \<times> resolver \<times> (string \<Rightarrow> nat)) option" where
  "tryLoop net k queue attempts lastErr r =
     (case queue of
        [] \<Rightarrow> Some (Inl (case lastErr of None \<Rightarrow> ClientError ''all cluster addresses failed'' | Some e \<Rightarrow> e),
                   True, r, attempts)
      | addr # queue' \<Rightarrow>
          (case net_ctx (net k) of
             Some err \<Rightarrow> Some (Inl (case lastErr of None \<Rightarrow> err | Some e \<Rightarrow> e), False, r, attempts)
           | None \<Rightarrow>
               if addr = '''' \<or> attempts addr \<ge> 2 then tryLoop net (Suc k) queue' attempts lastErr r
               else
                 let attempts' = attempts(addr := Suc (attempts addr)) in
                 (case connFor (net_dial (net k)) (net_meanwhile (net k)) r addr of
                    (Inl err, r', closed) \<Rightarrow> tryLoop net (Suc k) queue' attempts' (Some err) r'
                  | (Inr conn, r', closed) \<Rightarrow>
                      (case net_call (net k) conn of
                         Inr resp \<Rightarrow> Some (Inr resp, False, rememberAddr r' addr, attempts')
                       | Inl err \<Rightarrow>
                           let leaderAddr = FromError (Some err) in
                           if leaderAddr \<noteq> ''''
                           then tryLoop net (Suc k) (leaderAddr # queue') attempts' (Some (Rpc err)) (rememberAddr r' leaderAddr)
                           else if status_Code (Some err) \<noteq> Unavailable \<and> \<not> net_unresponsive (net k)
                           then Some (Inl (Rpc err), False, r', attempts')
                           else tryLoop net (Suc k) queue' attempts' (Some (Rpc err)) r'))))"

definition tryCandidates :: "(nat \<Rightarrow> 'a net) \<Rightarrow> resolver \<Rightarrow> ((client_err + 'a) \<times> bool \<times> resolver \<times> (string \<Rightarrow> nat)) option" where
  "tryCandidates net r = tryLoop net 0 (candidateAddrs r) (\<lambda>addr. 0) None r"

text \<open>
  \<open>callWithFailover\<close> on a clock: when the call starts, the deadline of its context, when each
  pass ends, and whether the context is cancelled in the wait after it. A context without
  a deadline gets one.
\<close>

definition ms :: "int \<Rightarrow> int" where
  "ms k = k * 1000000"

definition failoverBudget :: int where
  "failoverBudget = ms 10000"

record call_env =
  ce_start :: time
  ce_deadline :: "time option"
  ce_passEnd :: "nat \<Rightarrow> time"
  ce_cancelled :: "nat \<Rightarrow> bool"

definition ctxDeadline :: "call_env \<Rightarrow> time" where
  "ctxDeadline env = (case ce_deadline env of None \<Rightarrow> ce_start env + failoverBudget | Some d \<Rightarrow> d)"

partial_function (option) callLoop :: "call_env \<Rightarrow> (nat \<Rightarrow> nat \<Rightarrow> 'a net) \<Rightarrow> nat \<Rightarrow> int \<Rightarrow> resolver \<Rightarrow>
    ((client_err + 'a) \<times> resolver) option" where
  "callLoop env net p backoff r =
     (case tryCandidates (net p) r of
        None \<Rightarrow> None
      | Some (result, retry, r', attempts) \<Rightarrow>
          if \<not> retry then Some (result, r')
          else if ce_cancelled env p \<or> ctxDeadline env \<le> ce_passEnd env p + backoff then Some (result, r')
          else callLoop env net (Suc p) (min (2 * backoff) (ms 500)) r')"

definition callWithFailover :: "call_env \<Rightarrow> (nat \<Rightarrow> nat \<Rightarrow> 'a net) \<Rightarrow> resolver \<Rightarrow> ((client_err + 'a) \<times> resolver) option" where
  "callWithFailover env net r = callLoop env net 0 (ms 50) r"

text \<open>\<open>discoverLeader\<close>: one status call per candidate.\<close>

fun discoverLoop :: "(nat \<Rightarrow> Pb_GetStatusResponse net) \<Rightarrow> nat \<Rightarrow> string list \<Rightarrow> client_err option \<Rightarrow> resolver \<Rightarrow>
    (client_err + string) \<times> resolver" where
  "discoverLoop net k [] lastErr r =
     (Inl (ClientWrapped ''discover leader''
        (case lastErr of None \<Rightarrow> ClientError ''no reachable cluster nodes'' | Some e \<Rightarrow> e)), r)"
| "discoverLoop net k (addr # addrs) lastErr r =
     (case connFor (net_dial (net k)) (net_meanwhile (net k)) r addr of
        (Inl err, r', closed) \<Rightarrow> discoverLoop net (Suc k) addrs (Some err) r'
      | (Inr conn, r', closed) \<Rightarrow>
          (case net_call (net k) conn of
             Inl err \<Rightarrow>
               (let leaderAddr = FromError (Some err) in
                if leaderAddr \<noteq> '''' then (Inr leaderAddr, rememberAddr r' leaderAddr)
                else discoverLoop net (Suc k) addrs (Some (Rpc err)) r')
           | Inr resp \<Rightarrow>
               (let r'' = rememberStatus r' (Some resp) in
                if PbStatus_LeaderGrpcAddress resp \<noteq> '''' then (Inr (PbStatus_LeaderGrpcAddress resp), r'')
                else if PbStatus_IsLeader resp \<and> PbStatus_GrpcAddress resp \<noteq> ''''
                then (Inr (PbStatus_GrpcAddress resp), r'')
                else discoverLoop net (Suc k) addrs lastErr r'')))"

definition discoverLeader :: "(nat \<Rightarrow> Pb_GetStatusResponse net) \<Rightarrow> resolver \<Rightarrow> (client_err + string) \<times> resolver" where
  "discoverLeader net r = discoverLoop net 0 (candidateAddrs r) None r"

section \<open>Invariant\<close>

text \<open>
  No address is known twice, none is empty, the current one is among the known, and every
  pooled connection goes to the address it is kept under.
\<close>

definition resolver_ok :: "resolver \<Rightarrow> bool" where
  "resolver_ok r \<longleftrightarrow> distinct (r_seedAddrs r) \<and> [] \<notin> set (r_seedAddrs r) \<and>
     (r_currentAddr r = [] \<or> r_currentAddr r \<in> set (r_seedAddrs r)) \<and>
     map_ok (r_conns r) \<and> (\<forall>a c. mget (r_conns r) a = Some c \<longrightarrow> conn_addr c = a)"

text \<open>The documented behaviour of dialling, and that other callers keep the invariant too.\<close>

definition net_ok :: "'a net \<Rightarrow> bool" where
  "net_ok e \<longleftrightarrow> (\<forall>a c. net_dial e a = Inr c \<longrightarrow> conn_addr c = a) \<and>
     (\<forall>r. resolver_ok r \<longrightarrow> resolver_ok (net_meanwhile e r))"

lemma remember_ok [simp, intro]:
  "resolver_ok r \<Longrightarrow> resolver_ok (rememberAddr r a)" "resolver_ok r \<Longrightarrow> resolver_ok (rememberSeed r a)"
  by (auto simp: resolver_ok_def rememberAddr_def rememberSeed_def rememberSeedLocked_def)

lemma foldl_rememberSeed_ok: "resolver_ok r \<Longrightarrow> resolver_ok (foldl (\<lambda>r m. rememberSeed r (f m)) r members)"
  by (induction members arbitrary: r) auto

lemma rememberStatus_ok: "resolver_ok r \<Longrightarrow> resolver_ok (rememberStatus r p)"
  by (auto simp: rememberStatus_def Let_def foldl_rememberSeed_ok split: option.splits)

lemma pool_ok:
  "resolver_ok r \<Longrightarrow> conn_addr c = a \<Longrightarrow> resolver_ok (r\<lparr>r_conns := mput a c (r_conns r)\<rparr>)"
  by (simp add: resolver_ok_def)

lemma resolver_ok_conn: "resolver_ok r \<Longrightarrow> mget (r_conns r) a = Some c \<Longrightarrow> conn_addr c = a"
  by (simp add: resolver_ok_def)

lemma connFor_ok:
  assumes "resolver_ok r" and "net_ok e" and run: "connFor (net_dial e) (net_meanwhile e) r a = (res, r', closed)"
  shows "resolver_ok r'" and "res = Inr c \<Longrightarrow> conn_addr c = a \<and> mget (r_conns r') a = Some c"
proof -
  have m: "resolver_ok (net_meanwhile e r)" "\<And>c. net_dial e a = Inr c \<Longrightarrow> conn_addr c = a"
    using assms(1,2) by (auto simp: net_ok_def)
  show "resolver_ok r'"
    using run assms(1) m by (auto simp: connFor_def Let_def pool_ok split: option.splits sum.splits)
  show "res = Inr c \<Longrightarrow> conn_addr c = a \<and> mget (r_conns r') a = Some c"
    using run resolver_ok_conn [OF assms(1)] resolver_ok_conn [OF m(1)] m(2)
    by (auto simp: connFor_def Let_def update_conv' split: option.splits sum.splits)
qed

lemma tryLoop_unfold:
  "tryLoop net k [] attempts lastErr r =
     Some (Inl (case lastErr of None \<Rightarrow> ClientError ''all cluster addresses failed'' | Some e \<Rightarrow> e), True, r, attempts)"
  "net_ctx (net k) = Some err \<Longrightarrow> tryLoop net k (addr # queue) attempts lastErr r =
     Some (Inl (case lastErr of None \<Rightarrow> err | Some e \<Rightarrow> e), False, r, attempts)"
  "net_ctx (net k) = None \<Longrightarrow> addr = [] \<or> attempts addr \<ge> 2 \<Longrightarrow>
     tryLoop net k (addr # queue) attempts lastErr r = tryLoop net (Suc k) queue attempts lastErr r"
  by (subst tryLoop.simps, simp)
    (subst tryLoop.simps, simp, subst (1) tryLoop.simps, simp)

lemma tryLoop_attempt:
  assumes "net_ctx (net k) = None" and "addr \<noteq> []" and "attempts addr < 2"
    and "connFor (net_dial (net k)) (net_meanwhile (net k)) r addr = (res, r', closed)"
  shows "tryLoop net k (addr # queue) attempts lastErr r =
    (let attempts' = attempts(addr := Suc (attempts addr)) in
     case res of
       Inl err \<Rightarrow> tryLoop net (Suc k) queue attempts' (Some err) r'
     | Inr conn \<Rightarrow>
         (case net_call (net k) conn of
            Inr resp \<Rightarrow> Some (Inr resp, False, rememberAddr r' addr, attempts')
          | Inl err \<Rightarrow>
              if FromError (Some err) \<noteq> []
              then tryLoop net (Suc k) (FromError (Some err) # queue) attempts' (Some (Rpc err))
                     (rememberAddr r' (FromError (Some err)))
              else if status_Code (Some err) \<noteq> Unavailable \<and> \<not> net_unresponsive (net k)
              then Some (Inl (Rpc err), False, r', attempts')
              else tryLoop net (Suc k) queue attempts' (Some (Rpc err)) r'))"
  using assms by (subst tryLoop.simps) (auto simp: Let_def split: sum.splits)

section \<open>Calls return\<close>

text \<open>All addresses of a resolver are among \<open>A\<close>.\<close>

definition knows :: "string set \<Rightarrow> resolver \<Rightarrow> bool" where
  "knows A r \<longleftrightarrow> set (r_seedAddrs r) \<subseteq> A \<and> r_currentAddr r \<in> insert [] A"

text \<open>Hints and other callers name addresses of \<open>A\<close> only.\<close>

definition net_within :: "string set \<Rightarrow> 'a net \<Rightarrow> bool" where
  "net_within A e \<longleftrightarrow> (\<forall>c err. net_call e c = Inl err \<longrightarrow> FromError (Some err) \<in> insert [] A) \<and>
     (\<forall>r. knows A r \<longrightarrow> knows A (net_meanwhile e r))"

lemma knows_remember: "knows A r \<Longrightarrow> a \<in> insert [] A \<Longrightarrow> knows A (rememberAddr r a)"
  by (auto simp: knows_def rememberAddr_def rememberSeedLocked_def)

lemma knows_connFor:
  assumes "knows A r" and "net_within A e" and "connFor (net_dial e) (net_meanwhile e) r a = (res, r', closed)"
  shows "knows A r'"
proof -
  have "knows A (net_meanwhile e r)" using assms(1,2) by (simp add: net_within_def)
  moreover have "knows A (s\<lparr>r_conns := m\<rparr>) = knows A s" for s m by (simp add: knows_def)
  ultimately show ?thesis
    using assms(1,3) by (auto simp: connFor_def Let_def split: option.splits sum.splits)
qed

lemma candidateLoop_set: "set (candidateLoop seeds addrs) = set seeds \<union> set addrs"
  by (induction seeds addrs rule: candidateLoop.induct) auto

lemma candidateLoop_distinct: "distinct addrs \<Longrightarrow> distinct (candidateLoop seeds addrs)"
  by (induction seeds addrs rule: candidateLoop.induct) auto

lemma set_candidateAddrs: "set (candidateAddrs r) = set (r_seedAddrs r) \<union> ({r_currentAddr r} - {[]})"
  by (auto simp: candidateAddrs_def candidateLoop_set)

text \<open>What is left to do: entries of the queue, and attempts not yet made.\<close>

definition left :: "string set \<Rightarrow> string list \<Rightarrow> (string \<Rightarrow> nat) \<Rightarrow> nat" where
  "left A queue attempts = length queue + (\<Sum>a\<in>A. 2 - attempts a)"

lemma left_attempt:
  assumes "finite A" and "a \<in> A" and "attempts a < 2"
  shows "left A (x # queue) (attempts(a := Suc (attempts a))) < left A (a # queue) attempts"
    and "left A queue (attempts(a := Suc (attempts a))) < left A (a # queue) attempts"
proof -
  have "(\<Sum>b\<in>A. 2 - (attempts(a := Suc (attempts a))) b) < (\<Sum>b\<in>A. 2 - attempts b)"
    using assms by (intro sum_strict_mono_ex1) auto
  then show "left A (x # queue) (attempts(a := Suc (attempts a))) < left A (a # queue) attempts"
    "left A queue (attempts(a := Suc (attempts a))) < left A (a # queue) attempts"
    by (auto simp: left_def)
qed

text \<open>A pass that returned: no address had more than two attempts.\<close>

definition passed :: "string set \<Rightarrow> ((client_err + 'a) \<times> bool \<times> resolver \<times> (string \<Rightarrow> nat)) option \<Rightarrow> bool" where
  "passed A out \<longleftrightarrow> (\<exists>res retry r' attempts'. out = Some (res, retry, r', attempts') \<and>
     (\<forall>a. attempts' a \<le> 2) \<and> knows A r')"

lemma passedI: "\<forall>a. attempts' a \<le> 2 \<Longrightarrow> knows A r' \<Longrightarrow> passed A (Some (res, retry, r', attempts'))"
  by (simp add: passed_def)

lemma tryLoop_returns:
  assumes "finite A" and "\<And>k. net_within A (net k)"
    and "set queue \<subseteq> insert [] A" and "\<forall>a. attempts a \<le> 2" and "knows A r"
  shows "passed A (tryLoop net k queue attempts lastErr r)"
  using assms(3-)
proof (induction "left A queue attempts" arbitrary: k queue attempts lastErr r rule: less_induct)
  case less
  show ?case
  proof (cases queue)
    case Nil
    show ?thesis unfolding Nil tryLoop_unfold(1) by (rule passedI [OF less.prems(2,3)])
  next
    case (Cons addr queue')
    consider (ctx) err where "net_ctx (net k) = Some err"
      | (skip) "net_ctx (net k) = None" "addr = [] \<or> attempts addr \<ge> 2"
      | (go) "net_ctx (net k) = None" "addr \<noteq> []" "attempts addr < 2"
      by fastforce
    then show ?thesis
    proof cases
      case ctx
      show ?thesis unfolding Cons tryLoop_unfold(2) [of net k, OF ctx] by (rule passedI [OF less.prems(2,3)])
    next
      case skip
      have "left A queue' attempts < left A queue attempts" by (simp add: left_def Cons)
      moreover have "set queue' \<subseteq> insert [] A" using less.prems(1) Cons by auto
      ultimately have "passed A (tryLoop net (Suc k) queue' attempts lastErr r)"
        using less.hyps less.prems(2,3) by blast
      then show ?thesis unfolding Cons tryLoop_unfold(3) [of net k addr attempts, OF skip] .
    next
      case go
      obtain res r' closed where conn: "connFor (net_dial (net k)) (net_meanwhile (net k)) r addr = (res, r', closed)"
        by (metis prod_cases3)
      have addr: "addr \<in> A" using less.prems(1) Cons go(2) by auto
      have r': "knows A r'" by (rule knows_connFor [OF less.prems(3) assms(2) conn])
      let ?att = "attempts(addr := Suc (attempts addr))"
      have att: "\<forall>a. ?att a \<le> 2" using less.prems(2) go(3) by auto
      have q: "set queue' \<subseteq> insert [] A" using less.prems(1) Cons by auto
      have next_pass: "passed A (tryLoop net (Suc k) queue' ?att e r')" for e
        by (rule less.hyps [OF _ q att r']) (simp only: Cons left_attempt(2) [of A addr attempts, OF assms(1) addr go(3)])
      have redirect: "passed A (tryLoop net (Suc k) (h # queue') ?att e (rememberAddr r' h))" if "h \<in> insert [] A" for h e
        by (rule less.hyps [OF _ _ att knows_remember [OF r' that]])
          (simp_all only: Cons left_attempt(1) [of A addr attempts, OF assms(1) addr go(3)] list.set insert_subset that q simp_thms)
      have hint: "FromError (Some err) \<in> insert [] A" if "net_call (net k) c = Inl err" for c err
        using assms(2) [of k] that by (auto simp: net_within_def)
      have found: "passed A (Some (res, retry, rememberAddr r' addr, ?att))"
        "passed A (Some (res, retry, r', ?att))" for res :: "client_err + 'a" and retry
        by (rule passedI [OF att knows_remember [OF r']], simp add: addr) (rule passedI [OF att r'])
      show ?thesis
        unfolding Cons tryLoop_attempt [of net k addr attempts r res r' closed queue' lastErr, OF go conn] Let_def
      proof (cases res)
        case (Inr c)
        show "passed A (case res of Inl err \<Rightarrow> tryLoop net (Suc k) queue' ?att (Some err) r'
            | Inr conn \<Rightarrow> (case net_call (net k) conn of Inr resp \<Rightarrow> Some (Inr resp, False, rememberAddr r' addr, ?att)
              | Inl err \<Rightarrow> if FromError (Some err) \<noteq> []
                  then tryLoop net (Suc k) (FromError (Some err) # queue') ?att (Some (Rpc err)) (rememberAddr r' (FromError (Some err)))
                  else if status_Code (Some err) \<noteq> Unavailable \<and> \<not> net_unresponsive (net k)
                  then Some (Inl (Rpc err), False, r', ?att)
                  else tryLoop net (Suc k) queue' ?att (Some (Rpc err)) r'))"
        proof (cases "net_call (net k) c")
          case (Inl err)
          show ?thesis
            unfolding Inr Inl sum.case by (simp only: next_pass found redirect [OF hint [OF Inl]] split: if_split) simp
        qed (simp only: Inr found sum.case)
      qed (simp add: next_pass)
    qed
  qed
qed

text \<open>The timer between two passes runs for at least its first setting.\<close>

definition clock_runs :: "call_env \<Rightarrow> bool" where
  "clock_runs env \<longleftrightarrow> (\<forall>p. ce_passEnd env p + ms 50 \<le> ce_passEnd env (Suc p))"

lemma callLoop_returns:
  assumes "finite A" and "\<And>p k. net_within A (net p k)" and "clock_runs env"
    and "knows A r" and "ms 50 \<le> backoff"
  shows "\<exists>res r'. callLoop env net p backoff r = Some (res, r') \<and> knows A r'"
  using assms(4-)
proof (induction "nat (ctxDeadline env - ce_passEnd env p)" arbitrary: p backoff r rule: less_induct)
  case less
  have "passed A (tryCandidates (net p) r)"
    unfolding tryCandidates_def
    by (rule tryLoop_returns [OF assms(1,2) _ _ less.prems(1)])
      (use less.prems(1) in \<open>auto simp: set_candidateAddrs knows_def\<close>)
  then obtain res retry r' att where pass: "tryCandidates (net p) r = Some (res, retry, r', att)" "knows A r'"
    by (auto simp: passed_def)
  show ?case
  proof (cases "retry \<and> \<not> ce_cancelled env p \<and> ce_passEnd env p + backoff < ctxDeadline env")
    case True
    have "ce_passEnd env p + ms 50 \<le> ce_passEnd env (Suc p)" using assms(3) by (simp add: clock_runs_def)
    then have "nat (ctxDeadline env - ce_passEnd env (Suc p)) < nat (ctxDeadline env - ce_passEnd env p)"
      using True less.prems(2) by (simp add: ms_def)
    moreover have "ms 50 \<le> min (2 * backoff) (ms 500)" using less.prems(2) by (simp add: ms_def)
    ultimately show ?thesis
      using less.hyps [of "Suc p" r' "min (2 * backoff) (ms 500)"] pass True by (subst callLoop.simps) simp
  next
    case False
    then show ?thesis using pass by (subst callLoop.simps) auto
  qed
qed

text \<open>
  C9: A call of the client always returns. Whatever the nodes answer, as long as the redirects
  name addresses of some finite set, \<open>callWithFailover\<close> ends with a response or an error: a
  pass makes at most two attempts per address however nodes redirect to each other, and
  the context's deadline, the caller's or the ten seconds a call without one gets, ends
  the passes.
\<close>

theorem failover_returns:
  assumes "finite A" and "\<And>p k. net_within A (net p k)" and "clock_runs env" and "knows A r"
  shows "(\<exists>result r'. callWithFailover env net r = Some (result, r')) \<and>
    (\<exists>result retry r' attempts. tryCandidates (net 0) r = Some (result, retry, r', attempts) \<and> (\<forall>a. attempts a \<le> 2))"
proof -
  have "passed A (tryCandidates (net 0) r)"
    unfolding tryCandidates_def
    by (rule tryLoop_returns [OF assms(1,2) _ _ assms(4)]) (use assms(4) in \<open>auto simp: set_candidateAddrs knows_def\<close>)
  then show ?thesis
    using callLoop_returns [of A net env r "ms 50" 0, OF assms] by (auto simp: callWithFailover_def passed_def)
qed

section \<open>The leader is found\<close>

text \<open>
  In a network where \<open>L\<close> leads: it can be dialled and answers \<open>v\<close>; any other node, if it is
  reached at all, redirects to \<open>L\<close>, reports that it is unavailable, or does not answer.
\<close>

definition leads :: "string \<Rightarrow> 'a \<Rightarrow> 'a net \<Rightarrow> bool" where
  "leads L v e \<longleftrightarrow> net_ok e \<and> net_ctx e = None \<and> (\<exists>c. net_dial e L = Inr c) \<and>
     (\<forall>c. conn_addr c = L \<longrightarrow> net_call e c = Inr v) \<and>
     (\<forall>c. conn_addr c \<noteq> L \<longrightarrow> (\<exists>err. net_call e c = Inl err \<and>
        (FromError (Some err) = L \<or> FromError (Some err) = [] \<and> (status_Code (Some err) = Unavailable \<or> net_unresponsive e))))"

text \<open>A node that can be dialled and redirects to \<open>L\<close>.\<close>

definition redirects :: "string \<Rightarrow> string \<Rightarrow> 'a net \<Rightarrow> bool" where
  "redirects L a e \<longleftrightarrow> (\<exists>c. net_dial e a = Inr c) \<and>
     (\<forall>c. conn_addr c = a \<longrightarrow> (\<exists>err. net_call e c = Inl err \<and> FromError (Some err) = L))"

lemma current_rememberAddr: "a \<noteq> [] \<Longrightarrow> r_currentAddr (rememberAddr r a) = a"
  by (simp add: rememberAddr_def rememberSeedLocked_def)

lemma connFor_dialled:
  assumes "resolver_ok r" and "net_ok e" and "net_dial e a = Inr c0"
  obtains c r' closed where "connFor (net_dial e) (net_meanwhile e) r a = (Inr c, r', closed)"
    "conn_addr c = a" "resolver_ok r'"
proof -
  obtain res r' closed where run: "connFor (net_dial e) (net_meanwhile e) r a = (res, r', closed)"
    by (metis prod_cases3)
  moreover have "\<exists>c. fst (connFor (net_dial e) (net_meanwhile e) r a) = Inr c"
    by (simp add: connFor_def Let_def assms(3) split: option.split)
  ultimately obtain c where "res = Inr c" by auto
  then show ?thesis using run connFor_ok [OF assms(1,2) run] by (auto intro: that)
qed

lemma tryLoop_at_leader:
  assumes "leads L v (net k)" and "L \<noteq> []" and "attempts L < 2" and "resolver_ok r"
  shows "\<exists>r' att. tryLoop net k (L # queue) attempts lastErr r = Some (Inr v, False, r', att) \<and> r_currentAddr r' = L"
proof -
  obtain c0 where "net_ok (net k)" "net_ctx (net k) = None" "net_dial (net k) L = Inr c0"
    using assms(1) by (auto simp: leads_def)
  moreover then obtain c r' closed where
    conn: "connFor (net_dial (net k)) (net_meanwhile (net k)) r L = (Inr c, r', closed)" "conn_addr c = L"
    by (elim connFor_dialled [OF assms(4)])
  moreover have "net_call (net k) c = Inr v" using assms(1) conn(2) by (auto simp: leads_def)
  ultimately show ?thesis
    using tryLoop_attempt [of net k L attempts, OF _ assms(2,3) conn(1)] current_rememberAddr [OF assms(2)] by simp
qed

lemma tryLoop_finds:
  assumes "\<And>k. leads L v (net k)" and "L \<noteq> []" and "resolver_ok r" and "distinct queue"
    and "\<forall>a \<in> insert L (set queue). attempts a = 0" and "[] \<notin> set queue"
    and "L \<in> set queue \<or> (\<exists>a \<in> set queue. \<forall>k. redirects L a (net k))"
  shows "\<exists>r' att. tryLoop net k queue attempts lastErr r = Some (Inr v, False, r', att) \<and> r_currentAddr r' = L"
  using assms(3-)
proof (induction queue arbitrary: k attempts lastErr r)
  case Nil
  then show ?case by simp
next
  case (Cons addr queue)
  show ?case
  proof (cases "addr = L")
    case True
    show ?thesis unfolding True by (rule tryLoop_at_leader [OF assms(1,2) _ Cons.prems(1)]) (use Cons.prems(3) in simp)
  next
    case False
    let ?att = "attempts(addr := Suc (attempts addr))"
    obtain res r' closed where conn: "connFor (net_dial (net k)) (net_meanwhile (net k)) r addr = (res, r', closed)"
      by (metis prod_cases3)
    have net: "net_ok (net k)" "net_ctx (net k) = None" using assms(1) [of k] by (auto simp: leads_def)
    note r' = connFor_ok [OF Cons.prems(1) net(1) conn]
    have go: "addr \<noteq> []" "attempts addr < 2" using Cons.prems(3,4) by auto
    note step = tryLoop_attempt [of net k addr attempts r res r' closed queue lastErr, OF net(2) go conn]
    have redirect: "\<exists>r'' att. tryLoop net (Suc k) (L # queue) ?att e (rememberAddr r' L) = Some (Inr v, False, r'', att) \<and>
        r_currentAddr r'' = L" for e
      by (rule tryLoop_at_leader [OF assms(1,2)]) (use Cons.prems(3) False r'(1) in auto)
    have rest: "\<exists>r'' att. tryLoop net (Suc k) queue ?att e r' = Some (Inr v, False, r'', att) \<and> r_currentAddr r'' = L"
      if "\<not> redirects L addr (net k)" for e
      by (rule Cons.IH [OF r'(1)]) (use Cons.prems False that in auto)
    show ?thesis
    proof (cases res)
      case (Inl e)
      then have "\<not> redirects L addr (net k)"
        using conn by (auto simp: redirects_def connFor_def Let_def split: option.splits)
      then show ?thesis using step Inl rest by (auto simp: Let_def)
    next
      case (Inr c)
      then obtain err where err: "net_call (net k) c = Inl err"
        "FromError (Some err) = L \<or> FromError (Some err) = [] \<and> (status_Code (Some err) = Unavailable \<or> net_unresponsive (net k))"
        using assms(1) [of k] r'(2) False by (auto simp: leads_def)
      show ?thesis
      proof (cases "FromError (Some err) = L")
        case True
        then show ?thesis using step Inr err(1) assms(2) redirect by (simp add: Let_def)
      next
        case False
        then have "\<not> redirects L addr (net k)" using r'(2) [OF Inr] err(1) by (auto simp: redirects_def)
        from rest [OF this] show ?thesis using step Inr err False by (auto simp: Let_def)
      qed
    qed
  qed
qed

text \<open>
  C21: A reachable leader is found in one pass. If the leader can be dialled, and the client
  knows its address or knows some node that redirects to it, while every other node is
  unreachable, unresponsive, unavailable or redirects to the leader, then one pass over
  the candidates returns the leader's answer, and the client goes to the leader first from
  then on.
\<close>

theorem leader_found:
  assumes "\<And>k. leads L v (net k)" and "L \<noteq> []" and "resolver_ok r"
    and "L \<in> set (candidateAddrs r) \<or> (\<exists>a \<in> set (candidateAddrs r). \<forall>k. redirects L a (net k))"
  shows "\<exists>r' attempts. tryCandidates net r = Some (Inr v, False, r', attempts) \<and> hd (candidateAddrs r') = L"
proof -
  have "distinct (candidateAddrs r)" "[] \<notin> set (candidateAddrs r)"
    using assms(3) by (auto simp: candidateAddrs_def candidateLoop_distinct candidateLoop_set resolver_ok_def)
  then obtain r' att where run: "tryCandidates net r = Some (Inr v, False, r', att)" "r_currentAddr r' = L"
    using tryLoop_finds [OF assms(1-3) _ _ _ assms(4), of "\<lambda>a. 0" 0 None] by (auto simp: tryCandidates_def)
  have "hd (candidateLoop seeds (a # as)) = a" for seeds a as
    by (induction seeds "a # as" arbitrary: as rule: candidateLoop.induct) auto
  then show ?thesis using run assms(2) by (auto simp: candidateAddrs_def)
qed

definition demo_net :: "nat \<Rightarrow> string net" where
  "demo_net k = \<lparr>net_ctx = None, net_dial = (\<lambda>a. Inr (Conn a k)), net_meanwhile = (\<lambda>r. r),
     net_call = (\<lambda>c. if conn_addr c = ''b:2'' then Inr ''ok''
                     else Inl (leaderhint_Error (\<lambda>a. True) (if conn_addr c = ''a:1'' then ''b:2'' else []))),
     net_unresponsive = False\<rparr>"

lemma demo_net_leads: "leads ''b:2'' ''ok'' (demo_net k)" "redirects ''b:2'' ''a:1'' (demo_net k)"
  by (auto simp: leads_def redirects_def demo_net_def net_ok_def)

theorem leader_found_witness:
  "\<exists>r' attempts. tryCandidates demo_net (newResolver [''c:3'', ''a:1'']) = Some (Inr ''ok'', False, r', attempts) \<and>
     hd (candidateAddrs r') = ''b:2''"
  by (rule leader_found) (auto simp: demo_net_leads newResolver_def candidateAddrs_def resolver_ok_def)

definition demo_call_env :: call_env where
  "demo_call_env = \<lparr>ce_start = 0, ce_deadline = None, ce_passEnd = (\<lambda>p. int p * ms 50), ce_cancelled = (\<lambda>p. False)\<rparr>"

theorem failover_returns_witness:
  "\<exists>result r'. callWithFailover demo_call_env (\<lambda>p. demo_net) (newResolver [''c:3'', ''a:1'']) = Some (result, r')"
proof -
  have "finite {''a:1'', ''b:2'', ''c:3''}" by simp
  moreover have "net_within {''a:1'', ''b:2'', ''c:3''} (demo_net k)" for k
    by (auto simp: net_within_def demo_net_def)
  moreover have "clock_runs demo_call_env" by (simp add: clock_runs_def demo_call_env_def ms_def)
  moreover have "knows {''a:1'', ''b:2'', ''c:3''} (newResolver [''c:3'', ''a:1''])"
    by (simp add: knows_def newResolver_def)
  ultimately show ?thesis by (rule failover_returns [THEN conjunct1])
qed

section \<open>Seed addresses\<close>

lemma splitComma_parts: "part \<in> set (splitComma s) \<Longrightarrow> CHR '','' \<notin> set part \<and> set part \<subseteq> set s"
  by (induction s arbitrary: part) (fastforce split: list.splits if_splits)+

lemma splitComma_single: "CHR '','' \<notin> set s \<Longrightarrow> splitComma s = [s]"
  by (induction s) auto

lemma TrimSpace_set: "set (TrimSpace s) \<subseteq> set s"
  by (auto simp: TrimSpace_def dest!: set_dropWhileD)

lemma dropWhile_idem_prefix: "dropWhile P (rev (dropWhile P (rev (dropWhile P s)))) = rev (dropWhile P (rev (dropWhile P s)))"
proof (cases "dropWhile P s")
  case (Cons x xs)
  then have "\<not> P x" by (metis hd_dropWhile list.distinct(1) list.sel(1))
  then have "rev (dropWhile P (rev (x # xs))) = x # rev (dropWhile P (rev xs))"
    by (simp add: dropWhile_append)
  then show ?thesis using Cons \<open>\<not> P x\<close> by simp
qed (simp only: list.simps dropWhile.simps rev.simps)

lemma dropWhile_twice: "dropWhile P (dropWhile P s) = dropWhile P s"
  by (induction s) auto

lemma TrimSpace_idem [simp]: "TrimSpace (TrimSpace s) = TrimSpace s"
  by (simp add: TrimSpace_def dropWhile_idem_prefix dropWhile_twice)

lemma set_normalizeParts:
  "set (normalizeParts parts acc) = set acc \<union> (TrimSpace ` set parts - {[]})"
  by (induction parts acc rule: normalizeParts.induct) (auto simp: Let_def)

lemma distinct_normalizeParts: "distinct acc \<Longrightarrow> distinct (normalizeParts parts acc)"
  by (induction parts acc rule: normalizeParts.induct) (auto simp: Let_def)

lemma set_normalizeAddrs:
  "set (normalizeAddrs addrs acc) = set acc \<union> ((\<Union>a \<in> set addrs. TrimSpace ` set (splitComma a)) - {[]})"
  by (induction addrs acc rule: normalizeAddrs.induct) (auto simp: set_normalizeParts)

lemma distinct_normalizeAddrs: "distinct acc \<Longrightarrow> distinct (normalizeAddrs addrs acc)"
  by (induction addrs acc rule: normalizeAddrs.induct) (auto simp: distinct_normalizeParts)

lemma normalizeAddrs_fixed:
  "\<forall>a \<in> set addrs. a \<noteq> [] \<and> CHR '','' \<notin> set a \<and> TrimSpace a = a \<Longrightarrow> distinct (acc @ addrs) \<Longrightarrow>
     normalizeAddrs addrs acc = acc @ addrs"
  by (induction addrs acc rule: normalizeAddrs.induct) (auto simp: splitComma_single Let_def)

text \<open>
  The seed addresses of a client: \<open>normalizeSeedAddrs\<close> keeps exactly the non-empty
  comma-separated parts, trimmed, each once; normalizing again changes nothing; and a
  resolver that starts from them satisfies its invariant and tries exactly these
  addresses.
\<close>

theorem seeds_normalized:
  "distinct (normalizeSeedAddrs addrs) \<and>
   set (normalizeSeedAddrs addrs) = (\<Union>a \<in> set addrs. TrimSpace ` set (splitComma a)) - {[]} \<and>
   normalizeSeedAddrs (normalizeSeedAddrs addrs) = normalizeSeedAddrs addrs \<and>
   resolver_ok (newResolver (normalizeSeedAddrs addrs)) \<and>
   set (candidateAddrs (newResolver (normalizeSeedAddrs addrs))) = set (normalizeSeedAddrs addrs)"
proof -
  let ?ns = "normalizeSeedAddrs addrs"
  have d: "distinct ?ns" by (simp add: normalizeSeedAddrs_def distinct_normalizeAddrs)
  have s: "set ?ns = (\<Union>a \<in> set addrs. TrimSpace ` set (splitComma a)) - {[]}"
    by (simp add: normalizeSeedAddrs_def set_normalizeAddrs)
  have "CHR '','' \<notin> set (TrimSpace part)" if "part \<in> set (splitComma a)" for part a
    using splitComma_parts [OF that] TrimSpace_set by blast
  then have "\<forall>a \<in> set ?ns. a \<noteq> [] \<and> CHR '','' \<notin> set a \<and> TrimSpace a = a" using s by auto
  then have "normalizeSeedAddrs ?ns = ?ns"
    using normalizeAddrs_fixed [of ?ns "[]"] d by (simp add: normalizeSeedAddrs_def)
  moreover have "[] \<notin> set ?ns" using s by simp
  then have "resolver_ok (newResolver ?ns)" using d by (auto simp: resolver_ok_def newResolver_def)
  moreover have "set (candidateAddrs (newResolver ?ns)) = set ?ns"
    by (auto simp: set_candidateAddrs newResolver_def)
  ultimately show ?thesis using d s by blast
qed

end
