(* ===== verification/Bench_Stats.thy ===== *)
theory Bench_Stats
  imports Complex_Main "HOL-Library.Log_Nat" "HOL-Library.Multiset" Client_Resolver
begin

text \<open>
  The statistics of \<open>clavis-bench\<close> (\<open>cmd/clavis-bench/stats.go\<close>): percentiles, maximum and
  minimum of a set of latencies, and how a duration is shown. The sources compute with
  \<open>float64\<close>; here are its rounding, and what the computed ranks come to.
\<close>

section \<open>Binary floating point\<close>

text \<open>
  Rounding to 53 significant bits, to nearest and to even in the middle. Exponents are
  unbounded: what the benchmarks compute with is far from the ends of the range. Every
  operation rounds; the language also lets a product and a sum be fused into one.
\<close>

definition binade :: "rat \<Rightarrow> int" where
  "binade x =
     (case quotient_of x of (a, b) \<Rightarrow>
        (let e = bitlen a - bitlen b in if 2 powi e \<le> x then e else e - 1))"

definition nearest :: "rat \<Rightarrow> int" where
  "nearest q =
     (let m = \<lfloor>q\<rfloor>; d = q - of_int m
      in if d < 1 / 2 \<or> (d = 1 / 2 \<and> even m) then m else m + 1)"

definition roundPos :: "rat \<Rightarrow> rat" where
  "roundPos x = (let u = 2 powi (binade x - 52) in of_int (nearest (x / u)) * u)"

definition float64 :: "rat \<Rightarrow> rat" where
  "float64 x = (if x = 0 then 0 else if x < 0 then - roundPos (- x) else roundPos x)"

lemma binade_bounds:
  assumes "0 < x"
  shows "2 powi binade x \<le> x" "x < 2 powi (binade x + 1)"
proof -
  obtain a b where q: "quotient_of x = (a, b)" by (cases "quotient_of x")
  have x: "x = of_int a / of_int b" and b: "0 < b" using quotient_of_div [OF q] quotient_of_denom_pos [OF q] by auto
  then have a: "0 < a" using assms by (simp add: zero_less_divide_iff)
  have len: "0 < bitlen a" "0 < bitlen b" using bitlen_bounds [OF a] bitlen_bounds [OF b] a b by (auto intro: ccontr)
  define e where "e = bitlen a - bitlen b"
  have up: "of_int z < (2::rat) powi bitlen z" and lo: "(2::rat) powi (bitlen z - 1) \<le> of_int z" if "0 < z" "0 < bitlen z" for z
  proof -
    have "2 ^ nat (bitlen z - 1) \<le> z" "z < 2 ^ nat (bitlen z)" using bitlen_bounds [OF that(1)] by auto
    then have "(of_int (2 ^ nat (bitlen z - 1)) :: rat) \<le> of_int z" "(of_int z :: rat) < of_int (2 ^ nat (bitlen z))"
      by (simp_all only: of_int_le_iff of_int_less_iff)
    then show "of_int z < (2::rat) powi bitlen z" "(2::rat) powi (bitlen z - 1) \<le> of_int z"
      using that(2) by (simp_all add: power_int_def)
  qed
  have "x < 2 powi bitlen a / 2 powi (bitlen b - 1)"
    unfolding x using up [OF a len(1)] lo [OF b len(2)] a b by (intro frac_less) auto
  also have "\<dots> = 2 powi (e + 1)" by (simp add: e_def power_int_diff power_int_add)
  finally have hi: "x < 2 powi (e + 1)" .
  have "2 powi (e - 1) = 2 powi (bitlen a - 1) / (2::rat) powi bitlen b" by (simp add: e_def power_int_diff)
  also have "\<dots> \<le> x" unfolding x using up [OF b len(2)] lo [OF a len(1)] b a by (intro frac_le) auto
  finally have low: "2 powi (e - 1) \<le> x" .
  show "2 powi binade x \<le> x" "x < 2 powi (binade x + 1)"
    using hi low by (simp_all add: binade_def q Let_def flip: e_def)
qed

lemma nearest_error: "\<bar>of_int (nearest q) - q\<bar> \<le> 1 / 2"
proof -
  have "of_int \<lfloor>q\<rfloor> \<le> q" "q < of_int \<lfloor>q\<rfloor> + 1" by linarith+
  then show ?thesis by (auto simp: nearest_def Let_def abs_le_iff)
qed

lemma nearest_unique: "\<bar>q - of_int m\<bar> < 1 / 2 \<Longrightarrow> nearest q = m"
  using nearest_error [of q] by linarith

lemma scaled_abs:
  fixes u :: rat
  assumes "0 < u"
  shows "\<bar>x / u - a\<bar> * u = \<bar>x - a * u\<bar>"
proof -
  have "\<bar>x / u - a\<bar> * u = \<bar>(x / u - a) * u\<bar>" using assms by (simp add: abs_mult)
  also have "(x / u - a) * u = x - a * u" using assms by (simp add: left_diff_distrib)
  finally show ?thesis .
qed

text \<open>The error of a rounding, and values that are not rounded.\<close>

lemma float64_error:
  assumes "0 \<le> x"
  shows "\<bar>float64 x - x\<bar> \<le> x / 2 ^ 53"
proof (cases "x = 0")
  case False
  with assms have x: "0 < x" by simp
  define u where "u = (2::rat) powi (binade x - 52)"
  have u: "0 < u" by (simp add: u_def)
  have "u * 2 ^ 52 \<le> x" using binade_bounds(1) [OF x] by (simp add: u_def power_int_diff)
  moreover have "\<bar>float64 x - x\<bar> = \<bar>of_int (nearest (x / u)) - x / u\<bar> * u"
    using x scaled_abs [OF u, of x "of_int (nearest (x / u))"]
    by (simp add: float64_def roundPos_def Let_def abs_minus_commute flip: u_def)
  moreover have "\<dots> \<le> 1 / 2 * u" using nearest_error [of "x / u"] u by (intro mult_right_mono) auto
  ultimately show ?thesis by (simp add: field_simps)
qed (simp add: float64_def)

lemma float64_near:
  assumes "2 powi e \<le> x" and "x < 2 powi (e + 1)" and "\<bar>x - of_int m * 2 powi (e - 52)\<bar> < 2 powi (e - 53)"
  shows "float64 x = of_int m * 2 powi (e - 52)"
proof -
  have x: "0 < x" using assms(1) by (rule less_le_trans [rotated]) simp
  have "binade x = e"
  proof -
    have "(2::rat) powi binade x < 2 powi (e + 1)" "(2::rat) powi e < 2 powi (binade x + 1)"
      using binade_bounds [OF x] assms(1,2) by linarith+
    then have "\<not> e + 1 \<le> binade x" "\<not> binade x + 1 \<le> e"
      using power_int_increasing [of "e + 1" "binade x" "2 :: rat"] power_int_increasing [of "binade x + 1" e "2 :: rat"] by auto
    then show ?thesis by simp
  qed
  moreover have "\<bar>x / 2 powi (e - 52) - of_int m\<bar> < 1 / 2"
  proof -
    have u: "(0::rat) < 2 powi (e - 52)" by simp
    have "(2::rat) powi (e - 53) = 2 powi (e - 52) / 2" by (simp add: power_int_diff)
    then have "\<bar>x / 2 powi (e - 52) - of_int m\<bar> * 2 powi (e - 52) < 1 / 2 * 2 powi (e - 52)"
      using assms(3) scaled_abs [OF u] by simp
    then show ?thesis using u by (simp only: mult_less_cancel_right_pos)
  qed
  ultimately show ?thesis using x by (simp add: float64_def roundPos_def nearest_unique)
qed

lemma float64_half:
  assumes "0 \<le> k" and "k < 2 ^ 53"
  shows "float64 (of_int k / 2) = of_int k / 2"
proof (cases "k = 0")
  case False
  define x where "x = (of_int k / 2 :: rat)"
  define e where "e = binade x"
  have x: "0 < x" "x < 2 powi 52"
  proof -
    show "0 < x" using assms False by (simp add: x_def)
    have "(of_int k :: rat) < of_int (2 ^ 53)" using assms(2) by (simp only: of_int_less_iff)
    then show "x < 2 powi 52" by (simp add: x_def)
  qed
  have b: "2 powi e \<le> x" "x < 2 powi (e + 1)" using binade_bounds [OF x(1)] by (simp_all add: e_def)
  have "e \<le> 51" using power_int_increasing [of 52 e "2 :: rat"] b(1) x(2) by force
  then have "(2::rat) ^ nat (51 - e) * 2 powi (e - 52) = 2 powi (51 - e + (e - 52))"
    by (subst power_int_add) (simp_all add: power_int_def)
  then have m: "of_int (k * 2 ^ nat (51 - e)) * (2::rat) powi (e - 52) = x"
    by (simp add: x_def mult.assoc)
  have "float64 x = of_int (k * 2 ^ nat (51 - e)) * 2 powi (e - 52)"
    by (rule float64_near [OF b]) (simp only: m diff_self abs_zero, simp)
  then show ?thesis unfolding m x_def .
qed (simp add: float64_def)

lemma float64_nat: "n < 2 ^ 52 \<Longrightarrow> float64 (of_nat n) = of_nat n"
  using float64_half [of "2 * int n"] by simp

section \<open>Samples\<close>

type_synonym samples = "duration list"

text \<open>The rank \<open>pct\<close> computes for \<open>n\<close> samples; a positive number is converted by dropping its fraction.\<close>

definition pctRank :: "rat \<Rightarrow> nat \<Rightarrow> int" where
  "pctRank p n = \<lfloor>float64 (float64 (float64 (p / 100) * float64 (of_nat n)) + 1 / 2)\<rfloor> - 1"

definition pct :: "samples \<Rightarrow> rat \<Rightarrow> duration" where
  "pct s p =
     (if length s = 0 then 0
      else let sorted = sort_key sint s
           in sorted ! nat (max 0 (min (pctRank p (length sorted)) (int (length sorted) - 1))))"

definition samples_max :: "samples \<Rightarrow> duration" where
  "samples_max s = (if length s = 0 then 0 else foldl (\<lambda>m d. if sint m < sint d then d else m) (hd s) (tl s))"

definition samples_min :: "samples \<Rightarrow> duration" where
  "samples_min s = (if length s = 0 then 0 else foldl (\<lambda>m d. if sint d < sint m then d else m) (hd s) (tl s))"

text \<open>
  A cell of a table: a word, a count, a fraction of two counts, or a number with its decimals
  and its unit. A quotient by zero is not a number, as in Go's arithmetic.
\<close>

datatype cell = Text string | Count int | OutOf nat nat | Number nat rat string | NotFinite

definition msCell :: "duration \<Rightarrow> cell" where
  "msCell d =
     (let v = float64 (float64 (of_int (sint d)) / float64 (of_int (sint millisecond)))
      in if v < 10 then Number 2 v ''ms''
         else if v < 1000 then Number 1 v ''ms''
         else Number 2 (float64 (v / 1000)) ''s'')"

text \<open>\<open>Duration.Seconds\<close> and a quotient by it, printed without decimals.\<close>

definition Seconds :: "duration \<Rightarrow> rat" where
  "Seconds d =
     float64 (float64 (of_int (sint d sdiv sint second)) + float64 (float64 (of_int (sint d smod sint second)) / 1000000000))"

definition rateCell :: "rat \<Rightarrow> duration \<Rightarrow> cell" where
  "rateCell x d = (if Seconds d = 0 then NotFinite else Number 0 (float64 (x / Seconds d)) [])"

section \<open>The ranks\<close>

lemma pctRank_50:
  assumes "n < 2 ^ 40"
  shows "pctRank 50 n = (int n + 1) div 2 - 1"
proof -
  have n: "float64 (of_nat n) = of_nat n" using assms by (simp add: float64_nat)
  have half: "float64 (50 / 100) = 1 / 2" using float64_half [of 1] by simp
  have n2: "float64 (1 / 2 * of_nat n) = of_int (int n) / 2" using float64_half [of "int n"] assms by simp
  have "of_int (int n) / 2 + 1 / 2 = (of_int (int n + 1) / 2 :: rat)" by simp
  then have "float64 (of_int (int n) / 2 + 1 / 2) = of_int (int n + 1) / of_int 2"
    using float64_half [of "int n + 1"] assms by (simp only:) simp
  moreover have "pctRank 50 n = \<lfloor>float64 (of_int (int n) / 2 + 1 / 2)\<rfloor> - 1" 
    by (simp only: pctRank_def half n n2)
  ultimately show ?thesis by (simp only: floor_divide_of_int_eq)
qed

lemma float64_099: "float64 (99 / 100) = 8917127262193582 / 2 ^ 53"
proof -
  have e: "(2::rat) powi (- 1 - 52) = 1 / 2 ^ 53" "(2::rat) powi (- 1 - 53) = 1 / 2 ^ 54"
    by (simp_all add: power_int_def power_one_over)
  have "\<bar>99 / 100 - of_int 8917127262193582 * 2 powi (- 1 - 52)\<bar> < (2::rat) powi (- 1 - 53)"
    unfolding e by simp
  from float64_near [OF _ _ this] show ?thesis unfolding e by simp
qed

text \<open>
  At the 99th percentile the product lies just below a multiple of a half when that is where
  99 percent of the count lie; rounding takes it back there.
\<close>

lemma float64_tie:
  assumes "n = 100 * j + 50" and "n < 2 ^ 40"
  shows "float64 (8917127262193582 / 2 ^ 53 * of_nat n) = of_int (99 * int n) / 100"
proof -
  define t where "t = (of_int (99 * int n) / 100 :: rat)"
  define x where "x = (8917127262193582 / 2 ^ 53 * of_nat n :: rat)"
  define T where "T = 198 * int j + 99"
  define e where "e = binade t"
  have t: "t = of_int T / 2" by (simp add: t_def T_def assms(1) field_simps)
  have "(of_int 99 :: rat) \<le> of_int T" by (simp only: of_int_le_iff) (simp add: T_def)
  then have pos: "0 < t" "49 < t" unfolding t by simp_all
  have diff: "t - x = 8 / 100 / 2 ^ 53 * of_nat n" "x \<le> t" by (simp_all add: t_def x_def)
  have "(of_nat n :: rat) < of_nat (2 ^ 40)" using assms(2) by (simp only: of_nat_less_iff)
  then have n: "of_nat n < (2 :: rat) ^ 40" "of_nat n = 100 / 99 * t" by (simp_all add: t_def)
  have b: "2 powi e \<le> t" "t < 2 powi (e + 1)" using binade_bounds [OF pos(1)] by (simp_all add: e_def)
  have e0: "5 \<le> e" using power_int_increasing [of "e + 1" 5 "2 :: rat"] b(2) pos(2) by fastforce
  have e51: "e \<le> 51"
  proof (rule ccontr)
    assume "\<not> e \<le> 51"
    then have "(2::rat) powi 52 \<le> t" using power_int_increasing [of 52 e "2 :: rat"] b(1) by force
    then show False using n by (simp add: field_simps)
  qed
  have low: "2 powi e \<le> x"
  proof -
    have N: "(2::rat) powi e = of_int (2 ^ nat e)" using e0 by (simp add: power_int_def)
    then have "(of_int (2 * 2 ^ nat e) :: rat) \<le> of_int T" using b(1) t by simp
    then have "2 * 2 ^ nat e \<le> T" by (simp only: of_int_le_iff)
    moreover have "odd T" by (simp add: T_def)
    ultimately have "2 * 2 ^ nat e \<le> T - 1" by presburger
    then have "(of_int (2 * 2 ^ nat e) :: rat) \<le> of_int (T - 1)" by (simp only: of_int_le_iff)
    then have "2 powi e \<le> t - 1 / 2" unfolding N t by (simp add: field_simps)
    moreover have "t - x \<le> 1 / 2" unfolding diff using n(1) by simp
    ultimately show ?thesis by linarith
  qed
  have "(2::rat) ^ nat (51 - e) * 2 powi (e - 52) = 2 powi (51 - e + (e - 52))"
    using e51 by (subst power_int_add) (simp_all add: power_int_def)
  then have m: "of_int (T * 2 ^ nat (51 - e)) * (2::rat) powi (e - 52) = t" by (simp add: t mult.assoc)
  have "\<bar>x - t\<bar> = 8 / 99 / 2 ^ 53 * t" using diff unfolding n(2) by simp
  also have "\<dots> < 8 / 99 / 2 ^ 53 * 2 powi (e + 1)" using b(2) by simp
  also have "\<dots> < 2 powi e / 2 ^ 53" by (simp add: power_int_add)
  also have "\<dots> = 2 powi (e - 53)" by (simp add: power_int_diff)
  finally have near: "\<bar>x - t\<bar> < 2 powi (e - 53)" .
  have "x < 2 powi (e + 1)" using diff(2) b(2) by (rule le_less_trans)
  then have "float64 x = of_int (T * 2 ^ nat (51 - e)) * 2 powi (e - 52)"
    by (rule float64_near [OF low]) (simp only: m near)
  then show ?thesis unfolding m x_def t_def .
qed

lemma nat_rat_bound: "n < 2 ^ 40 \<Longrightarrow> (of_nat n :: rat) < 2 ^ 40"
  using of_nat_less_iff [of n "2 ^ 40", where ?'a = rat] by simp

lemma pctRank_99_float:
  assumes "n < 2 ^ 40"
  shows "pctRank 99 n = \<lfloor>float64 (float64 (8917127262193582 / 2 ^ 53 * of_nat n) + 1 / 2)\<rfloor> - 1"
  using float64_nat [of n] assms by (simp add: pctRank_def float64_099)

lemma float64_tie_up:
  assumes "(99 * int n + 50) mod 100 = 0" and "n < 2 ^ 40"
  shows "float64 (float64 (8917127262193582 / 2 ^ 53 * of_nat n) + 1 / 2) = of_int ((99 * int n + 50) div 100)"
proof -
  define k where "k = (99 * int n + 50) div 100"
  have k: "99 * int n + 50 = 100 * k"
    using mult_div_mod_eq [of 100 "99 * int n + 50"] assms(1) by (simp add: k_def)
  then have "k \<le> int n" by linarith
  with k have n: "n = 100 * nat (int n - k) + 50" by linarith
  have "(of_int (99 * int n) :: rat) = 100 * of_int k - 50"
    using arg_cong [OF k, of "of_int :: int \<Rightarrow> rat"] by simp
  then have sum: "of_int (99 * int n) / 100 + 1 / 2 = (of_int (2 * k) / 2 :: rat)" by (simp add: field_simps)
  have "0 \<le> 2 * k" using k by linarith
  moreover have "2 * k < 2 ^ 53" using \<open>k \<le> int n\<close> assms(2) by simp
  ultimately have "float64 (of_int (2 * k) / 2) = of_int k" using float64_half [of "2 * k"] by simp
  then show ?thesis by (simp only: float64_tie [OF n assms(2)] sum k_def)
qed

lemma float64_not_tie:
  assumes "(99 * int n + 50) mod 100 \<noteq> 0" and n: "n < 2 ^ 40"
  shows "\<lfloor>float64 (float64 (8917127262193582 / 2 ^ 53 * of_nat n) + 1 / 2)\<rfloor> = (99 * int n + 50) div 100"
proof -
  define k where "k = (99 * int n + 50) div 100"
  define x where "x = (8917127262193582 / 2 ^ 53 * of_nat n :: rat)"
  define y z where "y = float64 x" and "z = float64 (y + 1 / 2)"
  define \<epsilon> where "\<epsilon> = (of_nat n / 2 ^ 53 :: rat)"
  have \<epsilon>: "0 \<le> \<epsilon>" "\<epsilon> \<le> 1 / 8192" "\<epsilon> \<le> of_nat n" using nat_rat_bound [OF n] by (simp_all add: \<epsilon>_def)
  have x: "0 \<le> x" "x \<le> of_nat n" by (simp_all add: x_def)
  have t: "\<bar>x - 99 / 100 * of_nat n\<bar> \<le> \<epsilon>" by (simp add: x_def \<epsilon>_def)
  have y: "\<bar>y - x\<bar> \<le> \<epsilon>" using float64_error [OF x(1)] x(2) by (simp add: y_def \<epsilon>_def)
  then have y0: "0 \<le> y + 1 / 2" "y + 1 / 2 \<le> 2 * of_nat n + 1" using x \<epsilon> by linarith+
  have "\<bar>z - (y + 1 / 2)\<bar> \<le> (y + 1 / 2) / 2 ^ 53" using float64_error [OF y0(1)] by (simp add: z_def)
  also have "\<dots> \<le> (2 * of_nat n + 1) / 2 ^ 53" using y0(2) by (rule divide_right_mono) simp
  also have "\<dots> \<le> 2 * \<epsilon> + 1 / 8192" by (simp add: \<epsilon>_def add_divide_distrib)
  finally have z: "\<bar>z - (99 / 100 * of_nat n + 1 / 2)\<bar> < 1 / 100" using t y \<epsilon>(2) by linarith
  define r where "r = (99 * int n + 50) mod 100"
  have k: "99 * int n + 50 = 100 * k + r" "1 \<le> r" "r \<le> 99"
    using mult_div_mod_eq [of 100 "99 * int n + 50"] assms(1) pos_mod_bound [of 100 "99 * int n + 50"] pos_mod_sign [of 100 "99 * int n + 50"]
    by (simp_all add: k_def r_def)
  have "99 * (of_nat n :: rat) + 50 = 100 * of_int k + of_int r"
    using arg_cong [OF k(1), of "of_int :: int \<Rightarrow> rat"] by simp
  moreover have "(1 :: rat) \<le> of_int r" "of_int r \<le> (99 :: rat)" using k(2,3) by simp_all
  ultimately have "of_int k \<le> z" "z < of_int k + 1" using z by linarith+
  then have "\<lfloor>z\<rfloor> = k" by (rule floor_unique)
  then show ?thesis by (simp add: x_def y_def z_def k_def)
qed

lemma pctRank_99:
  assumes "n < 2 ^ 40"
  shows "pctRank 99 n = (99 * int n + 50) div 100 - 1"
proof (cases "(99 * int n + 50) mod 100 = 0")
  case True
  show ?thesis unfolding pctRank_99_float [OF assms] float64_tie_up [OF True assms] by simp
next
  case False
  show ?thesis unfolding pctRank_99_float [OF assms] float64_not_tie [OF False assms] ..
qed

section \<open>What the statistics are\<close>

lemma pct_Cons:
  assumes "s \<noteq> []"
  obtains k where "k < length s" "pct s p = sort_key sint s ! k" "int k = max 0 (min (pctRank p (length s)) (int (length s) - 1))"
proof -
  let ?k = "max 0 (min (pctRank p (length s)) (int (length s) - 1))"
  have "nat ?k < length s" using assms by (cases s) auto
  then show ?thesis using that [of "nat ?k"] assms by (simp add: pct_def Let_def)
qed

text \<open>A fold that keeps one of two values, by a preference \<open>R\<close>.\<close>

lemma foldl_pick:
  assumes "\<And>m d. pick m d \<in> {m, d}" and "\<And>m d. R m (pick m d) \<and> R d (pick m d)" and "\<And>x y z. R x y \<Longrightarrow> R y z \<Longrightarrow> R x z"
    and "\<And>x. R x x"
  shows "foldl pick m s \<in> insert m (set s) \<and> (\<forall>d \<in> insert m (set s). R d (foldl pick m s))"
proof (induction s arbitrary: m)
  case (Cons a s)
  have "pick m a = m \<or> pick m a = a" using assms(1) by blast
  moreover have "R m (pick m a)" "R a (pick m a)" "R (pick m a) (foldl pick (pick m a) s)" using assms(2) Cons.IH by blast+
  then have "R m (foldl pick (pick m a) s)" "R a (foldl pick (pick m a) s)" using assms(3) by blast+
  ultimately show ?case using Cons.IH [of "pick m a"] by auto
qed (use assms(4) in auto)

lemma foldl_max:
  "foldl (\<lambda>m d. if sint m < sint d then d else m) m s \<in> insert m (set s) \<and>
   (\<forall>d \<in> insert m (set s). sint d \<le> sint (foldl (\<lambda>m d. if sint m < sint d then d else m) m s))" for m :: duration
  by (rule foldl_pick) auto

lemma foldl_min:
  "foldl (\<lambda>m d. if sint d < sint m then d else m) m s \<in> insert m (set s) \<and>
   (\<forall>d \<in> insert m (set s). sint (foldl (\<lambda>m d. if sint d < sint m then d else m) m s) \<le> sint d)" for m :: duration
  by (rule foldl_pick) auto

lemma samples_max_bound:
  assumes "s \<noteq> []"
  shows "samples_max s \<in> set s \<and> (\<forall>d \<in> set s. sint d \<le> sint (samples_max s))"
  using foldl_max [of "hd s" "tl s"] assms by (cases s) (simp_all add: samples_max_def)

lemma samples_min_bound:
  assumes "s \<noteq> []"
  shows "samples_min s \<in> set s \<and> (\<forall>d \<in> set s. sint (samples_min s) \<le> sint d)"
  using foldl_min [of "hd s" "tl s"] assms by (cases s) (simp_all add: samples_min_def)

text \<open>The order of the samples does not matter.\<close>

lemma pct_mset:
  assumes "mset s = mset s'"
  shows "pct s p = pct s' p"
proof -
  have "inj_on sint (set s)" by (rule inj_onI) (simp add: signed_word_eqI)
  then have "sort_key sint s = sort_key sint s'" using assms by (intro sort_key_inj_key_eq) auto
  then show ?thesis using mset_eq_length [OF assms] by (simp add: pct_def)
qed

text \<open>The ranks lie in the samples, the lower not above the higher.\<close>

lemma pct_50:
  assumes "s \<noteq> []" and "length s < 2 ^ 40"
  shows "pct s 50 = sort_key sint s ! ((length s + 1) div 2 - 1)" "(length s + 1) div 2 - 1 < length s"
proof -
  have pos: "0 < length s" using assms(1) by simp
  then show "(length s + 1) div 2 - 1 < length s" by linarith
  have "max 0 (min (pctRank 50 (length s)) (int (length s) - 1)) = int ((length s + 1) div 2 - 1)"
    using pos by (simp add: pctRank_50 [OF assms(2)])
  then show "pct s 50 = sort_key sint s ! ((length s + 1) div 2 - 1)" using assms(1) by (simp add: pct_def Let_def)
qed

lemma pct_99:
  assumes "s \<noteq> []" and "length s < 2 ^ 40"
  shows "pct s 99 = sort_key sint s ! ((99 * length s + 50) div 100 - 1)" "(99 * length s + 50) div 100 - 1 < length s"
proof -
  have pos: "0 < length s" using assms(1) by simp
  then show "(99 * length s + 50) div 100 - 1 < length s" by linarith
  have "max 0 (min (pctRank 99 (length s)) (int (length s) - 1)) = int ((99 * length s + 50) div 100 - 1)"
    using pos by (simp add: pctRank_99 [OF assms(2)])
  then show "pct s 99 = sort_key sint s ! ((99 * length s + 50) div 100 - 1)" using assms(1) by (simp add: pct_def Let_def)
qed

text \<open>
  C39: The percentiles the benchmarks report. For any number of samples below \<open>2 ^ 40\<close> the
  floating-point rank of \<open>pct\<close> is exact, at the halfway points too: the median is the sample of
  rank \<open>(n + 1) div 2\<close> and the 99th percentile the one of rank \<open>(99 n + 50) div 100\<close> in sorted
  order. Both are measured values between the minimum and the maximum, the median not above
  the 99th percentile, and the order in which the clients deliver their samples is irrelevant.
\<close>

theorem percentiles_exact:
  assumes s: "s \<noteq> []" "length s < 2 ^ 40"
  shows "pct s 50 = sort_key sint s ! ((length s + 1) div 2 - 1) \<and>
    pct s 99 = sort_key sint s ! ((99 * length s + 50) div 100 - 1) \<and>
    {pct s 50, pct s 99, samples_min s, samples_max s} \<subseteq> set s \<and>
    sint (samples_min s) \<le> sint (pct s 50) \<and> sint (pct s 50) \<le> sint (pct s 99) \<and> sint (pct s 99) \<le> sint (samples_max s) \<and>
    (\<forall>s'. mset s' = mset s \<longrightarrow> pct s' 50 = pct s 50 \<and> pct s' 99 = pct s 99)"
proof -
  note p50 = pct_50 [OF s] and p99 = pct_99 [OF s]
  have "(length s + 1) div 2 * 100 \<le> 99 * length s + 50" by linarith
  then have "(length s + 1) div 2 - 1 \<le> (99 * length s + 50) div 100 - 1"
    by (intro diff_le_mono) (simp add: less_eq_div_iff_mult_less_eq)
  then have "map sint (sort_key sint s) ! ((length s + 1) div 2 - 1) \<le> map sint (sort_key sint s) ! ((99 * length s + 50) div 100 - 1)"
    using p99(2) by (intro sorted_nth_mono) auto
  then have le: "sint (pct s 50) \<le> sint (pct s 99)" using p50 p99 by simp
  have mem: "pct s 50 \<in> set s" "pct s 99 \<in> set s"
    unfolding p50(1) p99(1) using p50(2) p99(2) nth_mem [of _ "sort_key sint s"] by simp_all
  then show ?thesis
    using p50(1) p99(1) le samples_min_bound [OF s(1)] samples_max_bound [OF s(1)] pct_mset by blast
qed

theorem percentiles_exact_witness: "pct [30, 10, 20] 50 = (20 :: duration) \<and> pct [30, 10, 20] 99 = 30"
  using percentiles_exact [of "[30, 10, 20]"] by simp

text \<open>
  The comment on \<open>pct\<close> calls this the nearest rank, which is the smallest rank with \<open>p\<close> percent
  of the samples at or below it; of 64 samples that is the 64th, and \<open>pct\<close> takes the 63rd.
\<close>

lemma pct_not_nearest_rank: "pctRank 99 64 = 62" "\<not> 99 * 64 \<le> 100 * (pctRank 99 64 + 1)"
  by (simp_all add: pctRank_99)

end
