(* ===== verification/Client_Session.thy ===== *)
theory Client_Session
  imports Client_Resolver
begin

text \<open>
  \<open>pkg/client/session.go\<close>: the lease session of a client and its heartbeat loop. A stream is
  a number; cancelling it is recorded. What the network does is given per attempt. The
  loop runs on a clock: every event carries the instants the code reads there, and the
  conditions under which timers, tickers and timeouts keep their times are stated apart.
\<close>

section \<open>The session\<close>

record leaseSession =
  s_leaseID :: uint64
  s_leaseTTL :: duration
  s_leaseErr :: "client_err option"
  s_heartbeat :: "nat option"
  s_heartbeatCancel :: "nat option"
  s_runDone :: bool
  s_cancelled :: "nat set"

definition newLeaseSession :: leaseSession where
  "newLeaseSession = \<lparr>s_leaseID = 0, s_leaseTTL = 0, s_leaseErr = None, s_heartbeat = None,
     s_heartbeatCancel = None, s_runDone = False, s_cancelled = {}\<rparr>"

definition startLease :: "leaseSession \<Rightarrow> uint64 \<Rightarrow> duration \<Rightarrow> leaseSession" where
  "startLease s leaseID leaseTTL = s\<lparr>s_leaseID := leaseID, s_leaseTTL := leaseTTL, s_leaseErr := None\<rparr>"

definition activeLeaseID :: "leaseSession \<Rightarrow> client_err + uint64" where
  "activeLeaseID s =
     (case s_leaseErr s of
        Some err \<Rightarrow> Inl err
      | None \<Rightarrow> if s_leaseID s = 0 then Inl (ClientError ''client has no active lease; call Start first'')
                else Inr (s_leaseID s))"

definition heartbeatState :: "leaseSession \<Rightarrow> uint64 \<times> nat option" where
  "heartbeatState s = (s_leaseID s, s_heartbeat s)"

definition runCancel :: "nat option \<Rightarrow> leaseSession \<Rightarrow> leaseSession" where
  "runCancel cancel s = (case cancel of None \<Rightarrow> s | Some stream \<Rightarrow> s\<lparr>s_cancelled := insert stream (s_cancelled s)\<rparr>)"

definition swapHeartbeat :: "leaseSession \<Rightarrow> nat \<Rightarrow> nat option \<times> leaseSession" where
  "swapHeartbeat s stream =
     (s_heartbeatCancel s, s\<lparr>s_heartbeat := Some stream, s_heartbeatCancel := Some stream\<rparr>)"

definition closeHeartbeat :: "leaseSession \<Rightarrow> nat \<Rightarrow> leaseSession" where
  "closeHeartbeat s stream =
     (if s_heartbeat s \<noteq> Some stream then s
      else runCancel (s_heartbeatCancel s) (s\<lparr>s_heartbeat := None, s_heartbeatCancel := None\<rparr>))"

definition invalidate :: "leaseSession \<Rightarrow> client_err \<Rightarrow> leaseSession" where
  "invalidate s err =
     (let s1 = (if s_leaseErr s = None then s\<lparr>s_leaseErr := Some err\<rparr> else s);
          s2 = runCancel (s_heartbeatCancel s1) (s1\<lparr>s_heartbeat := None, s_heartbeatCancel := None\<rparr>)
      in s2\<lparr>s_runDone := True\<rparr>)"

definition session_stop :: "leaseSession \<Rightarrow> leaseSession" where
  "session_stop s =
     (let s1 = s\<lparr>s_runDone := True\<rparr>
      in runCancel (s_heartbeatCancel s1) (s1\<lparr>s_heartbeat := None, s_heartbeatCancel := None\<rparr>))"

section \<open>One heartbeat\<close>

text \<open>
  How an exchange on a stream ends: with the response to the request, an error of \<open>Send\<close> or
  \<open>Recv\<close>, its timeout, or the end of the attempt's context.
\<close>

datatype exchange = Acknowledged_by uint64 | StreamError client_err | ExchangeTimeout | ExchangeCtxDone client_err

text \<open>
  What an attempt meets: the status calls of a discovery, dialling the leader, the stream
  that opens there (and when), and the exchange.
\<close>

record hb_env =
  hb_discover :: "nat \<Rightarrow> Pb_GetStatusResponse net"
  hb_dial :: "string \<Rightarrow> client_err + conn"
  hb_stream :: "client_err + nat"
  hb_opened :: time
  hb_exchange :: exchange

definition openHeartbeatStream :: "(string \<Rightarrow> client_err + conn) \<Rightarrow> client_err + nat \<Rightarrow> leaseSession \<Rightarrow> resolver \<Rightarrow> string \<Rightarrow>
    client_err option \<times> leaseSession \<times> resolver" where
  "openHeartbeatStream dial opened s r addr =
     (case connFor dial (\<lambda>r. r) r addr of
        (Inl err, r', closed) \<Rightarrow> (Some err, s, r')
      | (Inr conn, r', closed) \<Rightarrow>
          (case opened of
             Inl err \<Rightarrow> (Some (ClientWrapped ''heartbeat stream'' err), s, r')
           | Inr stream \<Rightarrow>
               (case swapHeartbeat s stream of
                  (oldCancel, s') \<Rightarrow> (None, runCancel oldCancel s', rememberAddr r' addr))))"

definition reconnectHeartbeat :: "hb_env \<Rightarrow> leaseSession \<Rightarrow> resolver \<Rightarrow> client_err option \<times> leaseSession \<times> resolver" where
  "reconnectHeartbeat env s r =
     (case discoverLeader (hb_discover env) r of
        (Inl err, r') \<Rightarrow> (Some err, s, r')
      | (Inr leaderAddr, r') \<Rightarrow> openHeartbeatStream (hb_dial env) (hb_stream env) s r' leaderAddr)"

definition heartbeatExchange :: "exchange \<Rightarrow> leaseSession \<Rightarrow> uint64 \<Rightarrow> nat \<Rightarrow> client_err option \<times> leaseSession" where
  "heartbeatExchange ex s leaseID stream =
     (case ex of
        Acknowledged_by i \<Rightarrow>
          if i = leaseID then (None, s)
          else (Some (ClientError ''heartbeat response lease mismatch''), closeHeartbeat s stream)
      | StreamError err \<Rightarrow> (Some err, closeHeartbeat s stream)
      | ExchangeTimeout \<Rightarrow> (Some (ClientError ''heartbeat acknowledgement timed out''), closeHeartbeat s stream)
      | ExchangeCtxDone err \<Rightarrow> (Some err, closeHeartbeat s stream))"

definition heartbeatAttempt :: "hb_env \<Rightarrow> leaseSession \<Rightarrow> resolver \<Rightarrow> client_err option \<times> leaseSession \<times> resolver" where
  "heartbeatAttempt env s r =
     (case heartbeatState s of
        (leaseID, Some stream) \<Rightarrow>
          (case heartbeatExchange (hb_exchange env) s leaseID stream of (err, s') \<Rightarrow> (err, s', r))
      | (leaseID, None) \<Rightarrow>
          (case reconnectHeartbeat env s r of
             (Some err, s', r') \<Rightarrow> (Some err, s', r')
           | (None, s', r') \<Rightarrow>
               (case heartbeatState s' of
                  (leaseID', None) \<Rightarrow> (Some (ClientError ''heartbeat stream unavailable''), s', r')
                | (leaseID', Some stream) \<Rightarrow>
                    (case heartbeatExchange (hb_exchange env) s' leaseID' stream of (err, s'') \<Rightarrow> (err, s'', r')))))"

section \<open>The loop\<close>

text \<open>
  Where the loop is: waiting for a tick, waiting to retry until \<open>giveUpAt\<close> with a backoff, or
  returned. The clock is the instant of the last control point.
\<close>

datatype hb_phase = AwaitTick | Retrying time int | LoopReturned

record hb_loop =
  hl_session :: leaseSession
  hl_resolver :: resolver
  hl_ttl :: int
  hl_confirmedAt :: time
  hl_lastTick :: time
  hl_clock :: time
  hl_phase :: hb_phase

text \<open>
  An event: the session's context is done while the loop waits; or the wait ends, with an
  attempt that starts \<open>sentAt\<close>, ends at another instant, and finds the context done or not.
\<close>

datatype hb_event = SessionDone | Attempt time hb_env time bool

text \<open>The head of the inner loop: give up, or wait to retry.\<close>

definition retryOrGiveUp :: "hb_loop \<Rightarrow> client_err \<Rightarrow> time \<Rightarrow> int \<Rightarrow> hb_loop" where
  "retryOrGiveUp l err giveUpAt backoff =
     (if giveUpAt - hl_clock l \<le> 0
      then l\<lparr>hl_session := invalidate (hl_session l) (ClientWrapped ''heartbeat'' ErrLeaseUnavailable), hl_phase := LoopReturned\<rparr>
      else l\<lparr>hl_phase := Retrying giveUpAt backoff\<rparr>)"

fun hbStep :: "hb_loop \<Rightarrow> hb_event \<Rightarrow> hb_loop" where
  "hbStep l SessionDone = l\<lparr>hl_phase := LoopReturned\<rparr>"
| "hbStep l (Attempt sentAt env endAt ctxDone) =
     (case heartbeatAttempt env (hl_session l) (hl_resolver l) of
        (result, s, r) \<Rightarrow>
          (let l' = l\<lparr>hl_session := s, hl_resolver := r, hl_clock := endAt\<rparr> in
           case hl_phase l of
             LoopReturned \<Rightarrow> l
           | AwaitTick \<Rightarrow>
               (let l'' = l'\<lparr>hl_lastTick := sentAt\<rparr> in
                case result of
                  None \<Rightarrow> l''\<lparr>hl_confirmedAt := sentAt\<rparr>
                | Some err \<Rightarrow>
                    if ctxDone then l''\<lparr>hl_phase := LoopReturned\<rparr>
                    else retryOrGiveUp l'' err (hl_confirmedAt l + (hl_ttl l - hl_ttl l sdiv 4)) (ms 50))
           | Retrying giveUpAt backoff \<Rightarrow>
               if ctxDone then l'\<lparr>hl_phase := LoopReturned\<rparr>
               else
                 (case result of
                    None \<Rightarrow> l'\<lparr>hl_confirmedAt := sentAt, hl_phase := AwaitTick\<rparr>
                  | Some err \<Rightarrow> retryOrGiveUp l' err giveUpAt (min (2 * backoff) (ms 500)))))"

definition heartbeatLoop :: "leaseSession \<Rightarrow> resolver \<Rightarrow> time \<Rightarrow> time \<Rightarrow> hb_event list \<Rightarrow> hb_loop" where
  "heartbeatLoop s r confirmedAt now events =
     foldl hbStep \<lparr>hl_session = s, hl_resolver = r, hl_ttl = sint (s_leaseTTL s), hl_confirmedAt = confirmedAt,
                   hl_lastTick = now, hl_clock = now, hl_phase = AwaitTick\<rparr> events"

section \<open>Time\<close>

definition hbInterval :: "hb_loop \<Rightarrow> int" where
  "hbInterval l = hl_ttl l sdiv 3"

text \<open>When the wait of the loop is over, and the timeout of the attempt that follows.\<close>

definition wakesAt :: "hb_loop \<Rightarrow> time" where
  "wakesAt l =
     (case hl_phase l of
        AwaitTick \<Rightarrow> max (hl_clock l) (hl_lastTick l + hbInterval l)
      | Retrying giveUpAt backoff \<Rightarrow> hl_clock l + min backoff (giveUpAt - hl_clock l)
      | LoopReturned \<Rightarrow> hl_clock l)"

definition attemptTimeout :: "hb_loop \<Rightarrow> time \<Rightarrow> int" where
  "attemptTimeout l sentAt =
     (case hl_phase l of
        Retrying giveUpAt backoff \<Rightarrow> min (hbInterval l) (max (giveUpAt - sentAt) (ms 1))
      | _ \<Rightarrow> hbInterval l)"

text \<open>
  An event in time, with delays of at most \<open>d\<close>: ticker and timer wake the loop, and the
  attempt ends when its timeout is over. An attempt that opens a stream does so under the
  context of the session, which the timeout does not end: it takes as long as the opening.
\<close>

fun in_time :: "int \<Rightarrow> hb_loop \<Rightarrow> hb_event \<Rightarrow> bool" where
  "in_time d l SessionDone = True"
| "in_time d l (Attempt sentAt env endAt ctxDone) \<longleftrightarrow>
     hl_clock l \<le> sentAt \<and> sentAt \<le> wakesAt l + d \<and> sentAt \<le> endAt \<and>
     endAt \<le> max (sentAt + attemptTimeout l sentAt)
              (if s_heartbeat (hl_session l) = None then hb_opened env else sentAt) + d"

fun opens_in_time :: "hb_loop \<Rightarrow> hb_event \<Rightarrow> bool" where
  "opens_in_time l SessionDone = True"
| "opens_in_time l (Attempt sentAt env endAt ctxDone) \<longleftrightarrow> hb_opened env \<le> sentAt + attemptTimeout l sentAt"

text \<open>A condition on every event of a run, in the state where it occurs.\<close>

fun each_event :: "(hb_loop \<Rightarrow> hb_event \<Rightarrow> bool) \<Rightarrow> hb_loop \<Rightarrow> hb_event list \<Rightarrow> bool" where
  "each_event P l [] = True"
| "each_event P l (ev # evs) \<longleftrightarrow> P l ev \<and> each_event P (hbStep l ev) evs"

text \<open>What holds at every control point of a loop that is in time.\<close>

definition loop_proven :: "int \<Rightarrow> hb_loop \<Rightarrow> bool" where
  "loop_proven d l \<longleftrightarrow> hl_lastTick l \<le> hl_clock l \<and>
     (case hl_phase l of
        AwaitTick \<Rightarrow> wakesAt l \<le> hl_confirmedAt l + hbInterval l + d
      | Retrying giveUpAt backoff \<Rightarrow>
          giveUpAt = hl_confirmedAt l + (hl_ttl l - hl_ttl l sdiv 4) \<and> hl_clock l < giveUpAt
      | LoopReturned \<Rightarrow> True)"

lemma sdiv_pos: "0 \<le> (a :: int) \<Longrightarrow> 0 < b \<Longrightarrow> a sdiv b = a div b"
  by (cases "a = 0") (simp_all add: signed_divide_int_def)

lemma hl_ttl_step [simp]: "hl_ttl (hbStep l ev) = hl_ttl l"
  by (cases ev) (auto simp: retryOrGiveUp_def Let_def split: prod.splits hb_phase.splits option.splits)

lemma hl_clock_attempt: "hl_phase l \<noteq> LoopReturned \<Longrightarrow> hl_clock (hbStep l (Attempt sentAt env endAt ctxDone)) = endAt"
  by (auto simp: retryOrGiveUp_def Let_def split: prod.splits hb_phase.splits option.splits)

text \<open>The bounds of one attempt: when it starts and when it ends, after the last proof.\<close>

lemma attempt_bounds:
  assumes "loop_proven d l" and ttl: "ms 1000 \<le> hl_ttl l" and d: "0 \<le> d" "10 * d \<le> hl_ttl l"
    and time: "in_time d l (Attempt sentAt env endAt ctxDone)" "opens_in_time l (Attempt sentAt env endAt ctxDone)"
    and "hl_phase l \<noteq> LoopReturned"
  shows "hl_lastTick l \<le> sentAt \<and> sentAt \<le> endAt \<and> endAt \<le> sentAt + hbInterval l + d \<and>
    endAt < hl_confirmedAt l + hl_ttl l"
proof -
  let ?T = "hl_ttl l"
  have q: "?T sdiv 3 = ?T div 3" "?T sdiv 4 = ?T div 4" using ttl by (auto simp: ms_def sdiv_pos)
  have t: "1000000000 \<le> ?T" using ttl by (simp add: ms_def)
  have pos: "0 < attemptTimeout l sentAt" "attemptTimeout l sentAt \<le> hbInterval l"
    using t by (auto simp: attemptTimeout_def hbInterval_def q ms_def split: hb_phase.splits)
  then have e: "endAt \<le> sentAt + attemptTimeout l sentAt + d" "sentAt \<le> endAt" "hl_clock l \<le> sentAt"
      "sentAt \<le> wakesAt l + d"
    using time by (auto split: if_splits)
  have lt: "hl_lastTick l \<le> sentAt" using assms(1) e(3) by (simp add: loop_proven_def)
  have "endAt < hl_confirmedAt l + ?T"
  proof (cases "hl_phase l")
    case AwaitTick
    then have "sentAt \<le> hl_confirmedAt l + ?T div 3 + d + d"
      using assms(1) e(4) by (simp add: loop_proven_def hbInterval_def q)
    moreover have "endAt \<le> sentAt + ?T div 3 + d" using e(1) pos(2) by (simp add: hbInterval_def q)
    ultimately show ?thesis using d t by linarith
  next
    case (Retrying giveUpAt backoff)
    then have g: "giveUpAt = hl_confirmedAt l + (?T - ?T div 4)" "sentAt \<le> giveUpAt + d"
      using assms(1) e(4) by (auto simp: loop_proven_def wakesAt_def q)
    have "attemptTimeout l sentAt \<le> max (giveUpAt - sentAt) 1000000" using Retrying by (simp add: attemptTimeout_def ms_def)
    then have "endAt \<le> giveUpAt + d + 1000000 + d" using e(1) g(2) d(1) by linarith
    then show ?thesis using g(1) d t by linarith
  qed (use assms(7) in simp)
  then show ?thesis using lt e(1,2) pos(2) by linarith
qed

lemma loop_proven_step:
  assumes "loop_proven d l" and "ms 1000 \<le> hl_ttl l" and "0 \<le> d" and "10 * d \<le> hl_ttl l"
    and "in_time d l ev" and "opens_in_time l ev"
  shows "loop_proven d (hbStep l ev)"
proof (cases "ev = SessionDone \<or> hl_phase l = LoopReturned")
  case True
  then show ?thesis using assms(1) by (cases ev) (auto simp: loop_proven_def split: prod.splits)
next
  case False
  then obtain sentAt env endAt ctxDone where ev: "ev = Attempt sentAt env endAt ctxDone" by (cases ev) auto
  obtain res s r where a: "heartbeatAttempt env (hl_session l) (hl_resolver l) = (res, s, r)" by (metis prod_cases3)
  have b: "hl_lastTick l \<le> sentAt" "sentAt \<le> endAt" "endAt \<le> sentAt + hbInterval l + d"
    using attempt_bounds [OF assms(1-4)] assms(5,6) False unfolding ev by blast+
  show ?thesis
  proof (cases "hl_phase l")
    case AwaitTick
    then show ?thesis
      using assms(1,3) b by (auto simp: ev a loop_proven_def wakesAt_def hbInterval_def retryOrGiveUp_def Let_def split: option.splits)
  next
    case (Retrying giveUpAt backoff)
    then show ?thesis
      using assms(1,3) b by (auto simp: ev a loop_proven_def wakesAt_def hbInterval_def retryOrGiveUp_def Let_def split: option.splits)
  qed (use False in simp)
qed

lemma loop_proven_run:
  assumes "loop_proven d l" and "ms 1000 \<le> hl_ttl l" and "0 \<le> d" and "10 * d \<le> hl_ttl l"
    and "each_event (in_time d) l evs" and "each_event opens_in_time l evs"
  shows "loop_proven d (foldl hbStep l evs) \<and> hl_ttl (foldl hbStep l evs) = hl_ttl l"
  using assms
proof (induction evs arbitrary: l)
  case (Cons ev evs)
  then have "loop_proven d (hbStep l ev)" using loop_proven_step by simp
  then show ?case using Cons by simp
qed simp

definition loop_start :: "leaseSession \<Rightarrow> resolver \<Rightarrow> time \<Rightarrow> time \<Rightarrow> hb_loop" where
  "loop_start s r confirmedAt now = heartbeatLoop s r confirmedAt now []"

lemma heartbeatLoop_start: "heartbeatLoop s r confirmedAt now evs = foldl hbStep (loop_start s r confirmedAt now) evs"
  by (simp add: heartbeatLoop_def loop_start_def)

lemma loop_start_proven:
  assumes "now \<le> confirmedAt + d" and "0 \<le> sint (s_leaseTTL s)"
  shows "loop_proven d (loop_start s r confirmedAt now)"
  using assms by (simp add: loop_proven_def loop_start_def heartbeatLoop_def wakesAt_def hbInterval_def sdiv_pos)

lemma loop_inside_proof:
  assumes "ms 1000 \<le> sint (s_leaseTTL s)" and "0 \<le> d" and "10 * d \<le> sint (s_leaseTTL s)"
    and "now \<le> confirmedAt + d"
    and "l = heartbeatLoop s r confirmedAt now evs" and "hl_phase l \<noteq> LoopReturned"
    and "each_event (in_time d) (loop_start s r confirmedAt now) (evs @ [ev])"
    and "each_event opens_in_time (loop_start s r confirmedAt now) (evs @ [ev])"
  shows "hl_clock l < hl_confirmedAt l + sint (s_leaseTTL s) \<and>
    hl_clock (hbStep l ev) < hl_confirmedAt l + sint (s_leaseTTL s)"
proof -
  let ?l0 = "loop_start s r confirmedAt now"
  have split: "each_event P l' (evs @ [ev]) \<longleftrightarrow> each_event P l' evs \<and> P (foldl hbStep l' evs) ev" for P l'
    by (induction evs arbitrary: l') auto
  have ttl0: "hl_ttl ?l0 = sint (s_leaseTTL s)" by (simp add: loop_start_def heartbeatLoop_def)
  have pos: "0 \<le> sint (s_leaseTTL s)" using assms(1) by (simp add: ms_def)
  have l: "l = foldl hbStep ?l0 evs" using assms(5) by (simp add: heartbeatLoop_start)
  then have p: "loop_proven d l" "hl_ttl l = sint (s_leaseTTL s)"
    using loop_proven_run [OF loop_start_proven [OF assms(4) pos], of r evs] assms(1-3,7,8) ttl0 by (auto simp: split)
  have ev: "in_time d l ev" "opens_in_time l ev" using assms(7,8) l by (auto simp: split)
  have now: "hl_clock l < hl_confirmedAt l + sint (s_leaseTTL s)"
  proof (cases "hl_phase l")
    case AwaitTick
    then show ?thesis
      using p assms(1-3) by (auto simp: loop_proven_def wakesAt_def hbInterval_def sdiv_pos ms_def)
  next
    case (Retrying giveUpAt backoff)
    then show ?thesis using p assms(1) by (auto simp: loop_proven_def sdiv_pos ms_def)
  qed (use assms(6) in simp)
  moreover have "hl_clock (hbStep l ev) < hl_confirmedAt l + sint (s_leaseTTL s)"
  proof (cases ev)
    case SessionDone
    then show ?thesis using now by simp
  next
    case (Attempt sentAt env endAt ctxDone)
    then show ?thesis
      using attempt_bounds [OF p(1)] p(2) assms(1-3,6) ev hl_clock_attempt [OF assms(6)] by simp
  qed
  ultimately show ?thesis by simp
qed


section \<open>Streams and failure\<close>

text \<open>The stream of a session and its cancel function belong together.\<close>

definition session_ok :: "leaseSession \<Rightarrow> bool" where
  "session_ok s \<longleftrightarrow> s_heartbeatCancel s = s_heartbeat s"

text \<open>A stream that is no longer the current one has been cancelled, and stays so.\<close>

definition streams_kept :: "leaseSession \<Rightarrow> leaseSession \<Rightarrow> bool" where
  "streams_kept s s' \<longleftrightarrow> s_cancelled s \<subseteq> s_cancelled s' \<and>
     (\<forall>x. s_heartbeat s = Some x \<longrightarrow> s_heartbeat s' = Some x \<or> x \<in> s_cancelled s')"

lemmas session_defs = runCancel_def swapHeartbeat_def closeHeartbeat_def invalidate_def session_stop_def
  openHeartbeatStream_def reconnectHeartbeat_def heartbeatExchange_def heartbeatState_def

lemma streams_kept_refl [simp]: "streams_kept s s"
  by (auto simp: streams_kept_def)

lemma streams_kept_trans: "streams_kept a b \<Longrightarrow> streams_kept b c \<Longrightarrow> streams_kept a c"
  unfolding streams_kept_def by (metis subset_iff)

lemma closeHeartbeat_kept: "session_ok s \<Longrightarrow> session_ok (closeHeartbeat s x) \<and> streams_kept s (closeHeartbeat s x)"
  by (auto simp: session_ok_def streams_kept_def session_defs split: option.splits)

lemma invalidate_kept: "session_ok s \<Longrightarrow> session_ok (invalidate s e) \<and> streams_kept s (invalidate s e)"
  by (auto simp: session_ok_def streams_kept_def session_defs Let_def split: option.splits)

lemma openHeartbeatStream_kept:
  "session_ok s \<Longrightarrow> openHeartbeatStream dial opened s r a = (res, s', r') \<Longrightarrow> session_ok s' \<and> streams_kept s s'"
  by (auto simp: session_ok_def streams_kept_def session_defs split: prod.splits sum.splits option.splits)

lemma heartbeatExchange_kept:
  "session_ok s \<Longrightarrow> heartbeatExchange ex s i x = (res, s') \<Longrightarrow> session_ok s' \<and> streams_kept s s'"
  using closeHeartbeat_kept [of s x] by (auto simp: heartbeatExchange_def split: exchange.splits if_splits)

lemma reconnectHeartbeat_kept:
  "session_ok s \<Longrightarrow> reconnectHeartbeat env s r = (res, s', r') \<Longrightarrow> session_ok s' \<and> streams_kept s s'"
  using openHeartbeatStream_kept [of s "hb_dial env" "hb_stream env"]
  by (auto simp: reconnectHeartbeat_def split: prod.splits sum.splits)

lemma heartbeatAttempt_kept:
  assumes "session_ok s" and "heartbeatAttempt env s r = (res, s', r')"
  shows "session_ok s' \<and> streams_kept s s'"
proof (cases "s_heartbeat s")
  case (Some x)
  then show ?thesis
    using assms heartbeatExchange_kept [OF assms(1)] by (auto simp: heartbeatAttempt_def heartbeatState_def split: prod.splits)
next
  case None
  obtain e s1 r1 where rec: "reconnectHeartbeat env s r = (e, s1, r1)" by (metis prod_cases3)
  note s1 = reconnectHeartbeat_kept [OF assms(1) rec]
  show ?thesis
  proof (cases "e = None \<and> s_heartbeat s1 \<noteq> None")
    case True
    then obtain x s2 e2 where "heartbeatExchange (hb_exchange env) s1 (s_leaseID s1) x = (e2, s2)" "s' = s2"
      using assms(2) None rec by (auto simp: heartbeatAttempt_def heartbeatState_def split: prod.splits)
    then show ?thesis using heartbeatExchange_kept [of s1] s1 streams_kept_trans by blast
  next
    case False
    then show ?thesis
      using assms(2) None rec s1 by (auto simp: heartbeatAttempt_def heartbeatState_def split: option.splits)
  qed
qed

lemma session_step:
  "hl_session (hbStep l SessionDone) = hl_session l"
  "heartbeatAttempt env (hl_session l) (hl_resolver l) = (res, s, r) \<Longrightarrow>
     hl_session (hbStep l (Attempt t env t' ctxDone)) \<in>
       (if hl_phase l = LoopReturned then {hl_session l}
        else {s, invalidate s (ClientWrapped ''heartbeat'' ErrLeaseUnavailable)})"
  by (auto simp: retryOrGiveUp_def Let_def split: hb_phase.splits option.splits)

lemma hbStep_kept:
  assumes "session_ok (hl_session l)"
  shows "session_ok (hl_session (hbStep l ev)) \<and> streams_kept (hl_session l) (hl_session (hbStep l ev))"
proof (cases ev)
  case (Attempt t env t' ctxDone)
  obtain res s r where a: "heartbeatAttempt env (hl_session l) (hl_resolver l) = (res, s, r)" by (metis prod_cases3)
  note s = heartbeatAttempt_kept [OF assms a]
  then show ?thesis
    using session_step(2) [OF a, of t t' ctxDone] assms invalidate_kept [of s] streams_kept_trans
    unfolding Attempt by (auto split: if_splits)
qed (use assms in simp)

lemma run_kept:
  "session_ok (hl_session l) \<Longrightarrow>
     session_ok (hl_session (foldl hbStep l evs)) \<and> streams_kept (hl_session l) (hl_session (foldl hbStep l evs))"
proof (induction evs arbitrary: l)
  case (Cons ev evs)
  then show ?case using hbStep_kept [of l ev] streams_kept_trans by fastforce
qed simp

text \<open>An attempt neither sets nor clears the error of the session.\<close>

lemma heartbeatAttempt_leaseErr: "heartbeatAttempt env s r = (res, s', r') \<Longrightarrow> s_leaseErr s' = s_leaseErr s"
  by (auto simp: heartbeatAttempt_def session_defs split: prod.splits sum.splits option.splits exchange.splits if_splits)

definition giveUp_ok :: "hb_loop \<Rightarrow> bool" where
  "giveUp_ok l \<longleftrightarrow> (\<forall>g b. hl_phase l = Retrying g b \<longrightarrow> g = hl_confirmedAt l + (hl_ttl l - hl_ttl l sdiv 4))"

lemma giveUp_ok_step: "giveUp_ok l \<Longrightarrow> giveUp_ok (hbStep l ev)"
  by (cases ev)
    (auto simp: giveUp_ok_def retryOrGiveUp_def Let_def split: prod.splits hb_phase.splits option.splits)

lemma giveUp_ok_run: "giveUp_ok l \<Longrightarrow> giveUp_ok (foldl hbStep l evs)"
  by (induction evs arbitrary: l) (auto simp: giveUp_ok_step)

lemma hl_ttl_run [simp]: "hl_ttl (foldl hbStep l evs) = hl_ttl l"
  by (induction evs arbitrary: l) auto

text \<open>The step that invalidates the session.\<close>

lemma invalidating_step:
  assumes "giveUp_ok l" and "s_leaseErr (hl_session l) = None" and "s_leaseErr (hl_session (hbStep l ev)) \<noteq> None"
  shows "hl_confirmedAt l + (hl_ttl l - hl_ttl l sdiv 4) \<le> hl_clock (hbStep l ev)"
    and "hl_phase (hbStep l ev) = LoopReturned"
    and "\<exists>t env t' ctxDone res s r. ev = Attempt t env t' ctxDone \<and>
      heartbeatAttempt env (hl_session l) (hl_resolver l) = (res, s, r) \<and>
      hl_session (hbStep l ev) = invalidate s (ClientWrapped ''heartbeat'' ErrLeaseUnavailable)"
proof -
  obtain t env t' ctxDone where ev: "ev = Attempt t env t' ctxDone"
    using assms(2,3) by (cases ev) auto
  obtain res s r where a: "heartbeatAttempt env (hl_session l) (hl_resolver l) = (res, s, r)" by (metis prod_cases3)
  have s: "s_leaseErr s = None" using heartbeatAttempt_leaseErr [OF a] assms(2) by simp
  show "hl_confirmedAt l + (hl_ttl l - hl_ttl l sdiv 4) \<le> hl_clock (hbStep l ev)" "hl_phase (hbStep l ev) = LoopReturned"
    using assms s by (auto simp: ev a giveUp_ok_def retryOrGiveUp_def Let_def split: hb_phase.splits option.splits if_splits)
  have "hl_session (hbStep l ev) = invalidate s (ClientWrapped ''heartbeat'' ErrLeaseUnavailable)"
    using session_step(2) [OF a, of t t' ctxDone] assms(2,3) s unfolding ev by (auto split: if_splits)
  then show "\<exists>t env t' ctxDone res s r. ev = Attempt t env t' ctxDone \<and>
      heartbeatAttempt env (hl_session l) (hl_resolver l) = (res, s, r) \<and>
      hl_session (hbStep l ev) = invalidate s (ClientWrapped ''heartbeat'' ErrLeaseUnavailable)"
    using ev a by blast
qed

lemma returned_stays: "hl_phase l = LoopReturned \<Longrightarrow> hl_session (foldl hbStep l evs) = hl_session l"
proof (induction evs arbitrary: l)
  case (Cons ev evs)
  then have "hl_phase (hbStep l ev) = LoopReturned \<and> hl_session (hbStep l ev) = hl_session l"
    by (cases ev) (auto simp: Let_def split: prod.splits)
  then show ?case using Cons.IH by simp
qed simp

lemma invalidate_closed:
  "s_leaseErr s = None \<Longrightarrow> activeLeaseID (invalidate s e) = Inl e" "s_runDone (invalidate s e)"
  "s_heartbeat (invalidate s e) = None"
  by (auto simp: invalidate_def activeLeaseID_def runCancel_def Let_def split: option.splits)

text \<open>
  C22: A session fails closed, and not too early. When the heartbeat loop invalidates the
  session, at least three quarters of the TTL have passed since the last acknowledged
  renewal was sent; from then on every lock operation of the client is refused with
  \<open>ErrLeaseUnavailable\<close>, the session's context is done, its stream has been cancelled, and
  no later event of the loop changes that.
\<close>

theorem session_fails_closed:
  assumes "session_ok s" and "l = heartbeatLoop s r confirmedAt now evs"
    and "s_leaseErr (hl_session l) = None" and "s_leaseErr (hl_session (hbStep l ev)) \<noteq> None"
  shows "hl_confirmedAt l + (sint (s_leaseTTL s) - sint (s_leaseTTL s) sdiv 4) \<le> hl_clock (hbStep l ev) \<and>
    (let s' = hl_session (foldl hbStep (hbStep l ev) evs') in
     activeLeaseID s' = Inl (ClientWrapped ''heartbeat'' ErrLeaseUnavailable) \<and> s_runDone s' \<and> s_heartbeat s' = None \<and>
     (\<forall>x. s_heartbeat (hl_session l) = Some x \<longrightarrow> x \<in> s_cancelled s'))"
proof -
  let ?l0 = "loop_start s r confirmedAt now"
  have l: "l = foldl hbStep ?l0 evs" "session_ok (hl_session ?l0)" "hl_ttl ?l0 = sint (s_leaseTTL s)" "giveUp_ok ?l0"
    using assms(1,2) by (simp_all add: heartbeatLoop_def loop_start_def giveUp_ok_def)
  have "giveUp_ok l" using giveUp_ok_run [OF l(4)] l(1) by simp
  note inv = invalidating_step [OF this assms(3,4)]
  then obtain t env t' ctxDone res s1 r1 where step: "heartbeatAttempt env (hl_session l) (hl_resolver l) = (res, s1, r1)"
      "hl_session (hbStep l ev) = invalidate s1 (ClientWrapped ''heartbeat'' ErrLeaseUnavailable)"
    by blast
  have later: "hl_session (foldl hbStep (hbStep l ev) evs') = hl_session (hbStep l ev)"
    by (rule returned_stays [OF inv(2)])
  have ok: "session_ok (hl_session l)" using run_kept [OF l(2), of evs] l(1) by simp
  have "s_leaseErr s1 = None" using heartbeatAttempt_leaseErr [OF step(1)] assms(3) by simp
  moreover have "streams_kept (hl_session l) (hl_session (hbStep l ev))" using hbStep_kept [OF ok] by simp
  moreover have "s_heartbeat (hl_session (hbStep l ev)) = None" by (simp add: step(2) invalidate_closed)
  moreover have "hl_ttl l = sint (s_leaseTTL s)" using l(1,3) by simp
  ultimately show ?thesis
    using inv(1) invalidate_closed [of s1] by (simp add: later step(2) streams_kept_def)
qed

definition demo_session :: leaseSession where
  "demo_session = \<lparr>s_leaseID = 7, s_leaseTTL = 3000000000, s_leaseErr = None, s_heartbeat = Some 1,
     s_heartbeatCancel = Some 1, s_runDone = False, s_cancelled = {}\<rparr>"

text \<open>A discovery that finds the node \<open>b:2\<close> as leader through the known node \<open>a:1\<close>.\<close>

definition demo_status :: "nat \<Rightarrow> Pb_GetStatusResponse net" where
  "demo_status k = \<lparr>net_ctx = None, net_dial = (\<lambda>a. Inr (Conn a k)), net_meanwhile = (\<lambda>r. r),
     net_call = (\<lambda>c. Inl (leaderhint_Error (\<lambda>a. True) ''b:2'')), net_unresponsive = False\<rparr>"

definition demo_beat :: "time \<Rightarrow> exchange \<Rightarrow> hb_env" where
  "demo_beat opened ex = \<lparr>hb_discover = demo_status, hb_dial = (\<lambda>a. Inr (Conn a 0)), hb_stream = Inr 2,
     hb_opened = opened, hb_exchange = ex\<rparr>"

lemmas session_eval = session_defs Let_def ms_def heartbeatAttempt_def retryOrGiveUp_def in_time.simps hbInterval_def
  wakesAt_def attemptTimeout_def loop_start_def heartbeatLoop_def demo_session_def demo_beat_def demo_status_def
  discoverLeader_def candidateAddrs_def newResolver_def connFor_def rememberAddr_def rememberSeedLocked_def
  signed_divide_int_def


theorem session_fails_closed_witness:
  "activeLeaseID (hl_session (hbStep (heartbeatLoop demo_session (newResolver [''a:1'']) 0 0
     [Attempt 1000000000 (demo_beat 0 ExchangeTimeout) 2000000000 False])
     (Attempt 2050000000 (demo_beat 0 ExchangeTimeout) 2250000000 False))) =
   Inl (ClientWrapped ''heartbeat'' ErrLeaseUnavailable)"
proof -
  let ?l = "heartbeatLoop demo_session (newResolver [''a:1'']) 0 0
    [Attempt 1000000000 (demo_beat 0 ExchangeTimeout) 2000000000 False]"
  let ?ev = "Attempt 2050000000 (demo_beat 0 ExchangeTimeout) 2250000000 False"
  have ok: "session_ok demo_session" by (simp add: session_ok_def demo_session_def)
  have err: "s_leaseErr (hl_session ?l) = None" "s_leaseErr (hl_session (hbStep ?l ?ev)) \<noteq> None"
    by (simp_all add: session_eval)
  from session_fails_closed [OF ok refl err, of "[]"] show ?thesis by (simp add: Let_def)
qed

text \<open>
  The condition on the opening of streams in \<open>loop_within_proof\<close> is needed: the stream is opened
  under the context of the session, which no timeout of the attempt ends. When discovery
  still names a dead leader and the connection to it hangs, an attempt that is in time
  otherwise returns long after the proof ran out, and until then the session hands out its
  lease.
\<close>

theorem slow_stream_outlives_proof:
  "\<exists>l ev. l = heartbeatLoop demo_session (newResolver [''a:1'']) 0 0
       [Attempt 1000000000 (demo_beat 0 ExchangeTimeout) 2000000000 False] \<and>
     in_time 0 l ev \<and> activeLeaseID (hl_session l) = Inr 7 \<and>
     hl_confirmedAt l + sint (s_leaseTTL (hl_session l)) + ms 10000 < hl_clock (hbStep l ev)"
  by (intro exI [of _ "heartbeatLoop demo_session (newResolver [''a:1'']) 0 0
         [Attempt 1000000000 (demo_beat 0 ExchangeTimeout) 2000000000 False]"]
       exI [of _ "Attempt 2050000000 (demo_beat 20000000000 ExchangeTimeout) 20000000000 False"])
    (simp add: session_eval activeLeaseID_def)

end
