(* ===== verification/Client_Locks.thy ===== *)
theory Client_Locks
  imports Client_Session
begin

text \<open>
  \<open>pkg/client/client.go\<close>, \<open>watch.go\<close> and \<open>lock.go\<close>: the operations of a client, built from
  the resolver and the session. The cluster is a parameter of each operation: for a
  request, what each attempt of the failover meets. A call that the model does not see
  return is \<open>None\<close>.
\<close>

record Client =
  c_ownerID :: string
  c_resolver :: resolver
  c_session :: leaseSession

record ClientLock =
  l_name :: string
  l_fencingToken :: uint64

definition NewClientWithSeeds :: "string list \<Rightarrow> string \<Rightarrow> client_err + Client" where
  "NewClientWithSeeds addrs ownerID =
     (let seeds = normalizeSeedAddrs addrs in
      if length seeds = 0 then Inl (ClientError ''at least one server address is required'')
      else if ownerID = '''' then Inl (ClientError ''ownerID is required'')
      else Inr \<lparr>c_ownerID = ownerID, c_resolver = newResolver seeds, c_session = newLeaseSession\<rparr>)"

section \<open>Starting a session\<close>

text \<open>
  What \<open>Start\<close> meets: the clock when it sends the request, the failover of the request (by
  owner and TTL in seconds), a discovery, dialling, and the stream that opens.
\<close>

record start_net =
  sn_sentAt :: time
  sn_call :: call_env
  sn_create :: "string \<Rightarrow> int64 \<Rightarrow> nat \<Rightarrow> nat \<Rightarrow> Pb_CreateLeaseResponse net"
  sn_discover :: "nat \<Rightarrow> Pb_GetStatusResponse net"
  sn_dial :: "string \<Rightarrow> client_err + conn"
  sn_stream :: "client_err + nat"

text \<open>The error, if any, the client, and the proof the heartbeat loop starts from, if it starts.\<close>

definition Client_Start :: "start_net \<Rightarrow> Client \<Rightarrow> duration \<Rightarrow> (client_err option \<times> Client \<times> time option) option" where
  "Client_Start env c ttl =
     (if sint ttl < sint second then Some (Some (ClientError ''ttl must be at least 1 second''), c, None)
      else
        (case callWithFailover (sn_call env) (sn_create env (c_ownerID c) (go_div ttl second)) (c_resolver c) of
           None \<Rightarrow> None
         | Some (Inl err, r) \<Rightarrow> Some (Some (ClientWrapped ''create lease'' err), c\<lparr>c_resolver := r\<rparr>, None)
         | Some (Inr resp, r) \<Rightarrow>
             if sint (PbCreate_TtlSeconds resp) \<le> 0
             then Some (Some (ClientError ''create lease: server returned invalid TTL''), c\<lparr>c_resolver := r\<rparr>, None)
             else
               (let s = startLease (c_session c) (PbCreate_LeaseId resp) (PbCreate_TtlSeconds resp * second) in
                case (if current r = '''' then discoverLeader (sn_discover env) r else (Inr (current r), r)) of
                  (Inl err, r') \<Rightarrow> Some (Some err, c\<lparr>c_resolver := r', c_session := s\<rparr>, None)
                | (Inr currentAddr, r') \<Rightarrow>
                    (case openHeartbeatStream (sn_dial env) (sn_stream env) s r' currentAddr of
                       (Some err, s', r'') \<Rightarrow>
                         Some (Some err, c\<lparr>c_resolver := r'',
                            c_session := invalidate s' (ClientWrapped ''start'' ErrLeaseUnavailable)\<rparr>, None)
                     | (None, s', r'') \<Rightarrow> Some (None, c\<lparr>c_resolver := r'', c_session := s'\<rparr>, Some (sn_sentAt env))))))"

section \<open>Locks\<close>

text \<open>The network of an acquisition: by lock, owner, lease and whether it waits.\<close>

type_synonym acquire_net = "string \<Rightarrow> string \<Rightarrow> uint64 \<Rightarrow> bool \<Rightarrow> nat \<Rightarrow> nat \<Rightarrow> Pb_AcquireLockResponse net"

definition Client_acquire :: "call_env \<Rightarrow> acquire_net \<Rightarrow> Client \<Rightarrow> string \<Rightarrow> bool \<Rightarrow> ((client_err + ClientLock) \<times> Client) option" where
  "Client_acquire env net c lockName wait =
     (case activeLeaseID (c_session c) of
        Inl err \<Rightarrow> Some (Inl err, c)
      | Inr leaseID \<Rightarrow>
          (case callWithFailover env (net lockName (c_ownerID c) leaseID wait) (c_resolver c) of
             None \<Rightarrow> None
           | Some (Inl err, r) \<Rightarrow>
               Some (Inl (if client_Code err = AlreadyExists then ClientWrapped (''acquire lock '' @ lockName) ErrLockHeld
                          else ClientWrapped ''acquire lock'' err), c\<lparr>c_resolver := r\<rparr>)
           | Some (Inr resp, r) \<Rightarrow>
               Some (Inr \<lparr>l_name = lockName, l_fencingToken = PbAcquire_FencingToken resp\<rparr>, c\<lparr>c_resolver := r\<rparr>)))"

definition Client_Acquire :: "call_env \<Rightarrow> acquire_net \<Rightarrow> Client \<Rightarrow> string \<Rightarrow> ((client_err + ClientLock) \<times> Client) option" where
  "Client_Acquire env net c lockName = Client_acquire env net c lockName False"

definition Client_Release :: "call_env \<Rightarrow> (string \<Rightarrow> uint64 \<Rightarrow> nat \<Rightarrow> nat \<Rightarrow> bool net) \<Rightarrow> Client \<Rightarrow> string \<Rightarrow>
    (client_err option \<times> Client) option" where
  "Client_Release env net c lockName =
     (case activeLeaseID (c_session c) of
        Inl err \<Rightarrow> Some (Some err, c)
      | Inr leaseID \<Rightarrow>
          (case callWithFailover env (net lockName leaseID) (c_resolver c) of
             None \<Rightarrow> None
           | Some (Inl err, r) \<Rightarrow> Some (Some (ClientWrapped ''release lock'' err), c\<lparr>c_resolver := r\<rparr>)
           | Some (Inr resp, r) \<Rightarrow> Some (None, c\<lparr>c_resolver := r\<rparr>)))"

definition Token :: "ClientLock \<Rightarrow> uint64" where
  "Token l = l_fencingToken l"

definition Lock_Release :: "call_env \<Rightarrow> (string \<Rightarrow> uint64 \<Rightarrow> nat \<Rightarrow> nat \<Rightarrow> bool net) \<Rightarrow> Client \<Rightarrow> ClientLock \<Rightarrow>
    (client_err option \<times> Client) option" where
  "Lock_Release env net c l = Client_Release env net c (l_name l)"

definition Client_Status :: "call_env \<Rightarrow> (nat \<Rightarrow> nat \<Rightarrow> Pb_GetStatusResponse net) \<Rightarrow> Client \<Rightarrow>
    ((client_err + Pb_GetStatusResponse) \<times> Client) option" where
  "Client_Status env net c =
     (case callWithFailover env net (c_resolver c) of
        None \<Rightarrow> None
      | Some (Inl err, r) \<Rightarrow> Some (Inl err, c\<lparr>c_resolver := r\<rparr>)
      | Some (Inr resp, r) \<Rightarrow> Some (Inr resp, c\<lparr>c_resolver := rememberStatus r (Some resp)\<rparr>))"

text \<open>Whether the channel of \<open>Done\<close> is closed.\<close>

definition Client_Done :: "Client \<Rightarrow> bool" where
  "Client_Done c = s_runDone (c_session c)"

definition Client_Stop :: "(conn \<Rightarrow> client_err option) \<Rightarrow> Client \<Rightarrow> client_err option \<times> Client \<times> conn list" where
  "Client_Stop closeConn c =
     (let s = session_stop (c_session c) in
      case resolver_close closeConn (c_resolver c) of
        (resolverErr, r, closed) \<Rightarrow> (resolverErr, c\<lparr>c_session := s, c_resolver := r\<rparr>, closed))"

section \<open>Waiting\<close>

text \<open>
  One round of \<open>WaitAcquire\<close>: the failover of the request, the error of the context when it
  returns, how long it took, and the error of the context in the wait that may follow.
\<close>

record ask =
  ask_call :: call_env
  ask_net :: acquire_net
  ask_ctx :: "client_err option"
  ask_took :: int
  ask_waitDone :: "client_err option"

fun client_Is :: "client_err \<Rightarrow> client_err \<Rightarrow> bool" where
  "client_Is (ClientWrapped msg e) target = (ClientWrapped msg e = target \<or> client_Is e target)"
| "client_Is e target = (e = target)"

fun waitAcquireLoop :: "ask list \<Rightarrow> Client \<Rightarrow> string \<Rightarrow> int \<Rightarrow> ((client_err + ClientLock) \<times> Client) option" where
  "waitAcquireLoop [] c lockName backoff = None"
| "waitAcquireLoop (a # asks) c lockName backoff =
     (case Client_acquire (ask_call a) (ask_net a) c lockName True of
        None \<Rightarrow> None
      | Some (Inr lock, c') \<Rightarrow> Some (Inr lock, c')
      | Some (Inl err, c') \<Rightarrow>
          (case ask_ctx a of
             Some ctxErr \<Rightarrow> Some (Inl ctxErr, c')
           | None \<Rightarrow>
               if \<not> client_Is err ErrLockHeld then Some (Inl err, c')
               else if ask_took a < ms 100 then
                 (case ask_waitDone a of
                    Some ctxErr \<Rightarrow> Some (Inl ctxErr, c')
                  | None \<Rightarrow> waitAcquireLoop asks c' lockName (min (2 * backoff) (ms 1000)))
               else waitAcquireLoop asks c' lockName (ms 50)))"

definition WaitAcquire :: "ask list \<Rightarrow> Client \<Rightarrow> string \<Rightarrow> ((client_err + ClientLock) \<times> Client) option" where
  "WaitAcquire asks c lockName =
     (if lockName = '''' then Some (Inl (ClientError ''lockName is required''), c)
      else waitAcquireLoop asks c lockName (ms 50))"

section \<open>Where answers come from\<close>

text \<open>
  Everything a call returns comes from somewhere: errors \<open>E\<close> and answers \<open>V\<close> that the
  context, dialling and the nodes can produce.
\<close>

definition sources :: "(client_err \<Rightarrow> bool) \<Rightarrow> ('a \<Rightarrow> bool) \<Rightarrow> (nat \<Rightarrow> 'a net) \<Rightarrow> bool" where
  "sources E V net \<longleftrightarrow> E (ClientError ''all cluster addresses failed'') \<and>
     (\<forall>k e. net_ctx (net k) = Some e \<longrightarrow> E e) \<and>
     (\<forall>k a e msg. net_dial (net k) a = Inl e \<longrightarrow> E (ClientWrapped msg e)) \<and>
     (\<forall>k c e. net_call (net k) c = Inl e \<longrightarrow> E (Rpc e)) \<and> (\<forall>k c v. net_call (net k) c = Inr v \<longrightarrow> V v)"

definition result_ok :: "(client_err \<Rightarrow> bool) \<Rightarrow> ('a \<Rightarrow> bool) \<Rightarrow> client_err + 'a \<Rightarrow> bool" where
  "result_ok E V res = (case res of Inl e \<Rightarrow> E e | Inr v \<Rightarrow> V v)"

lemma connFor_error:
  "connFor (net_dial (net k)) m r a = (Inl err, r', closed) \<Longrightarrow> sources E V net \<Longrightarrow> E err"
  by (auto simp: connFor_def Let_def sources_def split: option.splits sum.splits)

lemma tryLoop_sources:
  assumes "tryLoop net k queue attempts lastErr r = Some y"
  shows "sources E V net \<longrightarrow> (\<forall>e. lastErr = Some e \<longrightarrow> E e) \<longrightarrow> result_ok E V (fst y)"
proof (rule tryLoop.raw_induct [OF _ assms], goal_cases)
  case (1 f net k queue attempts lastErr r y)
  note IH = 1(1) and run = 1(2)
  show ?case
  proof (intro impI)
    assume src: "sources E V net" and last: "\<forall>e. lastErr = Some e \<longrightarrow> E e"
    note IH' = IH [THEN mp, OF _ src, THEN mp]
    have s: "\<And>e. net_ctx (net k) = Some e \<Longrightarrow> E e" "\<And>c e. net_call (net k) c = Inl e \<Longrightarrow> E (Rpc e)"
        "\<And>c v. net_call (net k) c = Inr v \<Longrightarrow> V v" "E (ClientError ''all cluster addresses failed'')"
      using src by (auto simp: sources_def)
    show "result_ok E V (fst y)"
    proof (cases queue)
      case Nil
      then show ?thesis using run s(4) last by (auto simp: result_ok_def split: option.splits)
    next
      case (Cons addr queue')
      show ?thesis
      proof (cases "net_ctx (net k)")
        case (Some err)
        then show ?thesis using run Cons s(1) last by (auto simp: result_ok_def split: option.splits)
      next
        case None
        obtain res r' closed where conn: "connFor (net_dial (net k)) (net_meanwhile (net k)) r addr = (res, r', closed)"
          by (metis prod_cases3)
        show ?thesis
        proof (cases res)
          case (Inl err)
          then show ?thesis
            using run Cons None conn connFor_error [OF _ src] IH' last
            by (auto simp: Let_def split: if_splits)
        next
          case (Inr c)
          then show ?thesis
            using run Cons None conn IH' last s(2,3)
            by (cases "net_call (net k) c") (auto simp: Let_def result_ok_def split: if_splits)
        qed
      qed
    qed
  qed
qed

lemma callLoop_sources:
  assumes "callLoop env net p backoff r = Some y"
  shows "(\<forall>p. sources E V (net p)) \<longrightarrow> result_ok E V (fst y)"
proof (rule callLoop.raw_induct [OF _ assms], goal_cases)
  case (1 f env net p backoff r y)
  show ?case
  proof
    assume src: "\<forall>p. sources E V (net p)"
    obtain res retry r' att where pass: "tryCandidates (net p) r = Some (res, retry, r', att)"
      using 1(2) by (auto split: option.splits)
    then have "result_ok E V res"
      using tryLoop_sources [of "net p" 0 _ "\<lambda>a. 0" None r _ E V] src unfolding tryCandidates_def by fastforce
    then show "result_ok E V (fst y)"
      using 1 pass src by (auto split: if_splits)
  qed
qed

lemma callWithFailover_sources:
  "callWithFailover env net r = Some (res, r') \<Longrightarrow> \<forall>p. sources E V (net p) \<Longrightarrow> result_ok E V res"
  using callLoop_sources [of env net 0 "ms 50" r "(res, r')" E V] by (simp add: callWithFailover_def)

text \<open>Errors of contexts and of dialling carry no status and are none of the client's own.\<close>

definition plain_errors :: "(nat \<Rightarrow> nat \<Rightarrow> 'a net) \<Rightarrow> bool" where
  "plain_errors net \<longleftrightarrow> (\<forall>p k e. net_ctx (net p k) = Some e \<longrightarrow> e \<in> range CtxErr) \<and>
     (\<forall>p k a e. net_dial (net p k) a = Inl e \<longrightarrow> e \<in> range ClientError)"

lemma status_Code_plain [simp]: "status_Code (Some (PlainError m)) = Unknown"
  by (simp add: status_Code_def)

lemma call_answered:
  assumes "callWithFailover env net r = Some (res, r')" and "plain_errors net"
  shows "res = Inr v \<Longrightarrow> \<exists>p k c. net_call (net p k) c = Inr v"
    and "res = Inl e \<Longrightarrow> \<not> client_Is e ErrLockHeld \<and> (client_Code e = cd \<longrightarrow> cd \<noteq> Unknown \<longrightarrow>
      (\<exists>p k c err. net_call (net p k) c = Inl err \<and> status_Code (Some err) = cd))"
proof -
  let ?E = "\<lambda>e. \<not> client_Is e ErrLockHeld \<and> (client_Code e = cd \<longrightarrow> cd \<noteq> Unknown \<longrightarrow>
    (\<exists>p k c err. net_call (net p k) c = Inl err \<and> status_Code (Some err) = cd))"
  have plain: "net_ctx (net p k) = Some e \<Longrightarrow> ?E e" "net_dial (net p k) a = Inl e \<Longrightarrow> ?E (ClientWrapped m e)" for p k a e m
    using assms(2) unfolding plain_errors_def by fastforce+
  have "\<forall>p. sources ?E (\<lambda>v. \<exists>p k c. net_call (net p k) c = Inr v) (net p)"
    using plain by (auto simp: sources_def)
  from callWithFailover_sources [OF assms(1) this]
  show "res = Inr v \<Longrightarrow> \<exists>p k c. net_call (net p k) c = Inr v"
    and "res = Inl e \<Longrightarrow> ?E e"
    by (auto simp: result_ok_def)
qed

text \<open>
  A client never invents an outcome. It gets a lock handle only if some node answered a
  request for that lock, by this client's lease, with the token the handle carries. It
  reports \<open>ErrLockHeld\<close> only if some node answered \<open>AlreadyExists\<close>. Once its session has
  failed, it refuses with the session's error and asks nobody.
\<close>

theorem handles_are_granted:
  assumes "Client_acquire env net c lockName wait = Some (res, c')"
    and "\<And>i. plain_errors (net lockName (c_ownerID c) i wait)"
    and "\<And>e. s_leaseErr (c_session c) = Some e \<Longrightarrow> \<not> client_Is e ErrLockHeld"
  shows "(\<forall>lock. res = Inr lock \<longrightarrow> activeLeaseID (c_session c) = Inr (s_leaseID (c_session c)) \<and> l_name lock = lockName \<and>
      (\<exists>p k conn resp. net_call (net lockName (c_ownerID c) (s_leaseID (c_session c)) wait p k) conn = Inr resp \<and>
         Token lock = PbAcquire_FencingToken resp)) \<and>
    (\<forall>e. res = Inl e \<longrightarrow> client_Is e ErrLockHeld \<longrightarrow>
      (\<exists>p k conn err. net_call (net lockName (c_ownerID c) (s_leaseID (c_session c)) wait p k) conn = Inl err \<and>
         status_Code (Some err) = AlreadyExists)) \<and>
    (\<forall>e. s_leaseErr (c_session c) = Some e \<longrightarrow> res = Inl e \<and> c' = c)"
proof (cases "activeLeaseID (c_session c)")
  case (Inl e)
  then have "\<not> client_Is e ErrLockHeld"
    using assms(3) by (auto simp: activeLeaseID_def split: option.splits if_splits)
  then show ?thesis using Inl assms(1) by (auto simp: Client_acquire_def activeLeaseID_def)
next
  case (Inr i)
  then have i: "i = s_leaseID (c_session c)" "s_leaseErr (c_session c) = None"
    by (auto simp: activeLeaseID_def split: option.splits if_splits)
  let ?net = "net lockName (c_ownerID c) i wait"
  obtain out r where call: "callWithFailover env ?net (c_resolver c) = Some (out, r)"
    using assms(1) Inr by (auto simp: Client_acquire_def split: option.splits)
  note from_node = call_answered [OF call assms(2)]
  show ?thesis
  proof (cases out)
    case (Inl err)
    then have "res = Inl (if client_Code err = AlreadyExists then ClientWrapped (''acquire lock '' @ lockName) ErrLockHeld
        else ClientWrapped ''acquire lock'' err)"
      using assms(1) Inr call by (simp add: Client_acquire_def)
    then show ?thesis using from_node(2) [OF Inl, of AlreadyExists] i by auto
  next
    case inr: (Inr resp)
    then show ?thesis
      using assms(1) Inr call i from_node(1) [OF inr] by (auto simp: Client_acquire_def Token_def) blast
  qed
qed

definition demo_acquire_net :: acquire_net where
  "demo_acquire_net name owner i wait p k = \<lparr>net_ctx = None, net_dial = (\<lambda>a. Inr (Conn a k)), net_meanwhile = (\<lambda>r. r),
     net_call = (\<lambda>c. Inr \<lparr>PbAcquire_FencingToken = 5, PbAcquire_LeaseTtlSeconds = 3\<rparr>), net_unresponsive = False\<rparr>"

definition demo_client :: Client where
  "demo_client = \<lparr>c_ownerID = ''w'', c_resolver = newResolver [''a:1''], c_session = demo_session\<rparr>"

lemmas client_eval = Client_acquire_def demo_client_def activeLeaseID_def demo_session_def callWithFailover_def
  tryCandidates_def candidateAddrs_def newResolver_def demo_acquire_net_def demo_call_env_def connFor_def Let_def

lemma demo_acquire:
  "\<exists>c'. Client_acquire demo_call_env demo_acquire_net demo_client ''x'' True =
     Some (Inr \<lparr>l_name = ''x'', l_fencingToken = 5\<rparr>, c')"
  by (simp add: client_eval callLoop.simps tryLoop.simps)

lemma handles_are_granted_witness:
  "\<exists>c' p k conn resp. Client_acquire demo_call_env demo_acquire_net demo_client ''x'' True =
      Some (Inr \<lparr>l_name = ''x'', l_fencingToken = 5\<rparr>, c') \<and>
    net_call (demo_acquire_net ''x'' ''w'' 7 True p k) conn = Inr resp \<and> 5 = PbAcquire_FencingToken resp"
proof -
  obtain c' where run: "Client_acquire demo_call_env demo_acquire_net demo_client ''x'' True =
      Some (Inr \<lparr>l_name = ''x'', l_fencingToken = 5\<rparr>, c')"
    using demo_acquire by blast
  have "plain_errors (demo_acquire_net ''x'' (c_ownerID demo_client) i True)" for i
    by (simp add: plain_errors_def demo_acquire_net_def)
  moreover have "s_leaseErr (c_session demo_client) = None" "c_ownerID demo_client = ''w''" "s_leaseID (c_session demo_client) = 7"
    by (simp_all add: demo_client_def demo_session_def)
  ultimately show ?thesis using handles_are_granted [OF run] run by (auto simp: Token_def)
qed

section \<open>Waiting clients\<close>

text \<open>\<open>WaitAcquire\<close> does not report a busy lock: it ends with the lock, its context's error, or another error.\<close>

lemma waitAcquire_error:
  "waitAcquireLoop asks c name backoff = Some (Inl e, c') \<Longrightarrow> client_Is e ErrLockHeld \<Longrightarrow>
     \<exists>a \<in> set asks. ask_ctx a = Some e \<or> ask_waitDone a = Some e"
  by (induction asks arbitrary: c backoff) (fastforce split: option.splits sum.splits if_splits)+

text \<open>A stopped client has no open stream and no pooled connection.\<close>

lemma Client_Stop_closes:
  assumes "Client_Stop closeConn c = (err, c', closed)" and "session_ok (c_session c)"
  shows "s_runDone (c_session c') \<and> s_heartbeat (c_session c') = None \<and> r_conns (c_resolver c') = [] \<and>
    closed = map snd (r_conns (c_resolver c)) \<and>
    (\<forall>x. s_heartbeat (c_session c) = Some x \<longrightarrow> x \<in> s_cancelled (c_session c'))"
  using assms
  by (auto simp: Client_Stop_def session_stop_def resolver_close_def runCancel_def session_ok_def Let_def split: option.splits)

text \<open>A handle comes from an answer to a request of the client's lease, of one of the rounds when it waited.\<close>

lemma Client_acquire_answered:
  assumes "Client_acquire env net c name wait = Some (Inr lock, c')"
  obtains p k conn resp where "activeLeaseID (c_session c) = Inr (s_leaseID (c_session c))" "l_name lock = name"
    "net_call (net name (c_ownerID c) (s_leaseID (c_session c)) wait p k) conn = Inr resp" "Token lock = PbAcquire_FencingToken resp"
proof -
  let ?i = "s_leaseID (c_session c)"
  have i: "activeLeaseID (c_session c) = Inr ?i"
    using assms by (auto simp: Client_acquire_def activeLeaseID_def split: option.splits sum.splits if_splits)
  obtain resp r where call: "callWithFailover env (net name (c_ownerID c) ?i wait) (c_resolver c) = Some (Inr resp, r)"
      "lock = \<lparr>l_name = name, l_fencingToken = PbAcquire_FencingToken resp\<rparr>"
    using assms i by (auto simp: Client_acquire_def split: option.splits sum.splits)
  have "\<exists>p k conn. net_call (net name (c_ownerID c) ?i wait p k) conn = Inr resp"
    using callWithFailover_sources [OF call(1), of "\<lambda>e. True" "\<lambda>v. \<exists>p k conn. net_call (net name (c_ownerID c) ?i wait p k) conn = Inr v"]
    by (auto simp: sources_def result_ok_def)
  then show ?thesis using that i call(2) by (auto simp: Token_def)
qed

lemma Client_acquire_same: "Client_acquire env net c name wait = Some (res, c') \<Longrightarrow> c_session c' = c_session c \<and> c_ownerID c' = c_ownerID c"
  by (auto simp: Client_acquire_def split: sum.splits option.splits)

lemma waitAcquireLoop_handle:
  "waitAcquireLoop asks c name backoff = Some (Inr lock, c') \<Longrightarrow>
     \<exists>a \<in> set asks. \<exists>d d'. Client_acquire (ask_call a) (ask_net a) d name True = Some (Inr lock, d') \<and>
       c_session d = c_session c \<and> c_ownerID d = c_ownerID c"
proof (induction asks arbitrary: c backoff)
  case (Cons a asks)
  obtain res d where step: "Client_acquire (ask_call a) (ask_net a) c name True = Some (res, d)"
    using Cons.prems by (auto split: option.splits)
  show ?case
  proof (cases res)
    case (Inr l)
    then show ?thesis using Cons.prems step by auto
  next
    case (Inl err)
    then obtain b where "waitAcquireLoop asks d name b = Some (Inr lock, c')"
      using Cons.prems step by (auto split: option.splits if_splits)
    from Cons.IH [OF this] show ?thesis using Client_acquire_same [OF step] by auto
  qed
qed simp

lemma WaitAcquire_handle:
  "WaitAcquire asks c name = Some (Inr lock, c') \<Longrightarrow>
     \<exists>a \<in> set asks. \<exists>d d'. Client_acquire (ask_call a) (ask_net a) d name True = Some (Inr lock, d') \<and>
       c_session d = c_session c \<and> c_ownerID d = c_ownerID c"
  using waitAcquireLoop_handle by (auto simp: WaitAcquire_def split: if_splits)

end
