(* ===== verification/Fenced_Stores.thy ===== *)
theory Fenced_Stores
  imports Client_Locks
begin

text \<open>
  The downstream side of a lock, as \<open>examples/fencing.go\<close> and \<open>examples/failover.go\<close> have it:
  stores that keep the newest fencing token they accepted and refuse older ones, the
  summary of what a store accepted, and the loop of an active replica. Mutexes make every
  operation on a store atomic; what is printed is the value of the operation.
\<close>

section \<open>The account row\<close>

record accountRow =
  row_balance :: int64
  row_token :: uint64
  row_writer :: string

datatype row_said = Rejected string int64 uint64 uint64 | Accepted string int64 uint64

definition accountRow_write :: "accountRow \<Rightarrow> string \<Rightarrow> uint64 \<Rightarrow> int64 \<Rightarrow> row_said \<times> accountRow" where
  "accountRow_write r writer token balance =
     (if token < row_token r then (Rejected writer balance token (row_token r), r)
      else (Accepted writer balance token, r\<lparr>row_balance := balance, row_token := token, row_writer := writer\<rparr>))"

section \<open>The controller table\<close>

record tableWrite =
  w_writer :: string
  w_token :: uint64

record controllerTable =
  t_token :: uint64
  t_writer :: string
  t_at :: time
  t_accepted :: "tableWrite list"
  t_rejected :: int64

datatype table_err = errStaleToken

definition newTable :: controllerTable where
  "newTable = \<lparr>t_token = 0, t_writer = '''', t_at = zero_time, t_accepted = [], t_rejected = 0\<rparr>"

definition controllerTable_write :: "time \<Rightarrow> controllerTable \<Rightarrow> string \<Rightarrow> uint64 \<Rightarrow> table_err option \<times> controllerTable" where
  "controllerTable_write now t writer token =
     (if token < t_token t then (Some errStaleToken, t\<lparr>t_rejected := t_rejected t + 1\<rparr>)
      else (None, t\<lparr>t_token := token, t_writer := writer, t_at := now,
                    t_accepted := t_accepted t @ [\<lparr>w_writer = writer, w_token = token\<rparr>]\<rparr>))"

definition lastWrite :: "controllerTable \<Rightarrow> string \<times> uint64 \<times> time" where
  "lastWrite t = (t_writer t, t_token t, t_at t)"

text \<open>\<open>summarize\<close>: for every run of equal tokens the token, how many writes, and its first writer.\<close>

function summaryTerms :: "tableWrite list \<Rightarrow> (uint64 \<times> nat \<times> string) list" where
  "summaryTerms [] = []"
| "summaryTerms (w # ws) =
     (w_token w, Suc (length (takeWhile (\<lambda>x. w_token x = w_token w) ws)), w_writer w) #
     summaryTerms (dropWhile (\<lambda>x. w_token x = w_token w) ws)"
  by pat_completeness auto
termination by (relation "measure length") (auto simp: less_Suc_eq_le length_dropWhile_le)

definition summarize :: "controllerTable \<Rightarrow> (uint64 \<times> nat \<times> string) list \<times> int64" where
  "summarize t = (summaryTerms (t_accepted t), t_rejected t)"

section \<open>The active replica\<close>

text \<open>
  What the loop of \<open>lead\<close> meets: its context or its session ends, its ticker fires, or,
  between two of its own steps, another replica writes.
\<close>

datatype lead_event = LeadCtxDone | LeadSessionDone | LeadTick time | OtherWrite time string uint64

datatype lead_end = StillLeading | LeadStopped | LostSession | SteppedDown table_err

fun lead :: "string \<Rightarrow> ClientLock \<Rightarrow> controllerTable \<Rightarrow> lead_event list \<Rightarrow> lead_end \<times> controllerTable" where
  "lead name lock t [] = (StillLeading, t)"
| "lead name lock t (LeadCtxDone # evs) = (LeadStopped, t)"
| "lead name lock t (LeadSessionDone # evs) = (LostSession, t)"
| "lead name lock t (LeadTick now # evs) =
     (case controllerTable_write now t name (Token lock) of
        (Some err, t') \<Rightarrow> (SteppedDown err, t')
      | (None, t') \<Rightarrow> lead name lock t' evs)"
| "lead name lock t (OtherWrite now writer token # evs) =
     lead name lock (snd (controllerTable_write now t writer token)) evs"

section \<open>The store is fenced\<close>

text \<open>The contract of a fenced store: tokens it accepted only grow, and an older one is refused.\<close>

locale fenced =
  fixes newest :: "'s \<Rightarrow> uint64" and put :: "'s \<Rightarrow> 'w \<Rightarrow> bool \<times> 's" and token_of :: "'w \<Rightarrow> uint64"
  assumes put_old: "token_of w < newest s \<Longrightarrow> \<exists>s'. put s w = (False, s') \<and> newest s' = newest s"
    and put_new: "newest s \<le> token_of w \<Longrightarrow> \<exists>s'. put s w = (True, s') \<and> newest s' = token_of w"
begin

lemma put_grows: "newest s \<le> newest (snd (put s w))"
  using put_old [of w s] put_new [of s w] by (cases "newest s \<le> token_of w") (auto simp: not_le)

lemma puts_grow: "newest s \<le> newest (foldl (\<lambda>s w. snd (put s w)) s ws)"
proof (induction ws arbitrary: s)
  case (Cons w ws)
  have "newest s \<le> newest (snd (put s w))" by (rule put_grows)
  also have "\<dots> \<le> newest (foldl (\<lambda>s w. snd (put s w)) (snd (put s w)) ws)" by (rule Cons)
  finally show ?case by simp
qed simp

text \<open>After a write was accepted, whatever is written next, a write with an older token is refused.\<close>

lemma old_refused:
  assumes "put s w = (True, s1)" and "token_of old < token_of w"
  shows "\<not> fst (put (foldl (\<lambda>s w. snd (put s w)) s1 ws) old)"
proof -
  have "newest s1 = token_of w"
    using assms(1) put_old [of w s] put_new [of s w] by (cases "newest s \<le> token_of w") (auto simp: not_le)
  then have "token_of old < newest (foldl (\<lambda>s w. snd (put s w)) s1 ws)"
    using assms(2) puts_grow [of s1 ws] by (simp add: order_less_le_trans)
  then show ?thesis using put_old [of old] by (metis fst_conv)
qed

end

type_synonym row_write = "string \<times> uint64 \<times> int64"

definition row_put :: "accountRow \<Rightarrow> row_write \<Rightarrow> bool \<times> accountRow" where
  "row_put r w = (case w of (writer, token, balance) \<Rightarrow>
     (case accountRow_write r writer token balance of
        (Accepted _ _ _, r') \<Rightarrow> (True, r') | (Rejected _ _ _ _, r') \<Rightarrow> (False, r')))"

type_synonym table_write = "time \<times> string \<times> uint64"

definition table_put :: "controllerTable \<Rightarrow> table_write \<Rightarrow> bool \<times> controllerTable" where
  "table_put t w = (case w of (now, writer, token) \<Rightarrow>
     (case controllerTable_write now t writer token of (err, t') \<Rightarrow> (err = None, t')))"

interpretation row: fenced row_token row_put "\<lambda>(writer, token, balance). token"
  by unfold_locales (auto simp: row_put_def accountRow_write_def)

interpretation table: fenced t_token table_put "\<lambda>(now, writer, token). token"
  by unfold_locales (auto simp: table_put_def controllerTable_write_def)

section \<open>What the table accepted\<close>

definition table_inv :: "controllerTable \<Rightarrow> bool" where
  "table_inv t \<longleftrightarrow> sorted (map w_token (t_accepted t)) \<and> (\<forall>w \<in> set (t_accepted t). w_token w \<le> t_token t)"

lemma table_inv_new [simp]: "table_inv newTable"
  by (simp add: table_inv_def newTable_def)

lemma table_inv_put [intro]: "table_inv t \<Longrightarrow> table_inv (snd (table_put t w))"
  by (cases w) (auto simp: table_inv_def table_put_def controllerTable_write_def sorted_append intro: order_trans)

lemma table_inv_puts: "table_inv t \<Longrightarrow> table_inv (foldl (\<lambda>t w. snd (table_put t w)) t ws)"
proof (induction ws arbitrary: t)
  case (Cons w ws)
  then show ?case using table_inv_put [of t w] by simp
qed simp

lemma dropWhile_sorted_gt:
  "sorted (map f (x # xs)) \<Longrightarrow> y \<in> set (dropWhile (\<lambda>z. f z = f x) xs) \<Longrightarrow> f x < (f y :: 'a :: linorder)"
  by (induction xs) (auto split: if_splits)

lemma summary_tokens: "tk \<in> set (map fst (summaryTerms ws)) \<Longrightarrow> \<exists>w \<in> set ws. tk = w_token w"
proof (induction ws rule: summaryTerms.induct)
  case (2 w ws)
  then consider "tk = w_token w" | "tk \<in> set (map fst (summaryTerms (dropWhile (\<lambda>x. w_token x = w_token w) ws)))"
    by (simp only: summaryTerms.simps list.simps fst_conv set_ConsD) blast
  then show ?case
  proof cases
    case 2
    then show ?thesis using "2.IH" set_dropWhileD [of _ "\<lambda>x. w_token x = w_token w" ws] by (metis list.set_intros(2))
  qed simp
qed simp

lemma summary_sorted: "sorted (map w_token ws) \<Longrightarrow> sorted_wrt (<) (map fst (summaryTerms ws))"
proof (induction ws rule: summaryTerms.induct)
  case (2 w ws)
  let ?rest = "dropWhile (\<lambda>x. w_token x = w_token w) ws"
  have "w_token w < tk" if "tk \<in> set (map fst (summaryTerms ?rest))" for tk
    using summary_tokens [OF that] dropWhile_sorted_gt [OF 2(2)] by blast
  moreover have "sorted (map w_token ?rest)"
    using 2(2) sorted_dropWhile [of "map w_token ws"] by (simp add: dropWhile_map comp_def)
  ultimately show ?case using 2(1) by auto
qed simp

text \<open>An active replica that has been overtaken steps down at its next tick, whatever others write before.\<close>

lemma lead_overtaken:
  assumes "Token lock < t_token t"
  shows "fst (lead name lock t (map (\<lambda>(now, writer, token). OtherWrite now writer token) ws @ LeadTick now # evs)) =
    SteppedDown errStaleToken"
  using assms
proof (induction ws arbitrary: t)
  case Nil
  then show ?case by (simp add: controllerTable_write_def)
next
  case (Cons w ws)
  obtain at wr tk where w: "w = (at, wr, tk)" by (metis prod_cases3)
  have "t_token t \<le> t_token (snd (controllerTable_write at t wr tk))"
    using table.put_grows [of t w] by (simp add: table_put_def w split: prod.splits)
  then show ?case using Cons by (simp add: w)
qed

text \<open>The writes of the terms of a summary, spelled out: nothing is lost where a token has one writer.\<close>

definition termWrites :: "uint64 \<times> nat \<times> string \<Rightarrow> tableWrite list" where
  "termWrites term = (case term of (token, n, writer) \<Rightarrow> replicate n \<lparr>w_writer = writer, w_token = token\<rparr>)"

lemma summary_roundtrip:
  "(\<And>w w'. w \<in> set ws \<Longrightarrow> w' \<in> set ws \<Longrightarrow> w_token w = w_token w' \<Longrightarrow> w_writer w = w_writer w') \<Longrightarrow>
     concat (map termWrites (summaryTerms ws)) = ws"
proof (induction ws rule: summaryTerms.induct)
  case (2 w ws)
  let ?same = "\<lambda>x. w_token x = w_token w"
  have run: "takeWhile ?same ws = replicate (length (takeWhile ?same ws)) w"
  proof (rule replicate_eqI)
    fix x assume x: "x \<in> set (takeWhile ?same ws)"
    then have "w_token x = w_token w" "x \<in> set ws" by (auto dest: set_takeWhileD)
    then show "x = w" using 2(2) [of x w] by (cases x, cases w) simp
  qed simp
  have "concat (map termWrites (summaryTerms (dropWhile ?same ws))) = dropWhile ?same ws"
    by (rule 2(1)) (use 2(2) set_dropWhileD in \<open>metis list.set_intros(2)\<close>)
  moreover have "termWrites (w_token w, Suc (length (takeWhile ?same ws)), w_writer w) = w # takeWhile ?same ws"
    by (subst (2) run) (simp add: termWrites_def)
  ultimately show ?case by simp
qed simp

lemma puts_counted:
  "t_rejected (foldl (\<lambda>t w. snd (table_put t w)) t ws) + of_nat (length (t_accepted (foldl (\<lambda>t w. snd (table_put t w)) t ws))) =
     t_rejected t + of_nat (length (t_accepted t)) + of_nat (length ws)"
proof (induction ws arbitrary: t)
  case (Cons w ws)
  have "t_rejected (snd (table_put t w)) + of_nat (length (t_accepted (snd (table_put t w)))) =
      t_rejected t + of_nat (length (t_accepted t)) + 1"
    by (cases w) (simp add: table_put_def controllerTable_write_def)
  then show ?case using Cons [of "snd (table_put t w)"] by simp
qed simp

lemma puts_accepted:
  "x \<in> set (t_accepted (foldl (\<lambda>t w. snd (table_put t w)) t ws)) \<Longrightarrow>
     x \<in> set (t_accepted t) \<or> (\<exists>at. (at, w_writer x, w_token x) \<in> set ws)"
proof (induction ws arbitrary: t)
  case (Cons w ws)
  obtain at wr tk where w: "w = (at, wr, tk)" by (metis prod_cases3)
  have "x \<in> set (t_accepted (snd (table_put t w))) \<Longrightarrow> x \<in> set (t_accepted t) \<or> (w_writer x = wr \<and> w_token x = tk)"
    by (auto simp: table_put_def controllerTable_write_def w split: if_splits)
  then show ?case using Cons by (auto simp: w)
qed simp

end
