(* ===== verification/Storage_Migration.thy ===== *)
theory Storage_Migration
  imports Domain_Model
begin

text \<open>
  \<open>internal/cluster/storage.go\<close>: opening the Raft stores and migrating a legacy BoltDB store to
  the write-ahead log. The data directory is the state; an operation yields its result and
  the states the directory goes through, so that a crash is a stop after any prefix of
  them. The two stores belong to libraries: a store is its log entries and its stable
  values, and copying the log is a parameter. Which calls fail is given by an environment.
\<close>

section \<open>The data directory\<close>

record 'e store =
  st_logs :: "(uint64 \<times> 'e) list"
  st_uint :: "string \<rightharpoonup> uint64"
  st_bytes :: "string \<rightharpoonup> string"

definition emptyStore :: "'e store" where
  "emptyStore = \<lparr>st_logs = [], st_uint = Map.empty, st_bytes = Map.empty\<rparr>"

text \<open>\<open>raft.db\<close>, \<open>wal\<close>, \<open>wal.migrating\<close> and \<open>raft.db.migrated\<close>, where they exist.\<close>

record 'e data_dir =
  dd_bolt :: "'e store option"
  dd_wal :: "'e store option"
  dd_migrating :: "'e store option"
  dd_migrated :: "'e store option"

text \<open>The error of each call, if it fails.\<close>

record 'e mig_env =
  me_statBolt :: "goerr option"
  me_statWal :: "goerr option"
  me_removeAll :: "goerr option"
  me_mkdir :: "goerr option"
  me_openBolt :: "goerr option"
  me_openWal :: "goerr option"
  me_lastIndex :: "goerr option"
  me_copyLogs :: "'e store \<Rightarrow> 'e store \<Rightarrow> goerr option \<times> 'e store list"
  me_read :: "string \<Rightarrow> goerr option"
  me_write :: "string \<Rightarrow> goerr option"
  me_close :: "goerr option"
  me_renameWal :: "goerr option"
  me_renameBolt :: "goerr option"

section \<open>Calls, in sequence\<close>

type_synonym 'e act = "'e data_dir \<Rightarrow> goerr option \<times> 'e data_dir list"

definition final :: "'e data_dir \<Rightarrow> 'e data_dir list \<Rightarrow> 'e data_dir" where
  "final d ds = last (d # ds)"

text \<open>A call that fails without effect, or takes effect at once.\<close>

definition call :: "goerr option \<Rightarrow> ('e data_dir \<Rightarrow> 'e data_dir) \<Rightarrow> 'e act" where
  "call err f d = (case err of Some e \<Rightarrow> (Some e, []) | None \<Rightarrow> (None, [f d]))"

definition check :: "goerr option \<Rightarrow> 'e act" where
  "check err d = (err, [])"

definition andThen :: "'e act \<Rightarrow> 'e act \<Rightarrow> 'e act" where
  "andThen a b d =
     (case a d of
        (Some e, ds) \<Rightarrow> (Some e, ds)
      | (None, ds) \<Rightarrow> (case b (final d ds) of (r, ds') \<Rightarrow> (r, ds @ ds')))"

section \<open>Copying\<close>

definition onMigrating :: "('e store \<Rightarrow> 'e store) \<Rightarrow> 'e data_dir \<Rightarrow> 'e data_dir" where
  "onMigrating f d = d\<lparr>dd_migrating := map_option f (dd_migrating d)\<rparr>"

definition LastIndex :: "'e store \<Rightarrow> uint64" where
  "LastIndex s = (if st_logs s = [] then 0 else fst (last (st_logs s)))"

text \<open>The library's copy passes through stores of its own choice.\<close>

definition copyLogs :: "'e mig_env \<Rightarrow> 'e store \<Rightarrow> 'e act" where
  "copyLogs env src d =
     (case me_lastIndex env of
        Some e \<Rightarrow> (Some e, [])
      | None \<Rightarrow>
          if LastIndex src = 0 then (None, [])
          else
            (case me_copyLogs env (case dd_migrating d of None \<Rightarrow> emptyStore | Some s \<Rightarrow> s) src of
               (err, stores) \<Rightarrow> (err, map (\<lambda>s. d\<lparr>dd_migrating := Some s\<rparr>) stores)))"

definition copyUint :: "'e mig_env \<Rightarrow> 'e store \<Rightarrow> string \<Rightarrow> 'e act" where
  "copyUint env src key d =
     (case me_read env key of
        Some e \<Rightarrow> (Some (Wrapped (''read '' @ key) e), [])
      | None \<Rightarrow>
          (case st_uint src key of
             None \<Rightarrow> (None, [])
           | Some val \<Rightarrow>
               call (map_option (Wrapped (''write '' @ key)) (me_write env key))
                 (onMigrating (\<lambda>s. s\<lparr>st_uint := (st_uint s)(key \<mapsto> val)\<rparr>)) d))"

definition copyVote :: "'e mig_env \<Rightarrow> 'e store \<Rightarrow> 'e act" where
  "copyVote env src d =
     (case me_read env ''LastVoteCand'' of
        Some e \<Rightarrow> (Some (Wrapped ''read LastVoteCand'' e), [])
      | None \<Rightarrow>
          (case st_bytes src ''LastVoteCand'' of
             None \<Rightarrow> (None, [])
           | Some val \<Rightarrow>
               call (me_write env ''LastVoteCand'')
                 (onMigrating (\<lambda>s. s\<lparr>st_bytes := (st_bytes s)(''LastVoteCand'' \<mapsto> val)\<rparr>)) d))"

definition copyStable :: "'e mig_env \<Rightarrow> 'e store \<Rightarrow> 'e act" where
  "copyStable env src =
     andThen (copyUint env src ''CurrentTerm'')
       (andThen (copyUint env src ''LastVoteTerm'') (copyVote env src))"

text \<open>
  \<open>copyBoltToWAL\<close>. Closing the new log after a failure changes nothing in the directory.
\<close>

definition copyBoltToWAL :: "'e mig_env \<Rightarrow> 'e store \<Rightarrow> 'e act" where
  "copyBoltToWAL env src =
     andThen (call (me_removeAll env) (\<lambda>d. d\<lparr>dd_migrating := None\<rparr>))
    (andThen (call (me_mkdir env) (\<lambda>d. d\<lparr>dd_migrating := Some emptyStore\<rparr>))
    (andThen (check (me_openBolt env))
    (andThen (check (me_openWal env))
    (andThen (copyLogs env src)
    (andThen (copyStable env src)
    (andThen (check (me_close env))
       (call (me_renameWal env) (\<lambda>d. d\<lparr>dd_wal := dd_migrating d, dd_migrating := None\<rparr>))))))))"

definition migrateFromBolt :: "'e mig_env \<Rightarrow> 'e act" where
  "migrateFromBolt env d =
     (case me_statBolt env of
        Some e \<Rightarrow> (Some e, [])
      | None \<Rightarrow>
          (case dd_bolt d of
             None \<Rightarrow> (None, [])
           | Some src \<Rightarrow>
               andThen
                 (\<lambda>d. case me_statWal env of
                        Some e \<Rightarrow> (Some e, [])
                      | None \<Rightarrow> if dd_wal d = None then copyBoltToWAL env src d else (None, []))
                 (call (me_renameBolt env) (\<lambda>d. d\<lparr>dd_migrated := dd_bolt d, dd_bolt := None\<rparr>)) d))"

text \<open>\<open>NewStorage\<close>: migrate, then create and open the log; the snapshot directory is the library's.\<close>

definition NewStorage :: "'e mig_env \<Rightarrow> goerr option \<Rightarrow> goerr option \<Rightarrow> goerr option \<Rightarrow> 'e act" where
  "NewStorage env mkdirWal openWal openSnapshots =
     andThen (\<lambda>d. case migrateFromBolt env d of
                    (Some e, ds) \<Rightarrow> (Some (Wrapped ''migrate raft.db to wal'' e), ds)
                  | (None, ds) \<Rightarrow> (None, ds))
    (andThen (call mkdirWal (\<lambda>d. if dd_wal d = None then d\<lparr>dd_wal := Some emptyStore\<rparr> else d))
    (andThen (check openWal) (check openSnapshots)))"

text \<open>\<open>HasRaftData\<close>: a stat that fails for another reason than absence is reported.\<close>

definition HasRaftData :: "goerr option \<Rightarrow> goerr option \<Rightarrow> 'e data_dir \<Rightarrow> goerr + bool" where
  "HasRaftData statWal statBolt d =
     (case statWal of
        Some e \<Rightarrow> Inl e
      | None \<Rightarrow>
          if dd_wal d \<noteq> None then Inr True
          else
            (case statBolt of
               Some e \<Rightarrow> Inl e
             | None \<Rightarrow> Inr (dd_bolt d \<noteq> None)))"

section \<open>What is kept\<close>

text \<open>Two stores with the same log and the same values of the keys the Raft library keeps.\<close>

definition same_raft :: "'e store \<Rightarrow> 'e store \<Rightarrow> bool" where
  "same_raft s t \<longleftrightarrow> st_logs s = st_logs t \<and> st_uint s ''CurrentTerm'' = st_uint t ''CurrentTerm'' \<and>
     st_uint s ''LastVoteTerm'' = st_uint t ''LastVoteTerm'' \<and>
     st_bytes s ''LastVoteCand'' = st_bytes t ''LastVoteCand''"

text \<open>
  The documented behaviour of the library's copy: into an empty log, when it succeeds it
  has copied every entry and touched no stable value.
\<close>

definition copies_logs :: "('e store \<Rightarrow> 'e store \<Rightarrow> goerr option \<times> 'e store list) \<Rightarrow> bool" where
  "copies_logs copy \<longleftrightarrow> (\<forall>dst src ss. copy dst src = (None, ss) \<longrightarrow> st_logs dst = [] \<longrightarrow>
     st_logs (last (dst # ss)) = st_logs src \<and> st_uint (last (dst # ss)) = st_uint dst \<and>
     st_bytes (last (dst # ss)) = st_bytes dst)"

text \<open>Entries of a Raft log are numbered from one.\<close>

definition numbered :: "'e store \<Rightarrow> bool" where
  "numbered s \<longleftrightarrow> (\<forall>(i, e) \<in> set (st_logs s). i \<noteq> 0)"

text \<open>
  A directory that lost nothing of the legacy store \<open>b\<close>: \<open>b\<close> is still there or the log has
  all of it, and the log, once it is there, is complete.
\<close>

definition intact :: "'e store \<Rightarrow> 'e data_dir \<Rightarrow> bool" where
  "intact b d \<longleftrightarrow> (dd_bolt d = Some b \<or> dd_bolt d = None \<and> dd_migrated d = Some b \<and> dd_wal d \<noteq> None) \<and>
     (\<forall>w. dd_wal d = Some w \<longrightarrow> same_raft w b)"

section \<open>Reasoning about calls\<close>

text \<open>
  From a state with \<open>P\<close>, every state on the way has \<open>I\<close>; if the call returns without error
  the last one has \<open>Q\<close>; and unless \<open>may_fail\<close>, it does return without error.
\<close>

definition triple :: "bool \<Rightarrow> ('e data_dir \<Rightarrow> bool) \<Rightarrow> ('e data_dir \<Rightarrow> bool) \<Rightarrow> 'e act \<Rightarrow> ('e data_dir \<Rightarrow> bool) \<Rightarrow> bool" where
  "triple may_fail I P a Q \<longleftrightarrow> (\<forall>d r ds. P d \<longrightarrow> a d = (r, ds) \<longrightarrow>
     (\<forall>d' \<in> set ds. I d') \<and> (r = None \<longrightarrow> Q (final d ds)) \<and> (may_fail \<or> r = None))"

lemma tripleI:
  assumes "\<And>d r ds. P d \<Longrightarrow> a d = (r, ds) \<Longrightarrow>
    (\<forall>d' \<in> set ds. I d') \<and> (r = None \<longrightarrow> Q (final d ds)) \<and> (may_fail \<or> r = None)"
  shows "triple may_fail I P a Q"
  using assms unfolding triple_def by blast

lemma tripleD:
  assumes "triple mf I P a Q" and "P d" and "a d = (r, ds)"
  shows "\<forall>d' \<in> set ds. I d'" "r = None \<Longrightarrow> Q (final d ds)" "mf \<or> r = None"
  using assms unfolding triple_def by blast+

lemma triple_call:
  "(\<And>d. P d \<Longrightarrow> I (f d) \<and> Q (f d)) \<Longrightarrow> mf \<or> err = None \<Longrightarrow> triple mf I P (call err f) Q"
  by (auto simp: triple_def call_def final_def split: option.splits)

lemma triple_check: "(\<And>d. P d \<Longrightarrow> Q d) \<Longrightarrow> mf \<or> err = None \<Longrightarrow> triple mf I P (check err) Q"
  by (auto simp: triple_def check_def final_def)

lemma triple_andThen:
  assumes a: "triple mf I P a Q" and b: "triple mf I Q b R"
  shows "triple mf I P (andThen a b) R"
proof (rule tripleI)
  fix d r ds
  assume P: "P d" and run: "andThen a b d = (r, ds)"
  obtain ra da where ra: "a d = (ra, da)" by fastforce
  note ta = tripleD [OF a P ra]
  show "(\<forall>d' \<in> set ds. I d') \<and> (r = None \<longrightarrow> R (final d ds)) \<and> (mf \<or> r = None)"
  proof (cases ra)
    case (Some e)
    then show ?thesis using run ra ta by (auto simp: andThen_def)
  next
    case None
    obtain rb db where rb: "b (final d da) = (rb, db)" by fastforce
    have ds: "r = rb" "ds = da @ db" using run ra rb None by (auto simp: andThen_def)
    have "final d ds = final (final d da) db" by (simp add: ds final_def last_append)
    then show ?thesis using tripleD [OF b ta(2) [OF None] rb] ta(1) ds by auto
  qed
qed

lemma triple_weaken: "triple mf I P a Q \<Longrightarrow> (\<And>d. P' d \<Longrightarrow> P d) \<Longrightarrow> triple mf I P' a Q"
  unfolding triple_def by blast

section \<open>The copy, call by call\<close>

text \<open>The legacy store is there, the log is not, and the scratch log satisfies \<open>S\<close>.\<close>

definition migrating :: "'e store \<Rightarrow> ('e store \<Rightarrow> bool) \<Rightarrow> 'e data_dir \<Rightarrow> bool" where
  "migrating b S d \<longleftrightarrow> dd_bolt d = Some b \<and> dd_wal d = None \<and> (\<exists>s. dd_migrating d = Some s \<and> S s)"

lemma migrating_intact: "migrating b S d \<Longrightarrow> intact b d"
  by (auto simp: migrating_def intact_def)

definition no_failures :: "'e mig_env \<Rightarrow> bool" where
  "no_failures env \<longleftrightarrow> me_statBolt env = None \<and> me_statWal env = None \<and> me_removeAll env = None \<and>
     me_mkdir env = None \<and> me_openBolt env = None \<and> me_openWal env = None \<and> me_lastIndex env = None \<and>
     (\<forall>dst src. fst (me_copyLogs env dst src) = None) \<and> (\<forall>key. me_read env key = None) \<and>
     (\<forall>key. me_write env key = None) \<and> me_close env = None \<and> me_renameWal env = None \<and>
     me_renameBolt env = None"

definition has_logs :: "'e store \<Rightarrow> 'e store \<Rightarrow> bool" where
  "has_logs b s \<longleftrightarrow> st_logs s = st_logs b \<and> st_uint s = Map.empty \<and> st_bytes s = Map.empty"

lemma LastIndex_0: "numbered s \<Longrightarrow> LastIndex s = 0 \<Longrightarrow> st_logs s = []"
  by (cases "st_logs s = []") (auto simp: LastIndex_def numbered_def split: prod.splits, metis last_in_set prod.exhaust_sel)

lemma triple_copyLogs:
  assumes copies: "copies_logs (me_copyLogs env)" and num: "numbered b" and mf: "mf \<or> no_failures env"
  shows "triple mf (intact b) (migrating b (\<lambda>s. s = emptyStore)) (copyLogs env b) (migrating b (has_logs b))"
proof (rule tripleI)
  fix d r ds
  assume pre: "migrating b (\<lambda>s. s = emptyStore) d" and run: "copyLogs env b d = (r, ds)"
  then have d: "dd_bolt d = Some b" "dd_wal d = None" "dd_migrating d = Some emptyStore"
    by (auto simp: migrating_def)
  show "(\<forall>d' \<in> set ds. intact b d') \<and> (r = None \<longrightarrow> migrating b (has_logs b) (final d ds)) \<and> (mf \<or> r = None)"
  proof (cases "me_lastIndex env = None \<and> LastIndex b \<noteq> 0")
    case False
    then show ?thesis
      using run d mf LastIndex_0 [OF num]
      by (auto simp: copyLogs_def migrating_def has_logs_def final_def emptyStore_def no_failures_def split: option.splits if_splits)
  next
    case True
    obtain e ss where ss: "me_copyLogs env emptyStore b = (e, ss)" by fastforce
    then have r: "r = e" "ds = map (\<lambda>s. d\<lparr>dd_migrating := Some s\<rparr>) ss"
      using run True d(3) by (auto simp: copyLogs_def)
    have "e = None \<Longrightarrow> has_logs b (last (emptyStore # ss))"
      using copies ss unfolding copies_logs_def has_logs_def by (auto simp: emptyStore_def)
    moreover have "dd_migrating (final d ds) = Some (last (emptyStore # ss))"
        "dd_bolt (final d ds) = Some b" "dd_wal (final d ds) = None"
      using d by (simp_all add: r final_def last_map)
    moreover have "fst (me_copyLogs env emptyStore b) = e" using ss by simp
    then have "mf \<or> e = None" using mf by (auto simp: no_failures_def)
    ultimately show ?thesis using d r by (auto simp: intact_def migrating_def)
  qed
qed

text \<open>After the copy of the uint64 values of \<open>keys\<close>; other keys are still absent.\<close>

definition has_uints :: "'e store \<Rightarrow> string set \<Rightarrow> 'e store \<Rightarrow> bool" where
  "has_uints b keys s \<longleftrightarrow> st_logs s = st_logs b \<and> st_bytes s = Map.empty \<and>
     (\<forall>k. st_uint s k = (if k \<in> keys then st_uint b k else None))"

lemma triple_copyUint:
  assumes mf: "mf \<or> no_failures env"
  shows "triple mf (intact b) (migrating b (has_uints b keys)) (copyUint env b key) (migrating b (has_uints b (insert key keys)))"
proof (rule tripleI)
  fix d r ds
  assume pre: "migrating b (has_uints b keys) d" and run: "copyUint env b key d = (r, ds)"
  then obtain s where d: "dd_bolt d = Some b" "dd_wal d = None" "dd_migrating d = Some s" "has_uints b keys s"
    by (auto simp: migrating_def)
  show "(\<forall>d' \<in> set ds. intact b d') \<and> (r = None \<longrightarrow> migrating b (has_uints b (insert key keys)) (final d ds)) \<and>
      (mf \<or> r = None)"
    using run d mf
    by (auto simp: copyUint_def call_def final_def migrating_def has_uints_def onMigrating_def intact_def
        no_failures_def split: option.splits)
qed

lemma triple_copyVote:
  assumes mf: "mf \<or> no_failures env"
  shows "triple mf (intact b) (migrating b (has_uints b {''LastVoteTerm'', ''CurrentTerm''})) (copyVote env b)
    (migrating b (\<lambda>s. same_raft s b))"
proof (rule tripleI)
  fix d r ds
  assume pre: "migrating b (has_uints b {''LastVoteTerm'', ''CurrentTerm''}) d" and run: "copyVote env b d = (r, ds)"
  then obtain s where d: "dd_bolt d = Some b" "dd_wal d = None" "dd_migrating d = Some s"
      "has_uints b {''LastVoteTerm'', ''CurrentTerm''} s"
    by (auto simp: migrating_def)
  show "(\<forall>d' \<in> set ds. intact b d') \<and> (r = None \<longrightarrow> migrating b (\<lambda>s. same_raft s b) (final d ds)) \<and>
      (mf \<or> r = None)"
    using run d mf
    by (auto simp: copyVote_def call_def final_def migrating_def has_uints_def onMigrating_def intact_def
        no_failures_def same_raft_def split: option.splits) metis
qed

lemma triple_copyStable:
  assumes "mf \<or> no_failures env"
  shows "triple mf (intact b) (migrating b (has_logs b)) (copyStable env b) (migrating b (\<lambda>s. same_raft s b))"
proof -
  have start: "migrating b (has_logs b) d \<Longrightarrow> migrating b (has_uints b {}) d" for d
    by (auto simp: migrating_def has_logs_def has_uints_def)
  show ?thesis
    unfolding copyStable_def
    by (rule triple_andThen [OF triple_weaken [OF triple_copyUint [OF assms] start]
          triple_andThen [OF triple_copyUint [OF assms] triple_copyVote [OF assms]]])
qed

text \<open>The log is in place next to the legacy store.\<close>

definition both :: "'e store \<Rightarrow> 'e data_dir \<Rightarrow> bool" where
  "both b d \<longleftrightarrow> dd_bolt d = Some b \<and> (\<exists>w. dd_wal d = Some w \<and> same_raft w b)"

lemma triple_copyBoltToWAL:
  assumes "copies_logs (me_copyLogs env)" and "numbered b" and mf: "mf \<or> no_failures env"
  shows "triple mf (intact b) (\<lambda>d. dd_bolt d = Some b \<and> dd_wal d = None) (copyBoltToWAL env b) (both b)"
proof -
  have nf: "mf \<or> me_removeAll env = None" "mf \<or> me_mkdir env = None" "mf \<or> me_openBolt env = None"
      "mf \<or> me_openWal env = None" "mf \<or> me_close env = None" "mf \<or> me_renameWal env = None"
    using mf by (auto simp: no_failures_def)
  let ?P = "\<lambda>d. dd_bolt d = Some b \<and> dd_wal d = None"
  have 1: "triple mf (intact b) ?P (call (me_removeAll env) (\<lambda>d. d\<lparr>dd_migrating := None\<rparr>)) ?P"
    by (rule triple_call [OF _ nf(1)]) (simp add: intact_def)
  have 2: "triple mf (intact b) ?P (call (me_mkdir env) (\<lambda>d. d\<lparr>dd_migrating := Some emptyStore\<rparr>))
      (migrating b (\<lambda>s. s = emptyStore))"
    by (rule triple_call [OF _ nf(2)]) (simp add: intact_def migrating_def)
  have 3: "triple mf (intact b) (migrating b (\<lambda>s. same_raft s b))
      (call (me_renameWal env) (\<lambda>d. d\<lparr>dd_wal := dd_migrating d, dd_migrating := None\<rparr>)) (both b)"
    by (rule triple_call [OF _ nf(6)]) (auto simp: intact_def migrating_def both_def)
  note checks = triple_check [OF _ nf(3), of P P for P] triple_check [OF _ nf(4), of P P for P]
    triple_check [OF _ nf(5), of P P for P]
  show ?thesis
    unfolding copyBoltToWAL_def
    by (rule triple_andThen [OF 1 triple_andThen [OF 2 triple_andThen [OF checks(1) triple_andThen [OF checks(2)
          triple_andThen [OF triple_copyLogs [OF assms] triple_andThen [OF triple_copyStable [OF mf]
          triple_andThen [OF checks(3) 3]]]]]]]) assumption+
qed

definition migrated :: "'e store \<Rightarrow> 'e data_dir \<Rightarrow> bool" where
  "migrated b d \<longleftrightarrow> dd_bolt d = None \<and> dd_migrated d = Some b \<and> (\<exists>w. dd_wal d = Some w \<and> same_raft w b)"

lemma migrate_triple:
  assumes "copies_logs (me_copyLogs env)" and "numbered b" and mf: "mf \<or> no_failures env"
  shows "triple mf (intact b) (intact b) (migrateFromBolt env) (migrated b)"
proof (rule tripleI)
  fix d r ds
  assume pre: "intact b d" and run: "migrateFromBolt env d = (r, ds)"
  have nf: "mf \<or> me_statBolt env = None" "mf \<or> me_statWal env = None" "mf \<or> me_renameBolt env = None"
    using mf by (auto simp: no_failures_def)
  have copy: "triple mf (intact b) (\<lambda>d. intact b d \<and> dd_bolt d = Some b)
      (\<lambda>d. case me_statWal env of Some e \<Rightarrow> (Some e, [])
         | None \<Rightarrow> if dd_wal d = None then copyBoltToWAL env b d else (None, [])) (both b)"
  proof (rule tripleI)
    fix d r ds
    assume d: "intact b d \<and> dd_bolt d = Some b"
      and run: "(case me_statWal env of Some e \<Rightarrow> (Some e, [])
         | None \<Rightarrow> if dd_wal d = None then copyBoltToWAL env b d else (None, [])) = (r, ds)"
    show "(\<forall>d' \<in> set ds. intact b d') \<and> (r = None \<longrightarrow> both b (final d ds)) \<and> (mf \<or> r = None)"
    proof (cases "me_statWal env = None \<and> dd_wal d = None")
      case True
      then show ?thesis using tripleD [OF triple_copyBoltToWAL [OF assms], of d r ds] d run by auto
    next
      case False
      then show ?thesis
        using run d nf(2) by (auto simp: both_def intact_def final_def split: option.splits if_splits)
    qed
  qed
  have rename: "triple mf (intact b) (both b)
      (call (me_renameBolt env) (\<lambda>d. d\<lparr>dd_migrated := dd_bolt d, dd_bolt := None\<rparr>)) (migrated b)"
    by (rule triple_call [OF _ nf(3)]) (auto simp: both_def intact_def migrated_def)
  show "(\<forall>d' \<in> set ds. intact b d') \<and> (r = None \<longrightarrow> migrated b (final d ds)) \<and> (mf \<or> r = None)"
  proof (cases "me_statBolt env = None \<and> dd_bolt d = Some b")
    case True
    then show ?thesis
      using tripleD [OF triple_andThen [OF copy rename], of d r ds] pre run by (auto simp: migrateFromBolt_def)
  next
    case False
    then show ?thesis
      using pre run nf(1)
      by (auto simp: migrateFromBolt_def intact_def migrated_def final_def split: option.splits)
  qed
qed

section \<open>Crash safety\<close>

lemma intact_has_data: "intact b d \<Longrightarrow> HasRaftData None None d = Inr True"
  by (auto simp: intact_def HasRaftData_def)

text \<open>
  C20: the migration may be interrupted anywhere. Whichever calls fail, in every state the data
  directory passes through nothing of the legacy store is lost, the directory is
  recognised as holding Raft data, and migrating again without failures completes: the
  log has the legacy entries and stable values, and \<open>raft.db\<close> is kept as the backup. A
  migration that reports success has itself completed.
\<close>

theorem migration_crash_safe:
  assumes "copies_logs (me_copyLogs env)" and "copies_logs (me_copyLogs env')" and "numbered b"
    and start: "dd_bolt d = Some b" "dd_wal d = None"
    and run: "migrateFromBolt env d = (r, ds)" and crash: "d' \<in> set (d # ds)" and retry: "no_failures env'"
  shows "intact b d' \<and> HasRaftData None None d' = Inr True \<and> (r = None \<longrightarrow> migrated b (final d ds)) \<and>
    (\<exists>ds'. migrateFromBolt env' d' = (None, ds') \<and> migrated b (final d' ds'))"
proof (intro conjI)
  have d: "intact b d" using start by (simp add: intact_def)
  note run = tripleD [OF migrate_triple [OF assms(1,3), of True] d run]
  show d': "intact b d'" using d crash run(1) by auto
  then show "HasRaftData None None d' = Inr True" by (rule intact_has_data)
  show "r = None \<longrightarrow> migrated b (final d ds)" using run(2) by simp
  obtain r' ds' where run': "migrateFromBolt env' d' = (r', ds')" by fastforce
  show "\<exists>ds'. migrateFromBolt env' d' = (None, ds') \<and> migrated b (final d' ds')"
    using tripleD [OF migrate_triple [OF assms(2,3), of False] d' run'] retry run' by auto
qed

definition demo_store :: "string store" where
  "demo_store = \<lparr>st_logs = [(1, ''put''), (2, ''del'')], st_uint = [''CurrentTerm'' \<mapsto> 7], st_bytes = Map.empty\<rparr>"

definition demo_env :: "goerr option \<Rightarrow> string mig_env" where
  "demo_env fault = \<lparr>me_statBolt = None, me_statWal = None, me_removeAll = None, me_mkdir = None,
     me_openBolt = None, me_openWal = None, me_lastIndex = None,
     me_copyLogs = (\<lambda>dst src. (None, [dst\<lparr>st_logs := st_logs src\<rparr>])),
     me_read = (\<lambda>key. None), me_write = (\<lambda>key. None), me_close = fault, me_renameWal = None, me_renameBolt = None\<rparr>"

definition demo_dir :: "string data_dir" where
  "demo_dir = \<lparr>dd_bolt = Some demo_store, dd_wal = None, dd_migrating = None, dd_migrated = None\<rparr>"

lemma demo_env_ok: "copies_logs (me_copyLogs (demo_env fault))" "no_failures (demo_env None)"
  by (auto simp: demo_env_def copies_logs_def no_failures_def)

theorem migration_crash_safe_witness:
  "\<exists>ds. migrateFromBolt (demo_env (Some (OtherError ''disk full''))) demo_dir = (Some (OtherError ''disk full''), ds) \<and>
     length ds = 4 \<and>
     (\<exists>ds'. migrateFromBolt (demo_env None) (last ds) = (None, ds') \<and> migrated demo_store (final (last ds) ds'))"
proof -
  obtain r ds where run: "migrateFromBolt (demo_env (Some (OtherError ''disk full''))) demo_dir = (r, ds)" by fastforce
  moreover have "r = Some (OtherError ''disk full'')" "length ds = 4"
    using run
    by (auto simp: migrateFromBolt_def demo_env_def demo_dir_def andThen_def copyBoltToWAL_def call_def check_def
        copyLogs_def LastIndex_def copyStable_def copyUint_def copyVote_def final_def demo_store_def)
  moreover have "last ds \<in> set (demo_dir # ds)" using \<open>length ds = 4\<close> by (cases ds) auto
  moreover have "numbered demo_store" "dd_bolt demo_dir = Some demo_store" "dd_wal demo_dir = None"
    by (simp_all add: numbered_def demo_store_def demo_dir_def)
  ultimately show ?thesis
    using migration_crash_safe [OF demo_env_ok(1) demo_env_ok(1)] demo_env_ok(2) by blast
qed

end
