(* ===== verification/App_Identity.thy ===== *)
theory App_Identity
  imports Storage_Migration Client_Resolver
begin

text \<open>
  \<open>internal/app/identity.go\<close> and the address functions of \<open>internal/app/runtime.go\<close>: the
  stable identity of a data directory, and the addresses a node advertises. UUIDs belong
  to a library: parsing and printing them are parameters. \<open>net.SplitHostPort\<close> and
  \<open>net.JoinHostPort\<close> are the standard library's, on ASCII.
\<close>

section \<open>Node identity\<close>

record 'u uuid_lib =
  uu_Parse :: "string \<Rightarrow> goerr + 'u"
  uu_String :: "'u \<Rightarrow> string"
  uu_Nil :: 'u

text \<open>
  Documented behaviour of the library: a printed identifier parses back, and it is a
  non-empty string without white space.
\<close>

definition uuid_ok :: "'u uuid_lib \<Rightarrow> bool" where
  "uuid_ok U \<longleftrightarrow> (\<forall>u. uu_Parse U (uu_String U u) = Inr u \<and> uu_String U u \<noteq> [] \<and>
     (\<forall>ch \<in> set (uu_String U u). \<not> isSpace ch))"

text \<open>\<open>readNodeID\<close> on the content of the file, if it exists.\<close>

definition readNodeID :: "'u uuid_lib \<Rightarrow> goerr option \<Rightarrow> string option \<Rightarrow> goerr + 'u option" where
  "readNodeID U readErr file =
     (case readErr of
        Some err \<Rightarrow> Inl (Wrapped ''read persisted node id'' err)
      | None \<Rightarrow>
          (case file of
             None \<Rightarrow> Inr None
           | Some content \<Rightarrow>
               (case uu_Parse U (TrimSpace content) of
                  Inl err \<Rightarrow> Inl (OtherError ''persisted node id is invalid'')
                | Inr u \<Rightarrow>
                    if u = uu_Nil U then Inl (OtherError ''persisted node id is invalid'') else Inr (Some u))))"

text \<open>
  What the file operations of a start meet. When the write fails, \<open>ie_partial\<close> is what
  reached the file.
\<close>

record 'u id_env =
  ie_mkdir :: "goerr option"
  ie_read :: "goerr option"
  ie_statWal :: "goerr option"
  ie_statBolt :: "goerr option"
  ie_new :: 'u
  ie_open :: "goerr option"
  ie_write :: "goerr option"
  ie_partial :: string
  ie_close :: "goerr option"

definition persistNodeID :: "'u uuid_lib \<Rightarrow> 'u id_env \<Rightarrow> string option \<Rightarrow> 'u \<Rightarrow> goerr option \<times> string option" where
  "persistNodeID U env file u =
     (case (if file \<noteq> None then Some (OtherError ''file exists'') else ie_open env) of
        Some err \<Rightarrow> (Some (Wrapped ''persist node id'' err), file)
      | None \<Rightarrow>
          (case ie_write env of
             Some err \<Rightarrow> (Some (Wrapped ''persist node id'' err), Some (ie_partial env))
           | None \<Rightarrow>
               (let file' = Some (uu_String U u @ [CHR 0x0A]) in
                case ie_close env of
                  Some err \<Rightarrow> (Some (Wrapped ''persist node id'' err), file')
                | None \<Rightarrow> (None, file'))))"

definition ResolveNodeID :: "'u uuid_lib \<Rightarrow> 'u id_env \<Rightarrow> 'e data_dir \<Rightarrow> string option \<Rightarrow> string \<Rightarrow> string \<Rightarrow>
    (goerr + 'u \<times> bool) \<times> string option" where
  "ResolveNodeID U env d file dataDir requested =
     (if dataDir = '''' then (Inl (OtherError ''data directory is required''), file)
      else
      case ie_mkdir env of
        Some err \<Rightarrow> (Inl (Wrapped ''create data directory'' err), file)
      | None \<Rightarrow>
      case readNodeID U (ie_read env) file of
        Inl err \<Rightarrow> (Inl err, file)
      | Inr stored \<Rightarrow>
      case (if requested \<noteq> ''''
            then (case uu_Parse U requested of
                    Inl err \<Rightarrow> Inl (Wrapped ''invalid node id'' err)
                  | Inr u \<Rightarrow> if u = uu_Nil U then Inl (OtherError ''invalid node id: nil UUID is not allowed'')
                             else Inr u)
            else Inr (uu_Nil U)) of
        Inl err \<Rightarrow> (Inl err, file)
      | Inr requestedID \<Rightarrow>
      (case stored of
         Some storedID \<Rightarrow>
           if requested \<noteq> '''' \<and> requestedID \<noteq> storedID
           then (Inl (OtherError ''node id does not match persisted node id''), file)
           else (Inr (storedID, False), file)
       | None \<Rightarrow>
           (let generated = (requested = '''') in
            case (if generated then
                    (case HasRaftData (ie_statWal env) (ie_statBolt env) d of
                       Inl err \<Rightarrow> Inl (Wrapped ''inspect existing Raft data'' err)
                     | Inr True \<Rightarrow> Inl (OtherError ''existing Raft data has no persisted node id'')
                     | Inr False \<Rightarrow> Inr (ie_new env))
                  else Inr requestedID) of
              Inl err \<Rightarrow> (Inl err, file)
            | Inr selectedID \<Rightarrow>
                (case persistNodeID U env file selectedID of
                   (Some err, file') \<Rightarrow> (Inl err, file')
                 | (None, file') \<Rightarrow> (Inr (selectedID, generated), file')))))"

section \<open>Host and port\<close>

fun lastColon :: "string \<Rightarrow> nat option" where
  "lastColon [] = None"
| "lastColon (ch # s) =
     (case lastColon s of Some i \<Rightarrow> Some (Suc i) | None \<Rightarrow> if ch = CHR '':'' then Some 0 else None)"

fun indexByte :: "char \<Rightarrow> string \<Rightarrow> nat option" where
  "indexByte x [] = None"
| "indexByte x (ch # s) = (if ch = x then Some 0 else map_option Suc (indexByte x s))"

definition addrErr :: "string \<Rightarrow> goerr + 'a" where
  "addrErr msg = Inl (OtherError msg)"

text \<open>The last two checks, from the positions behind the brackets that were seen, and the port.\<close>

definition splitRest :: "string \<Rightarrow> string \<Rightarrow> nat \<Rightarrow> nat \<Rightarrow> nat \<Rightarrow> goerr + string \<times> string" where
  "splitRest hostport host i j k =
     (if CHR ''['' \<in> set (drop j hostport) then addrErr ''unexpected [ in address''
      else if CHR '']'' \<in> set (drop k hostport) then addrErr ''unexpected ] in address''
      else Inr (host, drop (Suc i) hostport))"

definition SplitHostPort :: "string \<Rightarrow> goerr + string \<times> string" where
  "SplitHostPort hostport =
     (case lastColon hostport of
        None \<Rightarrow> addrErr ''missing port in address''
      | Some i \<Rightarrow>
          if hd hostport = CHR ''['' then
            (case indexByte (CHR '']'') hostport of
               None \<Rightarrow> addrErr ''missing ] in address''
             | Some e \<Rightarrow>
                 if e + 1 = length hostport then addrErr ''missing port in address''
                 else if e + 1 = i then splitRest hostport (drop 1 (take e hostport)) i 1 (e + 1)
                 else if hostport ! (e + 1) = CHR '':'' then addrErr ''too many colons in address''
                 else addrErr ''missing port in address'')
          else if CHR '':'' \<in> set (take i hostport) then addrErr ''too many colons in address''
          else splitRest hostport (take i hostport) i 0 0)"

definition JoinHostPort :: "string \<Rightarrow> string \<Rightarrow> string" where
  "JoinHostPort host port =
     (if CHR '':'' \<in> set host then ''['' @ host @ '']:'' @ port else host @ '':'' @ port)"

section \<open>Advertised addresses\<close>

definition isWildcardHost :: "string \<Rightarrow> bool" where
  "isWildcardHost host \<longleftrightarrow> host \<in> {'''', ''0.0.0.0'', ''::''}"

definition validateAdvertiseAddr :: "string \<Rightarrow> string \<Rightarrow> goerr + string" where
  "validateAdvertiseAddr addr kind =
     (case SplitHostPort addr of
        Inl err \<Rightarrow> Inl (Wrapped (''parse '' @ kind @ '' address'') err)
      | Inr (host, port) \<Rightarrow>
          if isWildcardHost host then Inl (OtherError (kind @ '' address must be explicitly routable''))
          else Inr addr)"

definition DeriveAdvertiseAddr :: "string \<Rightarrow> string \<Rightarrow> string \<Rightarrow> goerr + string" where
  "DeriveAdvertiseAddr raftAddr listenAddr explicit =
     (if explicit \<noteq> '''' then validateAdvertiseAddr explicit ''advertise''
      else
      case SplitHostPort raftAddr of
        Inl err \<Rightarrow> Inl (Wrapped ''parse raft address'' err)
      | Inr (raftHost, raftPort) \<Rightarrow>
      case SplitHostPort listenAddr of
        Inl err \<Rightarrow> Inl (Wrapped ''parse listen address'' err)
      | Inr (listenHost, listenPort) \<Rightarrow>
          if listenHost \<in> {'''', ''0.0.0.0'', ''::''} then
            if isWildcardHost raftHost
            then Inl (OtherError ''cannot derive advertise address from wildcard hosts; set an explicit advertise address'')
            else validateAdvertiseAddr (JoinHostPort raftHost listenPort) ''advertise''
          else validateAdvertiseAddr (JoinHostPort listenHost listenPort) ''advertise'')"

definition DeriveRaftAdvertiseAddr :: "string \<Rightarrow> string \<Rightarrow> string \<Rightarrow> goerr + string" where
  "DeriveRaftAdvertiseAddr bindAddr explicit fallbackHostAddr =
     (if explicit \<noteq> '''' then validateAdvertiseAddr explicit ''raft advertise''
      else
      case SplitHostPort bindAddr of
        Inl err \<Rightarrow> Inl (Wrapped ''parse raft bind address'' err)
      | Inr (bindHost, bindPort) \<Rightarrow>
          if isWildcardHost bindHost then
            if fallbackHostAddr = '''' then Inl (OtherError ''raft bind address is not routable'')
            else
              (case SplitHostPort fallbackHostAddr of
                 Inl err \<Rightarrow> Inl (Wrapped ''parse raft advertise fallback address'' err)
               | Inr (fallbackHost, fallbackPort) \<Rightarrow>
                   if isWildcardHost fallbackHost
                   then Inl (OtherError ''raft advertise fallback address is not routable'')
                   else validateAdvertiseAddr (JoinHostPort fallbackHost bindPort) ''raft advertise'')
          else validateAdvertiseAddr (JoinHostPort bindHost bindPort) ''raft advertise'')"

text \<open>The two addresses as \<open>cmd/clavis/main.go\<close> derives them from its flags.\<close>

definition resolveAddrs :: "string \<Rightarrow> string \<Rightarrow> string \<Rightarrow> string \<Rightarrow> goerr + string \<times> string" where
  "resolveAddrs raftAddr raftAdvertise grpcAddr grpcAdvertise =
     (case DeriveRaftAdvertiseAddr raftAddr raftAdvertise grpcAdvertise of
        Inl err \<Rightarrow> Inl err
      | Inr raftAdv \<Rightarrow>
          (case DeriveAdvertiseAddr raftAdv grpcAddr grpcAdvertise of
             Inl err \<Rightarrow> Inl err
           | Inr grpcAdv \<Rightarrow> Inr (raftAdv, grpcAdv)))"

section \<open>The identity is stable\<close>

lemma TrimSpace_line: "s \<noteq> [] \<Longrightarrow> \<forall>ch \<in> set s. \<not> isSpace ch \<Longrightarrow> TrimSpace (s @ [CHR 0x0A]) = s"
  by (cases s rule: rev_cases) (auto simp: TrimSpace_def isSpace_def dropWhile_append dropWhile_eq_self_iff hd_append)

lemma readNodeID_Some:
  "readNodeID U e file = Inr (Some u) \<Longrightarrow> u \<noteq> uu_Nil U \<and> readNodeID U None file = Inr (Some u)"
  by (auto simp: readNodeID_def split: option.splits sum.splits if_splits)

lemma persisted_reads_back:
  assumes "uuid_ok U" and "persistNodeID U env file u = (None, file')" and "u \<noteq> uu_Nil U"
  shows "readNodeID U None file' = Inr (Some u)"
proof -
  have "file' = Some (uu_String U u @ [CHR 0x0A])"
    using assms(2) by (auto simp: persistNodeID_def Let_def split: option.splits if_splits)
  then show ?thesis using assms(1,3) by (auto simp: readNodeID_def uuid_ok_def TrimSpace_line)
qed

lemma HasRaftData_False: "HasRaftData sw sb d = Inr False \<Longrightarrow> dd_wal d = None \<and> dd_bolt d = None"
  by (auto simp: HasRaftData_def split: option.splits if_splits)

lemma resolved_reads_back:
  assumes "uuid_ok U" and "ie_new env \<noteq> uu_Nil U" and "ResolveNodeID U env d file dataDir requested = (Inr (u, gen), file')"
  shows "readNodeID U None file' = Inr (Some u) \<and> u \<noteq> uu_Nil U \<and> dataDir \<noteq> [] \<and>
    (gen \<longrightarrow> dd_wal d = None \<and> dd_bolt d = None)"
proof -
  obtain stored where st: "readNodeID U (ie_read env) file = Inr stored" "dataDir \<noteq> []" "ie_mkdir env = None"
    using assms(3) by (auto simp: ResolveNodeID_def split: if_splits option.splits sum.splits)
  show ?thesis
  proof (cases stored)
    case (Some u')
    then have "u = u'" "file' = file" "\<not> gen"
      using assms(3) st by (auto simp: ResolveNodeID_def split: if_splits sum.splits)
    then show ?thesis using readNodeID_Some [OF st(1) [unfolded Some]] st(2) by simp
  next
    case None
    then have p: "persistNodeID U env file u = (None, file')" "u \<noteq> uu_Nil U"
        "gen \<longrightarrow> HasRaftData (ie_statWal env) (ie_statBolt env) d = Inr False"
      using assms(2,3) st
      by (auto simp: ResolveNodeID_def Let_def split: if_splits sum.splits prod.splits option.splits bool.splits)
    then show ?thesis using persisted_reads_back [OF assms(1) p(1,2)] HasRaftData_False st(2) by blast
  qed
qed

text \<open>
  C25: The identity of a data directory is stable. Once a start has resolved an identifier, every
  later start on that directory resolves the same one, whether it asks for none or for that
  one, and refuses any other, whatever Raft data there is by then; and an identifier is
  generated only when the directory holds no Raft data in either format.
\<close>

theorem node_id_stable:
  assumes "uuid_ok U" and "ie_new env \<noteq> uu_Nil U"
    and "ResolveNodeID U env d file dataDir requested = (Inr (u, gen), file')"
    and "ie_mkdir env' = None" and "ie_read env' = None"
  shows "ResolveNodeID U env' d' file' dataDir [] = (Inr (u, False), file') \<and>
    (\<forall>v req. req \<noteq> [] \<longrightarrow> uu_Parse U req = Inr v \<longrightarrow> v \<noteq> uu_Nil U \<longrightarrow>
       (if v = u then ResolveNodeID U env' d' file' dataDir req = (Inr (u, False), file')
        else \<exists>e. ResolveNodeID U env' d' file' dataDir req = (Inl e, file'))) \<and>
    (gen \<longrightarrow> dd_wal d = None \<and> dd_bolt d = None)"
  using resolved_reads_back [OF assms(1-3)] assms(4,5) by (auto simp: ResolveNodeID_def)

text \<open>A library whose identifiers are numbers, printed in unary.\<close>

definition demo_uuid :: "nat uuid_lib" where
  "demo_uuid = \<lparr>uu_Parse = (\<lambda>s. if s \<noteq> [] \<and> list_all (\<lambda>ch. ch = CHR ''a'') s then Inr (length s - 1) else Inl (OtherError ''bad'')),
     uu_String = (\<lambda>u. replicate (Suc u) (CHR ''a'')), uu_Nil = 0\<rparr>"

definition demo_id_env :: "nat id_env" where
  "demo_id_env = \<lparr>ie_mkdir = None, ie_read = None, ie_statWal = None, ie_statBolt = None, ie_new = 3, ie_open = None,
     ie_write = None, ie_partial = [], ie_close = None\<rparr>"

theorem node_id_stable_witness:
  "ResolveNodeID demo_uuid demo_id_env demo_dir (Some ''aaaa\<newline>'') ''/d'' [] = (Inr (3, False), Some ''aaaa\<newline>'')"
proof -
  let ?empty = "demo_dir\<lparr>dd_bolt := None\<rparr>"
  have ok: "uuid_ok demo_uuid"
    by (auto simp: uuid_ok_def demo_uuid_def isSpace_def list_all_iff)
  have new: "ie_new demo_id_env \<noteq> uu_Nil demo_uuid" "ie_mkdir demo_id_env = None" "ie_read demo_id_env = None"
    by (simp_all add: demo_id_env_def demo_uuid_def)
  have first: "ResolveNodeID demo_uuid demo_id_env ?empty None ''/d'' [] = (Inr (3, True), Some ''aaaa\<newline>'')"
    by (simp add: ResolveNodeID_def readNodeID_def persistNodeID_def HasRaftData_def demo_id_env_def demo_uuid_def
        demo_dir_def numeral_3_eq_3)
  from node_id_stable [OF ok new(1) first new(2,3)] show ?thesis by blast
qed

section \<open>Addresses split as they were joined\<close>

lemma lastColon_None: "lastColon s = None \<longleftrightarrow> CHR '':'' \<notin> set s"
  by (induction s) (auto split: option.splits)

lemma lastColon_append: "CHR '':'' \<notin> set b \<Longrightarrow> lastColon (a @ CHR '':'' # b) = Some (length a)"
proof (induction a)
  case Nil
  then have "lastColon b = None" by (simp add: lastColon_None)
  then show ?case by simp
qed simp

lemma lastColon_Some: "lastColon s = Some i \<Longrightarrow> \<exists>a b. s = a @ CHR '':'' # b \<and> length a = i \<and> CHR '':'' \<notin> set b"
proof (induction s arbitrary: i)
  case (Cons ch s)
  show ?case
  proof (cases "lastColon s")
    case None
    then show ?thesis using Cons.prems lastColon_None [of s] by (auto split: if_splits intro!: exI [of _ "[]"])
  next
    case (Some j)
    then obtain a b where "s = a @ CHR '':'' # b" "length a = j" "CHR '':'' \<notin> set b" using Cons.IH by blast
    then show ?thesis using Cons.prems Some by (intro exI [of _ "ch # a"] exI [of _ b]) auto
  qed
qed simp

lemma indexByte_append: "x \<notin> set a \<Longrightarrow> indexByte x (a @ x # b) = Some (length a)"
  by (induction a) auto

lemma indexByte_Some: "indexByte x s = Some i \<Longrightarrow> \<exists>a b. s = a @ x # b \<and> length a = i \<and> x \<notin> set a"
proof (induction s arbitrary: i)
  case (Cons ch s)
  show ?case
  proof (cases "ch = x")
    case True
    then show ?thesis using Cons.prems by (intro exI [of _ "[]"] exI [of _ s]) auto
  next
    case False
    then obtain j where "indexByte x s = Some j" "i = Suc j" using Cons.prems by auto
    then obtain a b where "s = a @ x # b" "length a = j" "x \<notin> set a" using Cons.IH by blast
    then show ?thesis using \<open>i = Suc j\<close> False by (intro exI [of _ "ch # a"] exI [of _ b]) auto
  qed
qed simp

text \<open>What the parts of a split address look like.\<close>

definition parts_ok :: "string \<Rightarrow> string \<Rightarrow> bool" where
  "parts_ok h p \<longleftrightarrow> CHR ''['' \<notin> set h \<and> CHR '']'' \<notin> set h \<and> CHR '':'' \<notin> set p \<and> CHR ''['' \<notin> set p \<and> CHR '']'' \<notin> set p"

lemma split_parts:
  assumes "SplitHostPort s = Inr (h, p)"
  shows "parts_ok h p"
proof -
  obtain a b where s: "s = a @ CHR '':'' # b" "CHR '':'' \<notin> set b" and i: "lastColon s = Some (length a)"
    using assms lastColon_Some by (fastforce simp: SplitHostPort_def addrErr_def split: option.splits)
  show ?thesis
  proof (cases "hd s = CHR ''[''")
    case False
    then have "splitRest s (take (length a) s) (length a) 0 0 = Inr (h, p)"
      using assms i by (auto simp: SplitHostPort_def addrErr_def split: if_splits)
    then show ?thesis using s by (auto simp: splitRest_def addrErr_def parts_ok_def split: if_splits)
  next
    case True
    then obtain e where e: "indexByte (CHR '']'') s = Some e" "e + 1 = length a"
      "splitRest s (drop 1 (take e s)) (length a) 1 (e + 1) = Inr (h, p)"
      using assms i by (auto simp: SplitHostPort_def addrErr_def split: option.splits if_splits)
    then obtain a' b' where a': "s = a' @ CHR '']'' # b'" "length a' = e" "CHR '']'' \<notin> set a'"
      using indexByte_Some by blast
    have "take e s = a'" unfolding a'(1) using a'(2) by auto
    moreover have "drop (Suc (length a)) s = b" using s(1) by simp
    ultimately have h: "h = drop 1 a'" "p = b" "CHR ''['' \<notin> set (drop 1 s)" "CHR '']'' \<notin> set (drop (e + 1) s)"
      using e(3) by (auto simp: splitRest_def addrErr_def split: if_splits)
    have "drop (length a) s = CHR '':'' # b" using s by simp
    then have "CHR '']'' \<notin> set b" using h(4) e(2) by (metis list.set_intros(2))
    moreover have "set b \<subseteq> set (drop 1 s)" using s(1) e(2) by (cases a) auto
    moreover have "set (drop 1 a') \<subseteq> set (drop 1 s)" using a'(1) by (cases a') auto
    ultimately show ?thesis using h a'(3) s(2) in_set_dropD [of _ 1 a'] by (auto simp: parts_ok_def)
  qed
qed

lemma split_join:
  assumes "parts_ok h p"
  shows "SplitHostPort (JoinHostPort h p) = Inr (h, p)"
proof (cases "CHR '':'' \<in> set h")
  case True
  let ?s = "CHR ''['' # h @ CHR '']'' # CHR '':'' # p"
  have "lastColon ?s = Some (length h + 2)"
    using assms lastColon_append [of p "CHR ''['' # h @ [CHR '']'']"] by (simp add: parts_ok_def)
  moreover have "indexByte (CHR '']'') ?s = Some (length h + 1)"
    using assms indexByte_append [of "CHR '']''" "CHR ''['' # h" "CHR '':'' # p"] by (simp add: parts_ok_def)
  ultimately have "SplitHostPort ?s = Inr (h, p)"
    using assms by (simp add: SplitHostPort_def splitRest_def parts_ok_def)
  then show ?thesis using True by (simp add: JoinHostPort_def)
next
  case False
  let ?s = "h @ CHR '':'' # p"
  have "lastColon ?s = Some (length h)" using assms by (simp add: lastColon_append parts_ok_def)
  moreover have "hd ?s \<noteq> CHR ''[''" using assms by (cases h) (auto simp: parts_ok_def)
  ultimately have "SplitHostPort ?s = Inr (h, p)"
    using assms False by (simp add: SplitHostPort_def splitRest_def parts_ok_def)
  then show ?thesis using False by (simp add: JoinHostPort_def)
qed

section \<open>Advertised addresses are routable\<close>

lemma validate_ok:
  "validateAdvertiseAddr addr kind = Inr adv \<Longrightarrow>
     adv = addr \<and> (\<exists>h p. SplitHostPort addr = Inr (h, p) \<and> \<not> isWildcardHost h)"
  by (auto simp: validateAdvertiseAddr_def split: sum.splits prod.splits if_splits)

lemma validate_joined:
  assumes "validateAdvertiseAddr (JoinHostPort h p) kind = Inr adv" and "parts_ok h p"
  shows "SplitHostPort adv = Inr (h, p) \<and> \<not> isWildcardHost h"
  using validate_ok [OF assms(1)] split_join [OF assms(2)] by auto

text \<open>
  How an advertised address \<open>adv\<close> comes about from a bind address, an explicit address and a
  host to fall back to.
\<close>

definition advertises :: "string \<Rightarrow> string \<Rightarrow> string \<Rightarrow> string \<Rightarrow> bool" where
  "advertises adv bind explicit fallback \<longleftrightarrow> (\<exists>h p. SplitHostPort adv = Inr (h, p) \<and> \<not> isWildcardHost h \<and>
     (if explicit \<noteq> [] then adv = explicit
      else \<exists>bh fp. SplitHostPort bind = Inr (bh, p) \<and>
        (if isWildcardHost bh then SplitHostPort fallback = Inr (h, fp) else h = bh)))"

lemma parts_mix: "parts_ok h p \<Longrightarrow> parts_ok h' p' \<Longrightarrow> parts_ok h p'"
  by (simp add: parts_ok_def)

lemma raft_advertises:
  assumes "DeriveRaftAdvertiseAddr bind explicit fallback = Inr adv"
  shows "advertises adv bind explicit fallback"
proof (cases "explicit = []")
  case False
  then show ?thesis
    using assms validate_ok [of explicit "''raft advertise''" adv] by (auto simp: DeriveRaftAdvertiseAddr_def advertises_def)
next
  case True
  then obtain bh p where b: "SplitHostPort bind = Inr (bh, p)"
    using assms by (auto simp: DeriveRaftAdvertiseAddr_def split: sum.splits)
  show ?thesis
  proof (cases "isWildcardHost bh")
    case wild: True
    then obtain fh fp where f: "SplitHostPort fallback = Inr (fh, fp)"
      "validateAdvertiseAddr (JoinHostPort fh p) ''raft advertise'' = Inr adv"
      using assms True b by (auto simp: DeriveRaftAdvertiseAddr_def split: sum.splits if_splits)
    then show ?thesis
      using validate_joined [OF f(2) parts_mix [OF split_parts [OF f(1)] split_parts [OF b]]] True b wild
      by (auto simp: advertises_def)
  next
    case False
    then have "validateAdvertiseAddr (JoinHostPort bh p) ''raft advertise'' = Inr adv"
      using assms True b by (simp add: DeriveRaftAdvertiseAddr_def)
    from validate_joined [OF this split_parts [OF b]] show ?thesis using True b False by (auto simp: advertises_def)
  qed
qed

lemma DeriveAdvertiseAddr_fold:
  "DeriveAdvertiseAddr raftAddr listen explicit =
     (if explicit \<noteq> [] then validateAdvertiseAddr explicit ''advertise''
      else
      case SplitHostPort raftAddr of
        Inl err \<Rightarrow> Inl (Wrapped ''parse raft address'' err)
      | Inr (rh, rp) \<Rightarrow>
      case SplitHostPort listen of
        Inl err \<Rightarrow> Inl (Wrapped ''parse listen address'' err)
      | Inr (lh, p) \<Rightarrow>
          if isWildcardHost lh then
            if isWildcardHost rh
            then Inl (OtherError ''cannot derive advertise address from wildcard hosts; set an explicit advertise address'')
            else validateAdvertiseAddr (JoinHostPort rh p) ''advertise''
          else validateAdvertiseAddr (JoinHostPort lh p) ''advertise'')"
  unfolding DeriveAdvertiseAddr_def isWildcardHost_def by (rule refl)

lemma grpc_advertises:
  assumes "DeriveAdvertiseAddr raftAddr listen explicit = Inr adv"
  shows "advertises adv listen explicit raftAddr"
proof (cases "explicit = []")
  case False
  then show ?thesis
    using assms validate_ok [of explicit "''advertise''" adv] by (auto simp: DeriveAdvertiseAddr_fold advertises_def)
next
  case True
  then obtain rh rp lh p where s: "SplitHostPort raftAddr = Inr (rh, rp)" "SplitHostPort listen = Inr (lh, p)"
    using assms by (auto simp: DeriveAdvertiseAddr_fold split: sum.splits)
  then have "validateAdvertiseAddr (JoinHostPort (if isWildcardHost lh then rh else lh) p) ''advertise'' = Inr adv"
    using assms True by (auto simp: DeriveAdvertiseAddr_fold split: if_splits)
  moreover have "parts_ok (if isWildcardHost lh then rh else lh) p"
    using split_parts [OF s(1)] split_parts [OF s(2)] by (auto intro: parts_mix)
  ultimately have "SplitHostPort adv = Inr (if isWildcardHost lh then rh else lh, p) \<and> \<not> isWildcardHost (if isWildcardHost lh then rh else lh)"
    by (rule validate_joined)
  then show ?thesis using True s by (cases "isWildcardHost lh") (simp_all add: advertises_def)
qed

text \<open>
  The addresses a node advertises are routable. When the two addresses can be derived from
  the flags, each has a host that is none of the wildcards the code knows; it is the
  explicit address if one was given; otherwise it has the port of its bind address, and
  the host of its bind address or, where that is a wildcard, the host of the other
  address.
\<close>

theorem advertised_addresses:
  assumes "resolveAddrs raftAddr raftAdvertise grpcAddr grpcAdvertise = Inr (raftAdv, grpcAdv)"
  shows "advertises raftAdv raftAddr raftAdvertise grpcAdvertise \<and> advertises grpcAdv grpcAddr grpcAdvertise raftAdv"
  using assms raft_advertises grpc_advertises by (auto simp: resolveAddrs_def split: sum.splits)

lemma demo_addrs:
  "resolveAddrs ''10.0.0.5:7000'' [] '':9000'' [] = Inr (''10.0.0.5:7000'', ''10.0.0.5:9000'')"
  by (simp add: resolveAddrs_def DeriveRaftAdvertiseAddr_def DeriveAdvertiseAddr_def validateAdvertiseAddr_def
      SplitHostPort_def splitRest_def JoinHostPort_def isWildcardHost_def)

text \<open>Only three spellings of the wildcards are known: another one of the same address is advertised.\<close>

theorem unspecified_host_advertised:
  "resolveAddrs ''10.0.0.5:7000'' [] ''[::0]:9000'' [] = Inr (''10.0.0.5:7000'', ''[::0]:9000'')"
  by (simp add: resolveAddrs_def DeriveRaftAdvertiseAddr_def DeriveAdvertiseAddr_def validateAdvertiseAddr_def
      SplitHostPort_def splitRest_def JoinHostPort_def isWildcardHost_def)

end
