(* ===== verification/App_Runtime.thy ===== *)
theory App_Runtime
  imports App_Identity
begin

text \<open>
  \<open>internal/app\<close>: the runtime of a node (\<open>runtime.go\<close>), the leader-chasing loop of the admin
  commands (\<open>admin.go\<close>) and the in-process cluster of the examples (\<open>localcluster.go\<close>).
  What listeners, the gRPC server and the network do is given per call.
\<close>

section \<open>Admin calls\<close>

text \<open>What one attempt meets: the context, dialling, the node's answer, and the context in the wait after it.\<close>

record 'a admin_net =
  an_ctx :: "client_err option"
  an_conn :: "client_err option"
  an_op :: "string \<Rightarrow> rpc_error + 'a"
  an_wait :: "client_err option"

fun callLeaderLoop :: "(nat \<Rightarrow> 'a admin_net) \<Rightarrow> nat \<Rightarrow> nat \<Rightarrow> string \<Rightarrow> client_err option \<Rightarrow> client_err + 'a" where
  "callLeaderLoop net 0 k target lastErr =
     Inl (case lastErr of None \<Rightarrow> ClientError ''no reachable leader'' | Some e \<Rightarrow> e)"
| "callLeaderLoop net (Suc remaining) k target lastErr =
     (case an_ctx (net k) of
        Some err \<Rightarrow> Inl err
      | None \<Rightarrow>
          (case an_conn (net k) of
             Some err \<Rightarrow>
               (case an_wait (net k) of
                  Some ctxErr \<Rightarrow> Inl ctxErr
                | None \<Rightarrow> callLeaderLoop net remaining (Suc k) target (Some (ClientWrapped ''connect to cluster'' err)))
           | None \<Rightarrow>
               (case an_op (net k) target of
                  Inr resp \<Rightarrow> Inr resp
                | Inl err \<Rightarrow>
                    (let leaderAddr = FromError (Some err) in
                     if leaderAddr \<noteq> '''' then callLeaderLoop net remaining (Suc k) leaderAddr (Some (Rpc err))
                     else
                       (case an_wait (net k) of
                          Some ctxErr \<Rightarrow> Inl ctxErr
                        | None \<Rightarrow> callLeaderLoop net remaining (Suc k) target (Some (Rpc err)))))))"

definition callLeader :: "(nat \<Rightarrow> 'a admin_net) \<Rightarrow> string \<Rightarrow> client_err + 'a" where
  "callLeader net addr = callLeaderLoop net 10 0 addr None"

definition RemoveClusterNode :: "(string \<Rightarrow> nat \<Rightarrow> bool admin_net) \<Rightarrow> string \<Rightarrow> string \<Rightarrow> client_err option" where
  "RemoveClusterNode net clusterAddr nodeID =
     (case callLeader (net nodeID) clusterAddr of
        Inl err \<Rightarrow> Some (ClientWrapped ''remove node'' err) | Inr resp \<Rightarrow> None)"

definition JoinCluster :: "(Pb_ClusterMember \<Rightarrow> nat \<Rightarrow> (bool \<times> string) admin_net) \<Rightarrow> string \<Rightarrow> Pb_ClusterMember \<Rightarrow> client_err option" where
  "JoinCluster net clusterAddr member =
     (case callLeader (net member) clusterAddr of
        Inl err \<Rightarrow> Some (ClientWrapped ''join cluster'' err) | Inr resp \<Rightarrow> None)"

section \<open>The runtime\<close>

record AppConfig =
  App_NodeID :: string
  App_RaftAddr :: string
  App_RaftAdvertiseAddr :: string
  App_GRPCAddr :: string
  App_GRPCAdvertiseAddr :: string
  App_DataDir :: string
  App_Bootstrap :: bool

text \<open>The node and its resources, whether the gRPC server is open, and the state of \<open>stopOnce\<close>.\<close>

record Runtime =
  rt_node :: Node
  rt_run :: run_state
  rt_grpcOpen :: bool
  rt_isStopped :: bool
  rt_stopErr :: "goerr option"

definition nodeConfig :: "AppConfig \<Rightarrow> Config" where
  "nodeConfig cfg = \<lparr>Cfg_NodeID = App_NodeID cfg, Cfg_BindAddr = App_RaftAddr cfg,
     Cfg_RaftAdvertiseAddr = App_RaftAdvertiseAddr cfg, Cfg_DataDir = App_DataDir cfg,
     Cfg_Bootstrap = App_Bootstrap cfg, Cfg_GRPCAdvertiseAddr = App_GRPCAdvertiseAddr cfg\<rparr>"

text \<open>The result, and what is left open when it is an error.\<close>

definition NewRuntime :: "start_env \<Rightarrow> goerr option \<Rightarrow> goerr option \<Rightarrow> AppConfig \<Rightarrow> (goerr + Runtime) \<times> resource list" where
  "NewRuntime env listenErr raftShutdown cfg =
     (case NewNode env (nodeConfig cfg) of
        (Inl err, bootstrapped, open_res) \<Rightarrow> (Inl (Wrapped ''create raft node'' err), open_res)
      | (Inr node, bootstrapped, open_res) \<Rightarrow>
          (let run = \<lparr>rs_stopped = False, rs_open = open_res\<rparr> in
           case listenErr of
             Some err \<Rightarrow> (Inl (Wrapped ''listen'' err), rs_open (snd (Shutdown raftShutdown run)))
           | None \<Rightarrow>
               (Inr \<lparr>rt_node = node, rt_run = run, rt_grpcOpen = True, rt_isStopped = False, rt_stopErr = None\<rparr>, open_res)))"

text \<open>\<open>Stop\<close>: \<open>ctxErr\<close> is the context's error if it is done before the graceful stop is.\<close>

definition Runtime_Stop :: "goerr option \<Rightarrow> goerr option \<Rightarrow> Runtime \<Rightarrow> goerr option \<times> Runtime" where
  "Runtime_Stop ctxErr raftShutdown rt =
     (if rt_isStopped rt then (rt_stopErr rt, rt)
      else
        (case Shutdown raftShutdown (rt_run rt) of
           (err, run) \<Rightarrow>
             (let stopErr = (case ctxErr of Some e \<Rightarrow> Some e | None \<Rightarrow> err)
              in (stopErr, rt\<lparr>rt_run := run, rt_grpcOpen := False, rt_isStopped := True, rt_stopErr := stopErr\<rparr>))))"

definition StopNow :: "goerr option \<Rightarrow> Runtime \<Rightarrow> goerr option \<times> Runtime" where
  "StopNow raftShutdown rt =
     (if rt_isStopped rt then (rt_stopErr rt, rt)
      else
        (case Shutdown raftShutdown (rt_run rt) of
           (err, run) \<Rightarrow> (err, rt\<lparr>rt_run := run, rt_grpcOpen := False, rt_isStopped := True, rt_stopErr := err\<rparr>)))"

definition Runtime_Member :: "Runtime \<Rightarrow> ClusterMember" where
  "Runtime_Member rt = SelfMember (rt_node rt)"

section \<open>The local cluster\<close>

record LocalCluster =
  lc_runtimes :: "Runtime list"
  lc_addrs :: "string list"

definition Addrs :: "LocalCluster \<Rightarrow> string list" where
  "Addrs c = lc_addrs c"

text \<open>
  What a node reads when it is polled: from its Raft instance, and the replicated state it
  has applied by then, since the nodes run on in the background.
\<close>

type_synonym poll = "raft_view \<times> FSM"

definition polled :: "poll \<Rightarrow> Runtime \<Rightarrow> Node" where
  "polled v r = (rt_node r)\<lparr>node_fsm := snd v\<rparr>"

text \<open>\<open>agreedLeader\<close>: the last running node that leads, if every running node names its address.\<close>

fun lastLeader :: "poll list \<Rightarrow> Runtime list \<Rightarrow> nat \<Rightarrow> nat option \<Rightarrow> nat option" where
  "lastLeader (v # views) (r # rs) i leader =
     lastLeader views rs (Suc i) (if rt_isStopped r then leader else if IsLeader (fst v) then Some i else leader)"
| "lastLeader _ _ i leader = leader"

definition agreedLeader :: "poll list \<Rightarrow> LocalCluster \<Rightarrow> nat option" where
  "agreedLeader views c =
     (case lastLeader views (lc_runtimes c) 0 None of
        None \<Rightarrow> None
      | Some leader \<Rightarrow>
          if list_all2 (\<lambda>v r. rt_isStopped r \<or> GetLeaderGRPCAddress (fst v) (polled v r) = lc_addrs c ! leader) views (lc_runtimes c)
          then Some leader else None)"

text \<open>The polling loops: what is read at each poll before the deadline.\<close>

fun LocalCluster_WaitForLeader :: "poll list list \<Rightarrow> LocalCluster \<Rightarrow> goerr + nat" where
  "LocalCluster_WaitForLeader [] c = Inl (OtherError ''no leader elected'')"
| "LocalCluster_WaitForLeader (views # polls) c =
     (case agreedLeader views c of Some leader \<Rightarrow> Inr leader | None \<Rightarrow> LocalCluster_WaitForLeader polls c)"

fun waitForMembers :: "poll list list \<Rightarrow> LocalCluster \<Rightarrow> nat \<Rightarrow> goerr option" where
  "waitForMembers [] c want = Some (OtherError ''cluster did not reach its members'')"
| "waitForMembers (views # polls) c want =
     (case agreedLeader views c of
        Some leader \<Rightarrow>
          if length (Members (fst (views ! leader)) (polled (views ! leader) (lc_runtimes c ! leader))) = want then None
          else waitForMembers polls c want
      | None \<Rightarrow> waitForMembers polls c want)"

text \<open>\<open>Close\<close> stops every node; stopping one does not depend on the others.\<close>

definition LocalCluster_StopNode :: "goerr option \<Rightarrow> LocalCluster \<Rightarrow> nat \<Rightarrow> (goerr option \<times> LocalCluster) go" where
  "LocalCluster_StopNode raftShutdown c i =
     (if i < length (lc_runtimes c)
      then (case StopNow raftShutdown (lc_runtimes c ! i) of
              (err, rt) \<Rightarrow> Ret (err, c\<lparr>lc_runtimes := (lc_runtimes c)[i := rt]\<rparr>))
      else Panic)"

definition LocalCluster_Close :: "(nat \<Rightarrow> goerr option) \<Rightarrow> LocalCluster \<Rightarrow> LocalCluster" where
  "LocalCluster_Close raftShutdown c =
     c\<lparr>lc_runtimes := map (\<lambda>i. snd (StopNow (raftShutdown i) (lc_runtimes c ! i))) [0..<length (lc_runtimes c)]\<rparr>"

text \<open>A loopback address, from what listening on any free port yields.\<close>

definition freeLoopbackAddr :: "goerr + string \<Rightarrow> goerr + string" where
  "freeLoopbackAddr listen =
     (case listen of Inl err \<Rightarrow> Inl (Wrapped ''allocate loopback port'' err) | Inr addr \<Rightarrow> Inr addr)"

text \<open>
  What starting one node meets: its ports and its new identifier, the construction of its
  node and its listener, the polls of the first election, and the network of its join.
\<close>

record node_env =
  ne_raftAddr :: "goerr + string"
  ne_grpcAddr :: "goerr + string"
  ne_uuid :: string
  ne_start :: start_env
  ne_listen :: "goerr option"
  ne_down :: "goerr option"
  ne_polls :: "poll list list"
  ne_join :: "Pb_ClusterMember \<Rightarrow> nat \<Rightarrow> (bool \<times> string) admin_net"

datatype app_err = NodeErr goerr | CallErr client_err

fun itoa :: "nat \<Rightarrow> string" where
  "itoa n = (if n < 10 then [char_of (48 + n)] else itoa (n div 10) @ [char_of (48 + n mod 10)])"

declare itoa.simps [simp del]

text \<open>The configuration of node \<open>i\<close>, under a clean path \<open>dataDir\<close>.\<close>

definition localConfig :: "string \<Rightarrow> nat \<Rightarrow> string \<Rightarrow> string \<Rightarrow> string \<Rightarrow> AppConfig" where
  "localConfig dataDir i uuid raftAddr grpcAddr =
     \<lparr>App_NodeID = uuid, App_RaftAddr = raftAddr, App_RaftAdvertiseAddr = raftAddr, App_GRPCAddr = grpcAddr,
      App_GRPCAdvertiseAddr = grpcAddr, App_DataDir = dataDir @ ''/node-'' @ itoa i, App_Bootstrap = (i = 0)\<rparr>"

definition joinRequest :: "ClusterMember \<Rightarrow> Pb_ClusterMember" where
  "joinRequest member = \<lparr>PbMember_NodeId = Member_NodeID member, PbMember_RaftAddress = Member_RaftAddress member,
     PbMember_GrpcAddress = Member_GRPCAddress member\<rparr>"

text \<open>The result, and the cluster that is left when it is an error.\<close>

fun startNodes :: "(nat \<Rightarrow> goerr option) \<Rightarrow> string \<Rightarrow> nat \<Rightarrow> node_env list \<Rightarrow> LocalCluster \<Rightarrow> app_err option \<times> LocalCluster" where
  "startNodes down dataDir i [] c = (None, c)"
| "startNodes down dataDir i (e # envs) c =
     (case freeLoopbackAddr (ne_raftAddr e) of
        Inl err \<Rightarrow> (Some (NodeErr err), LocalCluster_Close down c)
      | Inr raftAddr \<Rightarrow>
      case freeLoopbackAddr (ne_grpcAddr e) of
        Inl err \<Rightarrow> (Some (NodeErr err), LocalCluster_Close down c)
      | Inr grpcAddr \<Rightarrow>
      case fst (NewRuntime (ne_start e) (ne_listen e) (ne_down e) (localConfig dataDir i (ne_uuid e) raftAddr grpcAddr)) of
        Inl err \<Rightarrow> (Some (NodeErr (Wrapped ''start node'' err)), LocalCluster_Close down c)
      | Inr runtime \<Rightarrow>
          (let c' = c\<lparr>lc_runtimes := lc_runtimes c @ [runtime], lc_addrs := lc_addrs c @ [grpcAddr]\<rparr> in
           if i = 0 then
             (case LocalCluster_WaitForLeader (ne_polls e) c' of
                Inl err \<Rightarrow> (Some (NodeErr err), LocalCluster_Close down c')
              | Inr leader \<Rightarrow> startNodes down dataDir (Suc i) envs c')
           else
             (case JoinCluster (ne_join e) (lc_addrs c' ! 0) (joinRequest (Runtime_Member runtime)) of
                Some err \<Rightarrow> (Some (CallErr (ClientWrapped ''join node'' err)), LocalCluster_Close down c')
              | None \<Rightarrow> startNodes down dataDir (Suc i) envs c')))"

definition StartLocalCluster :: "(nat \<Rightarrow> goerr option) \<Rightarrow> string \<Rightarrow> node_env list \<Rightarrow> poll list list \<Rightarrow> app_err option \<times> LocalCluster" where
  "StartLocalCluster down dataDir envs polls =
     (case startNodes down dataDir 0 envs \<lparr>lc_runtimes = [], lc_addrs = []\<rparr> of
        (Some err, c) \<Rightarrow> (Some err, c)
      | (None, c) \<Rightarrow>
          (case waitForMembers polls c (length envs) of
             Some err \<Rightarrow> (Some (NodeErr err), LocalCluster_Close down c)
           | None \<Rightarrow> (None, c)))"

section \<open>Admin calls reach the leader\<close>

lemma callLeader_patient:
  assumes "\<And>i. i < j \<Longrightarrow> an_ctx (net (k + i)) = None \<and> an_conn (net (k + i)) = None \<and> an_wait (net (k + i)) = None \<and>
      (\<exists>err. an_op (net (k + i)) target = Inl err \<and> FromError (Some err) = [])"
  shows "\<exists>lastErr'. callLeaderLoop net (j + remaining) k target lastErr = callLeaderLoop net remaining (k + j) target lastErr'"
  using assms
proof (induction j arbitrary: k lastErr)
  case (Suc j)
  then obtain err where "an_op (net k) target = Inl err" "FromError (Some err) = []" "an_ctx (net k) = None"
      "an_conn (net k) = None" "an_wait (net k) = None"
    using Suc.prems [of 0] by auto
  then have "callLeaderLoop net (Suc j + remaining) k target lastErr = callLeaderLoop net (j + remaining) (Suc k) target (Some (Rpc err))"
    by simp
  moreover have "\<exists>lastErr'. callLeaderLoop net (j + remaining) (Suc k) target (Some (Rpc err)) =
      callLeaderLoop net remaining (Suc k + j) target lastErr'"
    by (rule Suc.IH) (use Suc.prems [of "Suc _"] in auto)
  ultimately show ?case by simp
qed auto

text \<open>
  An administrative command reaches the leader through any node that knows it. If the node
  it is given fails up to eight times without a hint, as during an election, and then
  redirects to the leader, and the leader answers, then the command returns the leader's
  answer, while its context is live.
\<close>

theorem admin_reaches_leader:
  assumes "j \<le> 8" and "\<And>i. i \<le> Suc j \<Longrightarrow> an_ctx (net i) = None \<and> an_conn (net i) = None \<and> an_wait (net i) = None"
    and "\<And>i. i < j \<Longrightarrow> \<exists>err. an_op (net i) addr = Inl err \<and> FromError (Some err) = []"
    and "an_op (net j) addr = Inl hint" and "FromError (Some hint) = L" and "L \<noteq> []" and "an_op (net (Suc j)) L = Inr v"
  shows "callLeader net addr = Inr v"
proof -
  define m where "m = 8 - j"
  have m: "10 = j + Suc (Suc m)" using assms(1) by (simp add: m_def)
  obtain e where "callLeaderLoop net (j + Suc (Suc m)) 0 addr None = callLeaderLoop net (Suc (Suc m)) j addr e"
    using callLeader_patient [of j net 0 addr "Suc (Suc m)" None] assms(2,3) by auto
  moreover have "an_ctx (net j) = None" "an_conn (net j) = None" "an_ctx (net (Suc j)) = None" "an_conn (net (Suc j)) = None"
    using assms(2) [of j] assms(2) [of "Suc j"] by auto
  ultimately show ?thesis using assms(4-7) unfolding callLeader_def m by simp
qed

section \<open>Stopping\<close>

lemma Shutdown_stops: "Shutdown down s = (e, s') \<Longrightarrow> rs_stopped s' \<and> (down = None \<longrightarrow> \<not> rs_stopped s \<longrightarrow> rs_open s' = [])"
  by (auto simp: Shutdown_def split: if_splits option.splits)

text \<open>
  A runtime stops once, for good. However \<open>Stop\<close> and \<open>StopNow\<close> are called, the first call
  closes the gRPC server and shuts the node down, also when the graceful stop ran into its
  deadline, and releases every resource if Raft stops; every later call of either returns
  the first call's error and changes nothing.
\<close>

theorem stops_once:
  assumes "(err, rt') \<in> {Runtime_Stop ctxErr down rt, StopNow down rt}" and "\<not> rt_isStopped rt" and "\<not> rs_stopped (rt_run rt)"
  shows "\<not> rt_grpcOpen rt' \<and> rs_stopped (rt_run rt') \<and> (down = None \<longrightarrow> rs_open (rt_run rt') = []) \<and>
    Runtime_Stop ctxErr' down' rt' = (err, rt') \<and> StopNow down' rt' = (err, rt')"
proof -
  obtain e run where "Shutdown down (rt_run rt) = (e, run)" by fastforce
  with Shutdown_stops [OF this] show ?thesis
    using assms by (auto simp: Runtime_Stop_def StopNow_def Let_def)
qed

section \<open>The local cluster starts or is stopped\<close>

lemma Close_stops: "\<forall>r \<in> set (lc_runtimes (LocalCluster_Close down c)). rt_isStopped r"
  by (auto simp: LocalCluster_Close_def StopNow_def split: prod.splits)

lemma startNodes_fails: "startNodes down dataDir i envs c = (Some err, c') \<Longrightarrow> \<forall>r \<in> set (lc_runtimes c'). rt_isStopped r"
proof (induction envs arbitrary: i c)
  case (Cons e envs)
  show ?case
  proof (rule ccontr)
    assume stopped: "\<not> ?thesis"
    then have no: "c' \<noteq> LocalCluster_Close down d" "startNodes down dataDir (Suc i) envs d \<noteq> (Some err, c')" for d
      using Close_stops Cons.IH by blast+
    show False
      using Cons.prems no
      by (cases "freeLoopbackAddr (ne_raftAddr e)"; cases "freeLoopbackAddr (ne_grpcAddr e)")
        (auto simp: Let_def split: sum.splits if_splits option.splits)
  qed
qed simp

lemma lastLeader_Some:
  "lastLeader views rs i leader = Some l \<Longrightarrow> length views = length rs \<Longrightarrow>
     leader = Some l \<or> (i \<le> l \<and> l - i < length rs \<and> \<not> rt_isStopped (rs ! (l - i)) \<and> IsLeader (fst (views ! (l - i))))"
proof (induction views rs i leader rule: lastLeader.induct)
  case (1 v views r rs i leader)
  then have "(if rt_isStopped r then leader else if IsLeader (fst v) then Some i else leader) = Some l \<or>
      (Suc i \<le> l \<and> l - Suc i < length rs \<and> \<not> rt_isStopped (rs ! (l - Suc i)) \<and> IsLeader (fst (views ! (l - Suc i))))"
    by simp
  moreover have "Suc i \<le> l \<Longrightarrow> l - i = Suc (l - Suc i)" by simp
  ultimately show ?case by (auto split: if_splits)
qed auto

lemma agreedLeader_Some:
  assumes "agreedLeader views c = Some l" and "length views = length (lc_runtimes c)"
  shows "l < length (lc_runtimes c) \<and> \<not> rt_isStopped (lc_runtimes c ! l) \<and> IsLeader (fst (views ! l)) \<and>
    (\<forall>i < length (lc_runtimes c). rt_isStopped (lc_runtimes c ! i) \<or>
       GetLeaderGRPCAddress (fst (views ! i)) (polled (views ! i) (lc_runtimes c ! i)) = lc_addrs c ! l)"
  using assms lastLeader_Some [of views "lc_runtimes c" 0 None l]
  by (auto simp: agreedLeader_def list_all2_conv_all_nth split: option.splits if_splits)

lemma waitForMembers_None:
  "waitForMembers polls c want = None \<Longrightarrow>
     \<exists>views \<in> set polls. \<exists>l. agreedLeader views c = Some l \<and> length (Members (fst (views ! l)) (polled (views ! l) (lc_runtimes c ! l))) = want"
  by (induction polls c want rule: waitForMembers.induct) (auto split: option.splits if_splits)

text \<open>
  A local cluster comes up whole or not at all. When starting it fails, at whichever node
  and step, every runtime that had been started is stopped; when it succeeds, some running
  node leads, every running node names that node's address, and the leader knows as many
  members as were started.
\<close>

theorem local_cluster_whole:
  assumes "StartLocalCluster down dataDir envs polls = (err, c)" and "\<forall>views \<in> set polls. length views = length (lc_runtimes c)"
  shows "(err \<noteq> None \<longrightarrow> (\<forall>r \<in> set (lc_runtimes c). rt_isStopped r)) \<and>
    (err = None \<longrightarrow> (\<exists>views \<in> set polls. \<exists>l < length (lc_runtimes c). \<not> rt_isStopped (lc_runtimes c ! l) \<and> IsLeader (fst (views ! l)) \<and>
       length (Members (fst (views ! l)) (polled (views ! l) (lc_runtimes c ! l))) = length envs \<and>
       (\<forall>i < length (lc_runtimes c). rt_isStopped (lc_runtimes c ! i) \<or>
          GetLeaderGRPCAddress (fst (views ! i)) (polled (views ! i) (lc_runtimes c ! i)) = lc_addrs c ! l)))"
proof (cases err)
  case (Some e)
  then show ?thesis
    using assms(1) startNodes_fails by (fastforce simp: StartLocalCluster_def Close_stops split: prod.splits option.splits)
next
  case None
  then have "waitForMembers polls c (length envs) = None"
    using assms(1) by (auto simp: StartLocalCluster_def split: prod.splits option.splits)
  then show ?thesis using waitForMembers_None agreedLeader_Some assms(2) None by blast
qed

end
