(* ===== verification/Commands.thy ===== *)
theory Commands
  imports App_Runtime Client_Locks
begin

text \<open>
  The programs that put the components together: \<open>cmd/clavis/main.go\<close>, which starts a node
  from its flags, and \<open>jepsen/holder/main.go\<close>, which holds one lock for a test harness. Log
  lines are not modelled; \<open>log.Fatal\<close> ends the program with its error.
\<close>

section \<open>Starting a node\<close>

record flags =
  fl_nodeID :: string
  fl_raftAddr :: string
  fl_raftAdvertiseAddr :: string
  fl_grpcAddr :: string
  fl_grpcAdvertiseAddr :: string
  fl_dataDir :: string
  fl_bootstrap :: bool
  fl_join :: string
  fl_removeNode :: string
  fl_clusterAddr :: string

text \<open>
  What the program meets: the network of a removal and of a join, the files of the identity,
  the construction of the node, the error of the gRPC server if it fails before a signal
  arrives, and how the shutdown goes.
\<close>

record 'u main_env =
  me_remove :: "string \<Rightarrow> nat \<Rightarrow> bool admin_net"
  me_id :: "'u id_env"
  me_start :: start_env
  me_listen :: "goerr option"
  me_join :: "Pb_ClusterMember \<Rightarrow> nat \<Rightarrow> (bool \<times> string) admin_net"
  me_serve :: "goerr option"
  me_drain :: "goerr option"
  me_down :: "goerr option"

datatype main_end = Fatal app_err | NodeRemoved | ShutdownComplete "goerr option"

definition mainConfig :: "flags \<Rightarrow> string \<Rightarrow> string \<Rightarrow> string \<Rightarrow> AppConfig" where
  "mainConfig fl nid raftAdv grpcAdv =
     \<lparr>App_NodeID = nid, App_RaftAddr = fl_raftAddr fl, App_RaftAdvertiseAddr = raftAdv, App_GRPCAddr = fl_grpcAddr fl,
      App_GRPCAdvertiseAddr = grpcAdv, App_DataDir = fl_dataDir fl, App_Bootstrap = fl_bootstrap fl\<rparr>"

text \<open>From a runtime that is up: the join, serving until a signal or a failure, and the shutdown.\<close>

definition runNode :: "'u main_env \<Rightarrow> flags \<Rightarrow> Runtime \<Rightarrow> main_end \<times> Runtime" where
  "runNode env fl runtime =
     (case (if fl_join fl \<noteq> '''' then JoinCluster (me_join env) (fl_join fl) (joinRequest (Runtime_Member runtime))
            else None) of
        Some err \<Rightarrow> (Fatal (CallErr (ClientWrapped ''failed to join cluster'' err)), runtime)
      | None \<Rightarrow>
          (case me_serve env of
             Some err \<Rightarrow> (Fatal (NodeErr (Wrapped ''runtime failed'' (Wrapped ''gRPC server failed'' err))), runtime)
           | None \<Rightarrow>
               (case Runtime_Stop (me_drain env) (me_down env) runtime of
                  (err, runtime') \<Rightarrow> (ShutdownComplete err, runtime'))))"

text \<open>How the program ends, the identity file it leaves, and its runtime, if it got that far.\<close>

definition clavis_main :: "'u uuid_lib \<Rightarrow> 'u main_env \<Rightarrow> 'e data_dir \<Rightarrow> string option \<Rightarrow> flags \<Rightarrow>
    main_end \<times> string option \<times> Runtime option" where
  "clavis_main U env d file fl =
     (if fl_bootstrap fl \<and> fl_join fl \<noteq> ''''
      then (Fatal (NodeErr (OtherError ''cannot use --bootstrap and --join together'')), file, None)
      else if fl_removeNode fl \<noteq> '''' then
        if fl_clusterAddr fl = ''''
        then (Fatal (NodeErr (OtherError ''--cluster-addr is required with --remove-node'')), file, None)
        else
          (case RemoveClusterNode (me_remove env) (fl_clusterAddr fl) (fl_removeNode fl) of
             Some err \<Rightarrow> (Fatal (CallErr (ClientWrapped ''failed to remove node'' err)), file, None)
           | None \<Rightarrow> (NodeRemoved, file, None))
      else
      case ResolveNodeID U (me_id env) d file (fl_dataDir fl) (fl_nodeID fl) of
        (Inl err, file') \<Rightarrow> (Fatal (NodeErr (Wrapped ''resolve node id'' err)), file', None)
      | (Inr (nid, generated), file') \<Rightarrow>
      case resolveAddrs (fl_raftAddr fl) (fl_raftAdvertiseAddr fl) (fl_grpcAddr fl) (fl_grpcAdvertiseAddr fl) of
        Inl err \<Rightarrow> (Fatal (NodeErr (Wrapped ''invalid advertise address'' err)), file', None)
      | Inr (raftAdv, grpcAdv) \<Rightarrow>
      case fst (NewRuntime (me_start env) (me_listen env) (me_down env) (mainConfig fl (uu_String U nid) raftAdv grpcAdv)) of
        Inl err \<Rightarrow> (Fatal (NodeErr (Wrapped ''failed to create runtime'' err)), file', None)
      | Inr runtime \<Rightarrow> (case runNode env fl runtime of (res, runtime') \<Rightarrow> (res, file', Some runtime')))"

section \<open>Holding a lock\<close>

record holder_flags =
  hf_seeds :: string
  hf_owner :: string
  hf_lock :: string
  hf_ttl :: duration
  hf_wait :: duration
  hf_probe :: bool

datatype holder_event =
    EventReady
  | EventBusy
  | EventAcquired uint64
  | EventValid
  | EventLost
  | EventReleased
  | EventError string client_err

text \<open>
  The client runs its heartbeat loop in the background: \<open>hbTo\<close> is the client after the loop
  has met \<open>events\<close>. Loop and calls are interleaved between calls.
\<close>

definition hbTo :: "hb_event list \<Rightarrow> hb_loop \<times> Client \<Rightarrow> hb_loop \<times> Client" where
  "hbTo events lc =
     (case lc of (l, c) \<Rightarrow>
        (let l' = foldl hbStep (l\<lparr>hl_resolver := c_resolver c\<rparr>) events
         in (l', c\<lparr>c_session := hl_session l', c_resolver := hl_resolver l'\<rparr>)))"

text \<open>A line of the harness, with what the loop met before it, and the network of a release.\<close>

record holder_line =
  hn_text :: string
  hn_meanwhile :: "hb_event list"
  hn_call :: call_env
  hn_release :: "string \<Rightarrow> uint64 \<Rightarrow> nat \<Rightarrow> nat \<Rightarrow> bool net"

fun holderLines :: "ClientLock \<Rightarrow> hb_loop \<times> Client \<Rightarrow> holder_line list \<Rightarrow> holder_event list option" where
  "holderLines l lc [] = Some []"
| "holderLines l lc (line # rest) =
     (case hbTo (hn_meanwhile line) lc of (loop, c) \<Rightarrow>
        if hn_text line = ''check'' then
          map_option ((#) (if Client_Done c then EventLost else EventValid)) (holderLines l (loop, c) rest)
        else if hn_text line = ''release'' then
          (case Lock_Release (hn_call line) (hn_release line) c l of
             None \<Rightarrow> None
           | Some (Some err, c') \<Rightarrow> Some [EventError ''release'' err]
           | Some (None, c') \<Rightarrow> Some [EventReleased])
        else holderLines l (loop, c) rest)"

text \<open>The environment of one run: its start, its acquisition or its wait, and the lines.\<close>

record holder_env =
  he_start :: start_net
  he_started :: time
  he_before :: "hb_event list"
  he_call :: call_env
  he_acquire :: acquire_net
  he_asks :: "ask list"
  he_lines :: "holder_line list"

text \<open>\<open>context.DeadlineExceeded\<close>\<close>

definition ctxDeadlineExceeded :: client_err where
  "ctxDeadlineExceeded = CtxErr ''context deadline exceeded''"

definition holder_main :: "holder_env \<Rightarrow> holder_flags \<Rightarrow> holder_event list option" where
  "holder_main env fl =
     (case NewClientWithSeeds (splitComma (hf_seeds fl)) (hf_owner fl) of
        Inl err \<Rightarrow> Some [EventError ''setup'' err]
      | Inr c0 \<Rightarrow>
      case Client_Start (he_start env) c0 (hf_ttl fl) of
        None \<Rightarrow> None
      | Some (Some err, c1, _) \<Rightarrow> Some [EventError ''lease'' err]
      | Some (None, c1, None) \<Rightarrow> None
      | Some (None, c1, Some confirmedAt) \<Rightarrow>
      if hf_probe fl then Some [EventReady]
      else
      case hbTo (he_before env) (loop_start (c_session c1) (c_resolver c1) confirmedAt (he_started env), c1) of
        (loop, c) \<Rightarrow>
      case (if 0 < sint (hf_wait fl) then WaitAcquire (he_asks env) c (hf_lock fl)
            else Client_Acquire (he_call env) (he_acquire env) c (hf_lock fl)) of
        None \<Rightarrow> None
      | Some (Inl err, c') \<Rightarrow>
          if client_Is err ErrLockHeld \<or> (0 < sint (hf_wait fl) \<and> client_Is err ctxDeadlineExceeded) then Some [EventBusy]
          else Some [EventError ''acquire'' err]
      | Some (Inr l, c') \<Rightarrow> map_option ((#) (EventAcquired (Token l))) (holderLines l (loop, c') (he_lines env)))"

section \<open>A node that starts\<close>

lemma NewRuntime_member:
  assumes "fst (NewRuntime env listen down cfg) = Inr rt" and "App_RaftAdvertiseAddr cfg \<noteq> []" and "App_GRPCAdvertiseAddr cfg \<noteq> []"
  shows "Runtime_Member rt = \<lparr>Member_NodeID = App_NodeID cfg, Member_RaftAddress = App_RaftAdvertiseAddr cfg,
      Member_GRPCAddress = App_GRPCAdvertiseAddr cfg\<rparr> \<and>
    node_fsm (rt_node rt) = NewFSM \<and> rt_grpcOpen rt \<and> \<not> rt_isStopped rt \<and> \<not> rs_stopped (rt_run rt)"
  using assms
  by (auto simp: NewRuntime_def NewNode_def nodeConfig_def withDefaults_def Runtime_Member_def SelfMember_def Let_def
      split: option.splits sum.splits if_splits)

lemma runNode_stops:
  assumes "runNode env fl rt = (ShutdownComplete err, rt')" and "\<not> rt_isStopped rt" and "\<not> rs_stopped (rt_run rt)"
  shows "\<not> rt_grpcOpen rt' \<and> rs_stopped (rt_run rt') \<and>
    (fl_join fl \<noteq> [] \<longrightarrow> JoinCluster (me_join env) (fl_join fl) (joinRequest (Runtime_Member rt)) = None)"
proof -
  have "Runtime_Stop (me_drain env) (me_down env) rt = (err, rt')"
      "fl_join fl \<noteq> [] \<longrightarrow> JoinCluster (me_join env) (fl_join fl) (joinRequest (Runtime_Member rt)) = None"
    using assms(1) by (auto simp: runNode_def split: option.splits if_splits prod.splits)
  then show ?thesis using stops_once [of err rt' "me_drain env" "me_down env" rt] assms(2,3) by simp
qed

lemma runNode_node: "runNode env fl rt = (res, rt') \<Longrightarrow> rt_node rt' = rt_node rt \<and> Runtime_Member rt' = Runtime_Member rt"
  by (auto simp: Runtime_Member_def runNode_def Runtime_Stop_def Let_def split: option.splits if_splits prod.splits)

lemma advertises_nonempty: "advertises adv bind explicit fallback \<Longrightarrow> adv \<noteq> []"
  by (auto simp: advertises_def SplitHostPort_def addrErr_def)


definition demo_main :: "nat main_env" where
  "demo_main = \<lparr>me_remove = (\<lambda>id k. \<lparr>an_ctx = None, an_conn = None, an_op = (\<lambda>target. Inr True), an_wait = None\<rparr>),
     me_id = demo_id_env,
     me_start = \<lparr>se_mkdir = None, se_storage = None, se_resolve = None, se_transport = None, se_raft = None, se_hasState = Inr False\<rparr>,
     me_listen = None,
     me_join = (\<lambda>m k. \<lparr>an_ctx = None, an_conn = None, an_op = (\<lambda>target. Inr (True, target)), an_wait = None\<rparr>),
     me_serve = None, me_drain = None, me_down = None\<rparr>"

definition demo_flags :: flags where
  "demo_flags = \<lparr>fl_nodeID = [], fl_raftAddr = ''10.0.0.5:7000'', fl_raftAdvertiseAddr = [], fl_grpcAddr = '':9000'',
     fl_grpcAdvertiseAddr = [], fl_dataDir = ''/d'', fl_bootstrap = False, fl_join = ''10.0.0.4:9000'', fl_removeNode = [],
     fl_clusterAddr = []\<rparr>"

lemma demo_main_run:
  "\<exists>rt. clavis_main demo_uuid demo_main (demo_dir\<lparr>dd_bolt := None\<rparr>) None demo_flags =
     (ShutdownComplete None, Some ''aaaa\<newline>'', Some rt)"
proof -
  have id: "ResolveNodeID demo_uuid demo_id_env (demo_dir\<lparr>dd_bolt := None\<rparr>) None ''/d'' [] = (Inr (3, True), Some ''aaaa\<newline>'')"
    by (simp add: ResolveNodeID_def readNodeID_def persistNodeID_def HasRaftData_def demo_id_env_def demo_uuid_def
        demo_dir_def numeral_3_eq_3)
  have "\<exists>rt. fst (NewRuntime (me_start demo_main) None None cfg) = Inr rt \<and> \<not> rt_isStopped rt \<and> \<not> rs_stopped (rt_run rt)" for cfg
    by (auto simp: NewRuntime_def NewNode_def demo_main_def Let_def)
  then obtain rt where rt: "fst (NewRuntime (me_start demo_main) None None
        (mainConfig demo_flags (uu_String demo_uuid 3) ''10.0.0.5:7000'' ''10.0.0.5:9000'')) = Inr rt"
      "\<not> rt_isStopped rt" "\<not> rs_stopped (rt_run rt)" by blast
  have "\<exists>rt'. runNode demo_main demo_flags rt = (ShutdownComplete None, rt')"
    using rt(2,3)
    by (simp add: runNode_def demo_main_def demo_flags_def JoinCluster_def callLeader_def numeral_eq_Suc Runtime_Stop_def
        Shutdown_def Let_def)
  then show ?thesis
    using rt(1) by (auto simp: clavis_main_def id demo_addrs demo_flags_def demo_main_def)
qed


end
