(* ===== verification/Lock_Grants.thy ===== *)
theory Lock_Grants
  imports Grpc_Server FSM_Operations
begin

text \<open>
  What an answer of the service stands for. Responses have the type of their command, so the
  type assertions of \<open>internal/service/service.go\<close> never fail; and behind a granted
  acquisition, waiting or not, through the gRPC handler, is a lock in the replicated state.
\<close>

section \<open>Responses have the type of their command\<close>

fun answers :: "command \<Rightarrow> response \<Rightarrow> bool" where
  "answers (CreateLease owner ttl created) r \<longleftrightarrow> (\<exists>x. r = RespCreateLease x)"
| "answers (AcquireLock name owner i) r \<longleftrightarrow> (\<exists>x. r = RespAcquireLock x)"
| "answers (ExpireLease i) r \<longleftrightarrow> (\<exists>x. r = RespExpireLease x)"
| "answers _ r \<longleftrightarrow> r = NilResponse"

lemma spec_answers: "spec_apply s cmd = (Inr r, s', fr) \<Longrightarrow> answers cmd r"
  by (cases cmd) (auto split: option.splits if_splits)

lemma Node_Apply_success:
  assumes "codec_ok c" and "Node_Apply c future n cmd = Ret (Inr r, n')"
  obtains freed where "Apply (node_fsm n) (Some cmd) = Ret (Inr r, node_fsm n', freed)"
proof -
  obtain d where d: "cd_marshal c cmd = Inr d" "future = ApplyDone" "applyEntry c n d = Ret (AnyResponse r, n')"
    using assms(2)
    by (auto simp: Node_Apply_def split: sum.splits apply_future.splits go.splits any_value.splits if_splits)
  have "cd_unmarshal c d = Inr cmd" using assms(1) d(1) by (simp add: codec_ok_def)
  with d(3) show ?thesis by (auto elim!: applyEntry_cases intro: that split: sum.splits)
qed

lemma Node_Apply_answers:
  assumes "codec_ok c" and "fsm_inv (node_fsm n)" and "Node_Apply c future n cmd = Ret (Inr r, n')"
  shows "answers (command_of (Some cmd)) r"
proof -
  obtain freed where "Apply (node_fsm n) (Some cmd) = Ret (Inr r, node_fsm n', freed)"
    by (rule Node_Apply_success [OF assms(1,3)])
  then show ?thesis using spec_answers Apply_spec(1) [OF assms(2)] by blast
qed

lemma command_of_new [simp]:
  "command_of (Some (NewCreateLeaseCmd ow ttl now)) = CreateLease ow (sint ttl) (sint (unix_nano now))"
  "command_of (Some (NewAcquireLockCmd name ow i)) = AcquireLock name ow i"
  "command_of (Some (NewReleaseLockCmd name i)) = ReleaseLock name i"
  by (simp_all add: command_of_def command_type_defs)

text \<open>
  C11: Responses have the type of their command. Whatever is proposed, a successful answer of the
  state machine is a value of the type its command calls for; hence the type assertion of
  the service never fails: the answer to a proposal of a lease or of an acquisition passes
  \<open>as\<close> unchanged, and an operation of the service cannot end with an unexpected type.
\<close>

theorem responses_typed:
  assumes "codec_ok c" and "fsm_inv (node_fsm n)"
  shows "(\<forall>r n'. Node_Apply c future n cmd = Ret (Inr r, n') \<longrightarrow> answers (command_of (Some cmd)) r) \<and>
    (\<forall>r n'. Node_Apply c future n (NewCreateLeaseCmd ow ttl now) = Ret (Inr r, n') \<longrightarrow>
       (\<exists>x. r = RespCreateLease x \<and> as_typed isCreateLeaseResponse (Inr r) = Inr x)) \<and>
    (\<forall>r n'. Node_Apply c future n (NewAcquireLockCmd name ow i) = Ret (Inr r, n') \<longrightarrow>
       (\<exists>x. r = RespAcquireLock x \<and> as_typed isAcquireLockResponse (Inr r) = Inr x))"
  using Node_Apply_answers [OF assms] by (fastforce simp: as_typed_def)

theorem responses_typed_witness:
  "\<exists>r n' x. Node_Apply demo_codec ApplyDone demo_node (NewAcquireLockCmd ''x'' ''a'' 1) = Ret (Inr r, n') \<and>
     r = RespAcquireLock x \<and> as_typed isAcquireLockResponse (Inr r) = Inr x"
proof -
  have ok: "codec_ok demo_codec" "fsm_inv (node_fsm demo_node)"
    using demo_codec_ok demo_fsm_inv by (simp_all add: demo_node_def)
  have "\<exists>r n'. Node_Apply demo_codec ApplyDone demo_node (NewAcquireLockCmd ''x'' ''a'' 1) = Ret (Inr r, n')"
    by (simp add: Node_Apply_def demo_codec_def applyEntry_def RaftFSM_Apply_def demo_node_def demo_fsm_def demo_lease_def
        fsm_eval)
  with responses_typed [OF ok] show ?thesis by blast
qed

section \<open>A granted lock is held\<close>

text \<open>The lock is in the replicated state under this lease, and the answer carries its token.\<close>

definition granted_to :: "Node \<Rightarrow> string \<Rightarrow> string \<Rightarrow> uint64 \<Rightarrow> uint64 \<Rightarrow> bool" where
  "granted_to n name owner i token \<longleftrightarrow>
     (\<exists>k. lock_at (node_fsm n) name = Some k \<and> Lock_LeaseID k = i \<and> Lock_OwnerID k = owner \<and> Lock_FencingToken k = token)"

lemma Apply_acquire_grants:
  assumes inv: "fsm_inv f" and "Apply f (Some (NewAcquireLockCmd name owner i)) = Ret (Inr (RespAcquireLock resp), f', freed)"
  shows "\<exists>k. lock_at f' name = Some k \<and> Lock_LeaseID k = i \<and> Lock_OwnerID k = owner \<and>
    Lock_FencingToken k = AcquireResp_FencingToken resp"
proof -
  have "spec_apply (abs_fsm f) (AcquireLock name owner i) = (Inr (RespAcquireLock resp), abs_fsm f', set freed)"
    using Apply_spec(1) [OF assms] by simp
  then have "lock_at f' = sp_locks (fst (snd (spec_apply (abs_fsm f) (AcquireLock name owner i))))"
      "Inr (RespAcquireLock resp) = fst (spec_apply (abs_fsm f) (AcquireLock name owner i))" by simp_all
  moreover have "Lock_OwnerID k = Lease_OwnerID l" if "lock_at f name = Some k" "lease_at f (Lock_LeaseID k) = Some l" for k l
    using fsm_inv_lockD [OF inv that(1)] that(2) by (auto simp: lock_ok_def)
  ultimately show ?thesis by (auto split: option.splits if_splits)
qed

lemma acquire_grants:
  assumes "codec_ok c" and "fsm_inv (node_fsm n)" and "acquire c env n name owner i = Ret (Inr resp, n')"
  shows "granted_to n' name owner i (AcquireResp_FencingToken resp)"
proof -
  obtain n1 where check: "CheckLeaseAlive (rv_term (sv_view env)) (sv_now env) n i = Ret (None, n1)"
    using assms(3) by (auto simp: acquire_def split: go.splits option.splits)
  then have n1: "fsm_inv (node_fsm n1)" using CheckLeaseAlive_queues [OF check] assms(2) by simp
  obtain r where r: "Node_Apply c (sv_future env) n1 (NewAcquireLockCmd name owner i) = Ret (Inr r, n')"
      "as_typed isAcquireLockResponse (Inr r) = Inr resp"
    using assms(3) check by (auto simp: acquire_def as_typed_def split: go.splits prod.splits sum.splits)
  then have "r = RespAcquireLock resp"
    by (cases r) (auto simp: as_typed_def)
  then show ?thesis
    using Node_Apply_success [OF assms(1) r(1)] Apply_acquire_grants [OF n1] unfolding granted_to_def by metis
qed

text \<open>An attempt that finds the lock held leaves the state machine as it was.\<close>

lemma acquire_held_keeps:
  assumes "codec_ok c" and "acquire c env n name owner i = Ret (Inl err, n')" and "errors_Is err ErrLockAlreadyHeld"
  shows "node_fsm n' = node_fsm n"
proof -
  obtain e n1 where check: "CheckLeaseAlive (rv_term (sv_view env)) (sv_now env) n i = Ret (e, n1)" "node_fsm n1 = node_fsm n"
    using assms(2) CheckLeaseAlive_queues by (fastforce simp: acquire_def split: go.splits)
  show ?thesis
  proof (cases e)
    case (Some e')
    then show ?thesis using assms(2) check by (simp add: acquire_def)
  next
    case None
    obtain r where r: "Node_Apply c (sv_future env) n1 (NewAcquireLockCmd name owner i) = Ret (r, n')"
        "as_typed isAcquireLockResponse r = Inl err"
      using assms(2) check None by (auto simp: acquire_def split: go.splits prod.splits)
    have "r = Inl err" using r(2) assms(3) by (auto simp: as_typed_def errors_Is_def split: sum.splits option.splits)
    show ?thesis
    proof (cases "cd_marshal c (NewAcquireLockCmd name owner i)")
      case (Inl m)
      then show ?thesis using r(1) check(2) by (simp add: Node_Apply_def)
    next
      case (Inr d)
      then have dec: "cd_unmarshal c d = Inr (NewAcquireLockCmd name owner i)" using assms(1) by (simp add: codec_ok_def)
      have "sv_future env = ApplyDone" "applyEntry c n1 d = Ret (AnyError err, n')"
        using r(1) \<open>r = Inl err\<close> Inr assms(3)
        by (auto simp: Node_Apply_def errors_Is_def split: apply_future.splits go.splits any_value.splits if_splits)
      then show ?thesis
        using dec check(2) Apply_error_keeps by (auto elim!: applyEntry_cases split: sum.splits)
    qed
  qed
qed

text \<open>The rest of the node keeps the replicated state consistent while a caller waits.\<close>

definition keeps_state :: "wait_round \<Rightarrow> bool" where
  "keeps_state r \<longleftrightarrow> (\<forall>n. fsm_inv (node_fsm n) \<longrightarrow>
     fsm_inv (node_fsm (wr_before r n)) \<and> fsm_inv (node_fsm (wr_meanwhile r n)))"

lemma selectStep_state:
  assumes "keeps_state r" and "fsm_inv (node_fsm n)"
  shows "case selectStep w r n of Again n' \<Rightarrow> fsm_inv (node_fsm n') | Return res n' \<Rightarrow> \<not> isl res \<longrightarrow> False | Blocked \<Rightarrow> True"
  using assms by (auto simp: selectStep_def keeps_state_def Let_def split: select_case.splits option.splits)

lemma waitRound_grants:
  assumes "codec_ok c" and r: "keeps_state r" and inv: "fsm_inv (node_fsm n)" and x: "waitRound c w name owner i r n = Ret x"
  shows "case x of Again n' \<Rightarrow> fsm_inv (node_fsm n')
    | Return res n' \<Rightarrow> (\<forall>resp. res = Inr resp \<longrightarrow> granted_to n' name owner i (AcquireResp_FencingToken resp)) | Blocked \<Rightarrow> True"
proof -
  let ?n = "wr_before r n"
  have inv': "fsm_inv (node_fsm ?n)" using r inv by (simp add: keeps_state_def)
  have sel: "case selectStep w r m of Again n' \<Rightarrow> fsm_inv (node_fsm n')
      | Return res n' \<Rightarrow> (\<forall>resp. res = Inr resp \<longrightarrow> granted_to n' name owner i (AcquireResp_FencingToken resp)) | Blocked \<Rightarrow> True"
    if "fsm_inv (node_fsm m)" for m
    using selectStep_state [OF r that, of w] by (auto split: loop_step.splits)
  obtain b where b: "mayTry ?n w name i = Ret b" using x by (auto simp: waitRound_def Let_def split: go.splits)
  show ?thesis
  proof (cases b)
    case False
    then show ?thesis using x b sel [OF inv'] by (auto simp: waitRound_def Let_def)
  next
    case True
    then obtain res n2 where a: "acquire c (wr_env r) ?n name owner i = Ret (res, n2)"
      using x b by (auto simp: waitRound_def Let_def split: go.splits)
    show ?thesis
    proof (cases res)
      case (Inr resp)
      then show ?thesis using x b True a acquire_grants [OF assms(1) inv'] by (auto simp: waitRound_def Let_def)
    next
      case (Inl err)
      then show ?thesis
        using x b True a sel [of n2] acquire_held_keeps [OF assms(1), of "wr_env r" ?n name owner i err n2] inv'
        by (auto simp: waitRound_def Let_def split: if_splits)
    qed
  qed
qed

lemma waitLoop_grants:
  "codec_ok c \<Longrightarrow> list_all keeps_state rounds \<Longrightarrow> fsm_inv (node_fsm n) \<Longrightarrow>
     waitLoop c w name owner i rounds n = Ret (Some (Inr resp, n')) \<Longrightarrow>
     granted_to n' name owner i (AcquireResp_FencingToken resp)"
proof (induction rounds arbitrary: n)
  case (Cons r rs)
  obtain x where x: "waitRound c w name owner i r n = Ret x"
    using Cons.prems(4) by (auto split: go.splits)
  from waitRound_grants [OF Cons.prems(1) _ Cons.prems(3) x] Cons.prems x Cons.IH show ?case
    by (cases x) (auto simp: granted_to_def)
qed simp

lemma Server_AcquireLock_grants:
  assumes "codec_ok c" and "list_all keeps_state rounds" and "fsm_inv (node_fsm n)"
    and "Server_AcquireLock tp c env rounds n name owner i wait = Ret (Some (Inr resp, n'))"
  shows "IsLeader (sv_view env) \<and> granted_to n' name owner i (PbAcquire_FencingToken resp)"
proof -
  obtain r where r: "Service_AcquireLock c env rounds n name owner i wait = Ret (Some (Inr r, n'))"
      "PbAcquire_FencingToken resp = AcquireResp_FencingToken r"
    using assms(4) by (auto simp: Server_AcquireLock_def split: go.splits option.splits sum.splits)
  have lead: "IsLeader (sv_view env)" "owner \<noteq> []" "name \<noteq> []"
    using r(1) by (auto simp: Service_AcquireLock_def ensureLeader_def split: if_splits)
  show ?thesis
  proof (cases wait)
    case False
    then have "acquire c env n name owner i = Ret (Inr r, n')"
      using r(1) lead by (auto simp: Service_AcquireLock_def ensureLeader_def split: go.splits bool.splits)
    then show ?thesis using acquire_grants [OF assms(1,3)] lead(1) r(2) by simp
  next
    case True
    then obtain w q where loop: "waitLoop c w name owner i rounds (n\<lparr>node_lockQueues := q\<rparr>) = Ret (Some (Inr r, n'))"
      using r(1) lead by (auto simp: Service_AcquireLock_def ensureLeader_def split: prod.splits)
    from waitLoop_grants [OF assms(1,2) _ loop] show ?thesis using assms(3) lead(1) r(2) by simp
  qed
qed

section \<open>A lease has one owner\<close>

text \<open>Once a lease is there, its identifier stands for it or for nothing, for good.\<close>

definition only_lease :: "uint64 \<Rightarrow> Lease \<Rightarrow> FSM \<Rightarrow> bool" where
  "only_lease i l f \<longleftrightarrow> lease_at f i \<in> {None, Some l} \<and> unat i < unat (nextLeaseID f)"

lemma only_lease_now: "fsm_inv f \<Longrightarrow> lease_at f i = Some l \<Longrightarrow> only_lease i l f"
  using fsm_inv_leaseD [of f i l] by (simp add: only_lease_def lease_ok_def)

lemma spec_leases:
  "spec_apply s c = (r, s', fr) \<Longrightarrow> i \<noteq> sp_next s \<Longrightarrow> sp_leases s' i \<in> {None, sp_leases s i}"
  by (cases c) (auto split: option.splits if_splits)

lemma only_lease_step:
  assumes "log_ok f (Suc k)" and "Apply f c = Ret (r, f', freed)" and "only_lease i l f"
  shows "only_lease i l f'"
proof -
  have inv: "fsm_inv f" and b: "unat (fencingCounter f) + 1 < 2 ^ 64" "unat (nextLeaseID f) + 1 < 2 ^ 64"
    using assms(1) by (simp_all add: log_ok_def)
  have "i \<noteq> nextLeaseID f" using assms(3) by (auto simp: only_lease_def)
  then have "lease_at f' i \<in> {None, lease_at f i}"
    using spec_leases [OF Apply_spec(1) [OF inv assms(2)], of i] by simp
  moreover have "unat (nextLeaseID f) \<le> unat (nextLeaseID f')"
    using Apply_inv [OF inv b assms(2)] unat_Suc64 [OF b(2)] by auto
  ultimately show ?thesis using assms(3) by (auto simp: only_lease_def)
qed

lemma Apply_acquire_lease:
  assumes "fsm_inv f" and "command_of c = AcquireLock n ow i" and "Apply f c = Ret (Inr r, f', freed)"
  shows "\<exists>l. lease_at f i = Some l \<and> lease_at f' i = Some l \<and> Lease_OwnerID l = ow"
proof -
  have "spec_apply (abs_fsm f) (AcquireLock n ow i) = (Inr r, abs_fsm f', set freed)"
    using Apply_spec(1) [OF assms(1,3)] assms(2) by simp
  then have "lease_at f' = sp_leases (fst (snd (spec_apply (abs_fsm f) (AcquireLock n ow i))))"
      "Inr r = fst (spec_apply (abs_fsm f) (AcquireLock n ow i))" by simp_all
  then show ?thesis by (auto split: option.splits if_splits)
qed

text \<open>Two acquisitions of a log under the same lease have the same owner.\<close>

lemma lease_owner_fixed:
  assumes "length cmds < 2 ^ 64 - 1" and "ApplyAll NewFSM cmds = Ret (f, rs)" and "i < j" and "j < length cmds"
    and "command_of (Some (cmds ! i)) = AcquireLock n1 o1 l" and "rs ! i = Inr r1"
    and "command_of (Some (cmds ! j)) = AcquireLock n2 o2 l" and "rs ! j = Inr r2"
  shows "o1 = o2"
proof -
  obtain fi fi' fj fj' fr fr' mid where h: "fsm_inv fi" "fsm_inv fi'" "fsm_inv fj"
    "Apply fi (Some (cmds ! i)) = Ret (rs ! i, fi', fr)"
    "ApplyAll fi' (drop (Suc i) (take j cmds)) = Ret (fj, mid)"
    "Apply fj (Some (cmds ! j)) = Ret (rs ! j, fj', fr')"
    "log_ok fi' (length (drop (Suc i) (take j cmds)) + 1)" "log_ok fj 1"
    by (rule history_two [OF log_ok_NewFSM [OF assms(1)] assms(2-4)])
  obtain x where x: "lease_at fi' l = Some x" "Lease_OwnerID x = o1"
    using Apply_acquire_lease [OF h(1) assms(5)] h(4) assms(6) by auto
  have "only_lease l x fj"
    by (rule ApplyAll_keeps [where P = "only_lease l x", OF h(7,5) only_lease_now [OF h(2) x(1)]])
      (auto intro: only_lease_step)
  moreover obtain y where "lease_at fj l = Some y" "Lease_OwnerID y = o2"
    using Apply_acquire_lease [OF h(3) assms(7)] h(6) assms(8) by auto
  ultimately show ?thesis using x(2) by (auto simp: only_lease_def)
qed

text \<open>Grants of one lock in a log, in order: an equal token means the same lease and owner, a later owner a larger token.\<close>

definition grant_at :: "CommandWrapper list \<Rightarrow> (goerr + response) list \<Rightarrow> string \<Rightarrow> string \<Rightarrow> uint64 \<Rightarrow> nat \<Rightarrow> bool" where
  "grant_at cmds rs name owner token i \<longleftrightarrow> i < length cmds \<and>
     (\<exists>l r. command_of (Some (cmds ! i)) = AcquireLock name owner l \<and> rs ! i = Inr (RespAcquireLock r) \<and>
        AcquireResp_FencingToken r = token)"

lemma grants_ordered:
  assumes "length cmds < 2 ^ 64 - 1" and "ApplyAll NewFSM cmds = Ret (f, rs)"
    and "grant_at cmds rs name o1 t1 i" and "grant_at cmds rs name o2 t2 j" and "i < j" and "o1 \<noteq> o2"
  shows "t1 < t2"
proof -
  obtain l1 r1 l2 r2 where g: "j < length cmds"
      "command_of (Some (cmds ! i)) = AcquireLock name o1 l1" "rs ! i = Inr (RespAcquireLock r1)" "AcquireResp_FencingToken r1 = t1"
      "command_of (Some (cmds ! j)) = AcquireLock name o2 l2" "rs ! j = Inr (RespAcquireLock r2)" "AcquireResp_FencingToken r2 = t2"
    using assms(3,4) by (auto simp: grant_at_def)
  have "l1 \<noteq> l2"
    using lease_owner_fixed [OF assms(1,2,5) g(1,2,3) _ g(6)] g(5) assms(6) by auto
  then show ?thesis
    using tokens_grow [OF assms(1,2,5) g(1,2,3,5,6)] g(4,7) by (simp add: word_less_nat_alt)
qed

lemma token_owner:
  assumes "length cmds < 2 ^ 64 - 1" and "ApplyAll NewFSM cmds = Ret (f, rs)"
    and "grant_at cmds rs name o1 t i" and "grant_at cmds rs name o2 t j"
  shows "o1 = o2"
proof (rule ccontr)
  assume ne: "o1 \<noteq> o2"
  have "i \<noteq> j" using assms(3,4) ne by (auto simp: grant_at_def)
  then consider "i < j" | "j < i" by linarith
  then show False
    using grants_ordered [OF assms(1,2,3,4) _ ne] grants_ordered [OF assms(1,2,4,3) _ ne [symmetric]] by cases auto
qed

end
