(* ===== verification/Example_Programs.thy ===== *)
theory Example_Programs
  imports Fenced_Stores Commands Lock_Grants
begin

text \<open>
  The programs of \<open>examples\<close>: \<open>fencing.go\<close>, where a stalled worker is fenced off, and
  \<open>failover.go\<close>, where replicas of a controller take over from one another. Sleeping and the
  network are their environment; what they print is their result.
\<close>

section \<open>The fencing example\<close>

record worker_env =
  wk_start :: start_net
  wk_started :: time
  wk_before :: "hb_event list"
  wk_call :: call_env
  wk_acquire :: acquire_net
  wk_asks :: "ask list"
  wk_close :: "conn \<Rightarrow> client_err option"

text \<open>A session of a program: the client with its heartbeat loop, or with the error of \<open>Start\<close>.\<close>

definition startSession :: "start_net \<Rightarrow> time \<Rightarrow> Client \<Rightarrow> duration \<Rightarrow> ((client_err + hb_loop) \<times> Client) option" where
  "startSession net started c ttl =
     (case Client_Start net c ttl of
        Some (None, c', Some confirmedAt) \<Rightarrow>
          Some (Inr (loop_start (c_session c') (c_resolver c') confirmedAt started), c')
      | Some (Some err, c', _) \<Rightarrow> Some (Inl err, c')
      | _ \<Rightarrow> None)"

definition startWorker :: "worker_env \<Rightarrow> string list \<Rightarrow> string \<Rightarrow> (client_err + hb_loop \<times> Client) option" where
  "startWorker env seeds name =
     (case NewClientWithSeeds seeds name of
        Inl err \<Rightarrow> Some (Inl err)
      | Inr c \<Rightarrow>
          (case startSession (wk_start env) (wk_started env) c (2 * second) of
             None \<Rightarrow> None
           | Some (Inl err, _) \<Rightarrow> Some (Inl err)
           | Some (Inr loop, c') \<Rightarrow> Some (Inr (loop, c'))))"

record fencing_env =
  fe_temp :: "goerr option"
  fe_dir :: string
  fe_nodes :: "node_env \<times> node_env \<times> node_env"
  fe_polls :: "poll list list"
  fe_down :: "nat \<Rightarrow> goerr option"
  fe_a :: worker_env
  fe_b :: worker_env

datatype fencing_end = FencingFatal app_err | FencingDone "row_said list" accountRow Client LocalCluster

definition newRow :: accountRow where
  "newRow = \<lparr>row_balance = 0, row_token = 0, row_writer = ''''\<rparr>"

definition fencingLock :: string where
  "fencingLock = ''accounts/42''"

text \<open>
  From worker A's acquisition on: the three writes, with A stopped and B's wait between them,
  then the deferred calls that stop B and close the cluster.
\<close>

definition fencingWrites :: "fencing_env \<Rightarrow> LocalCluster \<Rightarrow> ClientLock \<Rightarrow> Client \<Rightarrow> fencing_end option" where
  "fencingWrites env cluster lockA a =
     (case accountRow_write newRow ''worker-a'' (Token lockA) 100 of (said1, db1) \<Rightarrow>
      case Client_Stop (wk_close (fe_a env)) a of
        (Some err, _) \<Rightarrow> Some (FencingFatal (CallErr err))
      | (None, _) \<Rightarrow>
      case startWorker (fe_b env) (Addrs cluster) ''worker-b'' of
        None \<Rightarrow> None
      | Some (Inl err) \<Rightarrow> Some (FencingFatal (CallErr err))
      | Some (Inr lc) \<Rightarrow>
      case WaitAcquire (wk_asks (fe_b env)) (snd (hbTo (wk_before (fe_b env)) lc)) fencingLock of
        None \<Rightarrow> None
      | Some (Inl err, _) \<Rightarrow> Some (FencingFatal (CallErr err))
      | Some (Inr lockB, b) \<Rightarrow>
      case accountRow_write db1 ''worker-b'' (Token lockB) 250 of (said2, db2) \<Rightarrow>
      case accountRow_write db2 ''worker-a'' (Token lockA) 90 of (said3, db3) \<Rightarrow>
        Some (FencingDone [said1, said2, said3] db3 (fst (snd (Client_Stop (wk_close (fe_b env)) b)))
          (LocalCluster_Close (fe_down env) cluster)))"

definition fencing_main :: "fencing_env \<Rightarrow> fencing_end option" where
  "fencing_main env =
     (case fe_temp env of
        Some err \<Rightarrow> Some (FencingFatal (NodeErr err))
      | None \<Rightarrow>
      case fe_nodes env of (n1, n2, n3) \<Rightarrow>
      case StartLocalCluster (fe_down env) (fe_dir env) [n1, n2, n3] (fe_polls env) of
        (Some err, _) \<Rightarrow> Some (FencingFatal err)
      | (None, cluster) \<Rightarrow>
      case startWorker (fe_a env) (Addrs cluster) ''worker-a'' of
        None \<Rightarrow> None
      | Some (Inl err) \<Rightarrow> Some (FencingFatal (CallErr err))
      | Some (Inr lc) \<Rightarrow>
      case Client_Acquire (wk_call (fe_a env)) (wk_acquire (fe_a env)) (snd (hbTo (wk_before (fe_a env)) lc)) fencingLock of
        None \<Rightarrow> None
      | Some (Inl err, _) \<Rightarrow> Some (FencingFatal (CallErr err))
      | Some (Inr lockA, a) \<Rightarrow> fencingWrites env cluster lockA a)"

section \<open>The failover example: a replica\<close>

record replica =
  rep_name :: string
  rep_crashed :: bool
  rep_cancelled :: bool

definition startReplica :: "string \<Rightarrow> replica" where
  "startReplica name = \<lparr>rep_name = name, rep_crashed = False, rep_cancelled = False\<rparr>"

definition crash :: "replica \<Rightarrow> replica" where
  "crash r = r\<lparr>rep_crashed := True, rep_cancelled := True\<rparr>"

definition shutdown :: "replica \<Rightarrow> replica" where
  "shutdown r = r\<lparr>rep_cancelled := True\<rparr>"

text \<open>
  One pass of \<open>run\<close>: the session and the wait, what the loop of \<open>lead\<close> meets, the replica as
  \<open>isCrashed\<close> finds it afterwards, and the release.
\<close>

record replica_pass =
  rp_start :: start_net
  rp_started :: time
  rp_before :: "hb_event list"
  rp_asks :: "ask list"
  rp_lead :: "lead_event list"
  rp_after :: "hb_event list"
  rp_crashed :: bool
  rp_call :: call_env
  rp_release :: "string \<Rightarrow> uint64 \<Rightarrow> nat \<Rightarrow> nat \<Rightarrow> bool net"
  rp_close :: "conn \<Rightarrow> client_err option"

datatype replica_act =
    ReplicaFatal client_err
  | NotStarted Client
  | NotAcquired Client
  | LedWith uint64 lead_end bool Client

definition failoverLock :: string where
  "failoverLock = ''controllers/billing''"

definition stopped :: "replica_pass \<Rightarrow> Client \<Rightarrow> Client" where
  "stopped p c = fst (snd (Client_Stop (rp_close p) c))"

definition acted :: "replica_act \<Rightarrow> (replica_act list \<times> controllerTable) option \<Rightarrow> (replica_act list \<times> controllerTable) option" where
  "acted act rest = map_option (\<lambda>(acts, t). (act # acts, t)) rest"

text \<open>
  The passes made before the context is done, with what each came to: the token, how leading
  ended, whether the lock was released, and the client as \<open>Stop\<close> leaves it. \<open>None\<close> if a call
  or the leading has not ended.
\<close>

fun replica_run :: "string \<Rightarrow> string list \<Rightarrow> replica_pass list \<Rightarrow> controllerTable \<Rightarrow> (replica_act list \<times> controllerTable) option" where
  "replica_run name seeds [] t = Some ([], t)"
| "replica_run name seeds (p # ps) t =
     (case NewClientWithSeeds seeds name of
        Inl err \<Rightarrow> Some ([ReplicaFatal err], t)
      | Inr c0 \<Rightarrow>
      case startSession (rp_start p) (rp_started p) c0 (8 * second) of
        None \<Rightarrow> None
      | Some (Inl err, c) \<Rightarrow> acted (NotStarted (stopped p c)) (replica_run name seeds ps t)
      | Some (Inr started, c1) \<Rightarrow>
      case hbTo (rp_before p) (started, c1) of (loop, c) \<Rightarrow>
      case WaitAcquire (rp_asks p) c failoverLock of
        None \<Rightarrow> None
      | Some (Inl err, c') \<Rightarrow> acted (NotAcquired (stopped p c')) (replica_run name seeds ps t)
      | Some (Inr lock, c') \<Rightarrow>
      case lead name lock t (rp_lead p) of (ended, t') \<Rightarrow>
      case hbTo (rp_after p) (loop, c') of (_, c'') \<Rightarrow>
        if ended = StillLeading then None
        else if rp_crashed p
        then acted (LedWith (Token lock) ended False (stopped p c'')) (replica_run name seeds ps t')
        else
          (case Lock_Release (rp_call p) (rp_release p) c'' lock of
             None \<Rightarrow> None
           | Some (err, c3) \<Rightarrow>
               acted (LedWith (Token lock) ended True (stopped p c3)) (replica_run name seeds ps t')))"

section \<open>The failover example: the program\<close>

text \<open>
  What the program meets: the cluster and its polls, and between its own steps the writes of
  the replicas, which run meanwhile. \<open>fo_now\<close> is the clock when it looks at the last write.
\<close>

record failover_env =
  fo_temp :: "goerr option"
  fo_dir :: string
  fo_nodes :: "node_env \<times> node_env \<times> node_env"
  fo_members :: "poll list list"
  fo_down :: "nat \<Rightarrow> goerr option"
  fo_polls :: "poll list list"
  fo_writes1 :: "table_write list"
  fo_crash :: "goerr option"
  fo_polls2 :: "poll list list"
  fo_writes2 :: "table_write list"
  fo_now :: time
  fo_writes3 :: "table_write list"
  fo_writes4 :: "table_write list"

datatype failover_said =
    LeaderIs nat
  | CrashingNode nat
  | NewLeader nat
  | StillReceiving string uint64
  | NoWritesSince string
  | CrashingReplica string
  | History "(uint64 \<times> nat \<times> string) list" int64

datatype failover_end = FailoverFatal app_err | FailoverDone "failover_said list" "replica list" controllerTable LocalCluster

definition writes :: "table_write list \<Rightarrow> controllerTable \<Rightarrow> controllerTable" where
  "writes ws t = foldl (\<lambda>t w. snd (table_put t w)) t ws"

text \<open>From the second election on: the look at the last write, the crash of the active replica, the summary.\<close>

definition failoverRest :: "failover_env \<Rightarrow> controllerTable \<Rightarrow> failover_said list \<times> replica list \<times> controllerTable" where
  "failoverRest env t0 =
     (let db2 = writes (fo_writes2 env) t0;
          receiving = (case lastWrite db2 of (writer, token, at) \<Rightarrow>
            if fo_now env - at < 2 * ms 500 then StillReceiving writer token else NoWritesSince writer);
          db3 = writes (fo_writes3 env) db2;
          active = fst (lastWrite db3);
          replicas = map startReplica [''replica-1'', ''replica-2'', ''replica-3''];
          crashing = filter (\<lambda>r. rep_name r = active) replicas;
          replicas' = map (\<lambda>r. if rep_name r = active then crash r else r) replicas;
          db4 = writes (fo_writes4 env) db3
      in (receiving # map (\<lambda>r. CrashingReplica (rep_name r)) crashing @ [case summarize db4 of (terms, n) \<Rightarrow> History terms n],
          map shutdown replicas', db4))"

definition failover_main :: "failover_env \<Rightarrow> failover_end go" where
  "failover_main env =
     (case fo_temp env of
        Some err \<Rightarrow> Ret (FailoverFatal (NodeErr err))
      | None \<Rightarrow>
      case fo_nodes env of (n1, n2, n3) \<Rightarrow>
      case StartLocalCluster (fo_down env) (fo_dir env) [n1, n2, n3] (fo_members env) of
        (Some err, _) \<Rightarrow> Ret (FailoverFatal err)
      | (None, cluster) \<Rightarrow>
      case LocalCluster_WaitForLeader (fo_polls env) cluster of
        Inl err \<Rightarrow> Ret (FailoverFatal (NodeErr err))
      | Inr leader \<Rightarrow>
      case LocalCluster_StopNode (fo_crash env) cluster leader of
        Panic \<Rightarrow> Panic
      | Ret (Some err, _) \<Rightarrow> Ret (FailoverFatal (NodeErr err))
      | Ret (None, cluster') \<Rightarrow>
      case LocalCluster_WaitForLeader (fo_polls2 env) cluster' of
        Inl err \<Rightarrow> Ret (FailoverFatal (NodeErr err))
      | Inr newLeader \<Rightarrow>
      case failoverRest env (writes (fo_writes1 env) newTable) of
        (said, replicas, db) \<Rightarrow>
          Ret (FailoverDone ([LeaderIs leader, CrashingNode leader, NewLeader newLeader] @ said) replicas db
            (LocalCluster_Close (fo_down env) cluster')))"

section \<open>The stale write is refused\<close>

lemma NewClient_owner: "NewClientWithSeeds seeds name = Inr c \<Longrightarrow> c_ownerID c = name"
  by (auto simp: NewClientWithSeeds_def Let_def split: if_splits)

lemma Start_owner: "Client_Start net c ttl = Some (e, c', p) \<Longrightarrow> c_ownerID c' = c_ownerID c"
  by (auto simp: Client_Start_def Let_def split: if_splits option.splits sum.splits prod.splits)

lemma hbTo_owner [simp]: "c_ownerID (snd (hbTo events lc)) = c_ownerID (snd lc)"
  by (simp add: hbTo_def Let_def split: prod.splits)

lemma startWorker_owner: "startWorker env seeds name = Some (Inr lc) \<Longrightarrow> c_ownerID (snd lc) = name"
  by (auto simp: startWorker_def startSession_def dest!: NewClient_owner Start_owner
      split: sum.splits option.splits prod.splits)

text \<open>A replica writes with the tokens it was handed, and releases unless it crashed.\<close>

lemma startSession_owner: "startSession net started c ttl = Some (r, c') \<Longrightarrow> c_ownerID c' = c_ownerID c"
  by (auto simp: startSession_def dest!: Start_owner split: option.splits prod.splits)

lemma lead_writes:
  assumes "lead name lock t evs = (ended, t')" and "w \<in> set (t_accepted t')"
  shows "w \<in> set (t_accepted t) \<or> (w_writer w = name \<and> w_token w = Token lock) \<or>
    (\<exists>at. OtherWrite at (w_writer w) (w_token w) \<in> set evs)"
  using assms
proof (induction name lock t evs rule: lead.induct)
  case (4 name lock t now evs)
  then show ?case by (auto simp: controllerTable_write_def Let_def split: prod.splits option.splits if_splits)
next
  case (5 name lock t now writer token evs)
  then show ?case by (fastforce simp: controllerTable_write_def Let_def split: if_splits)
qed auto

lemma acted_Some: "acted act rest = Some (acts, t) \<longleftrightarrow> (\<exists>acts'. rest = Some (acts', t) \<and> acts = act # acts')"
  by (cases rest) (auto simp: acted_def)

lemma replica_run_pass:
  assumes "replica_run name seeds (p # ps) t = Some (acts, t')"
  obtains (fatal) err where "acts = [ReplicaFatal err]" "t' = t"
  | (idle) act acts' where "acts = act # acts'" "\<And>token ended rel c. act \<noteq> LedWith token ended rel c"
      "replica_run name seeds ps t = Some (acts', t')"
  | (led) c lock c' ended t1 c2 acts' where "c_ownerID c = name"
      "WaitAcquire (rp_asks p) c failoverLock = Some (Inr lock, c')" "lead name lock t (rp_lead p) = (ended, t1)"
      "acts = LedWith (Token lock) ended (\<not> rp_crashed p) c2 # acts'" "replica_run name seeds ps t1 = Some (acts', t')"
proof (cases "NewClientWithSeeds seeds name")
  case (Inl err)
  then show ?thesis using assms fatal by auto
next
  case (Inr c0)
  obtain r c1 where s: "startSession (rp_start p) (rp_started p) c0 (8 * second) = Some (r, c1)"
    using assms Inr by (auto split: option.splits)
  have own: "c_ownerID (snd (hbTo (rp_before p) (x, c1))) = name" for x
    using startSession_owner [OF s] NewClient_owner [OF Inr] by simp
  show ?thesis
  proof (cases r)
    case (Inl err)
    then show ?thesis using assms Inr s idle by (auto simp: acted_Some)
  next
    case loop: (Inr started)
    obtain loop c where hb: "hbTo (rp_before p) (started, c1) = (loop, c)" by (cases "hbTo (rp_before p) (started, c1)") auto
    then have own: "c_ownerID c = name" using own [of started] by simp
    obtain r' c' where w: "WaitAcquire (rp_asks p) c failoverLock = Some (r', c')"
      using assms Inr s loop hb by (auto split: option.splits)
    show ?thesis
    proof (cases r')
      case (Inl err)
      then show ?thesis using assms \<open>NewClientWithSeeds seeds name = Inr c0\<close> s loop hb w idle by (auto simp: acted_Some)
    next
      case lock: (Inr lock)
      obtain ended t1 where ld: "lead name lock t (rp_lead p) = (ended, t1)" by (cases "lead name lock t (rp_lead p)") auto
      obtain c2 acts' where "acts = LedWith (Token lock) ended (\<not> rp_crashed p) c2 # acts'"
          "replica_run name seeds ps t1 = Some (acts', t')"
        using assms Inr s loop hb w lock ld by (auto simp: acted_Some split: if_splits option.splits prod.splits)
      then show ?thesis using led own w lock ld by blast
    qed
  qed
qed

lemma replica_run_led:
  assumes "replica_run name seeds ps t = Some (acts, t')" and "LedWith token ended rel c \<in> set acts"
  shows "\<exists>p\<in>set ps. rel = (\<not> rp_crashed p) \<and> (\<exists>c lock c'. c_ownerID c = name \<and> Token lock = token \<and>
    WaitAcquire (rp_asks p) c failoverLock = Some (Inr lock, c'))"
  using assms
proof (induction ps arbitrary: t acts)
  case (Cons p ps)
  show ?case
    using Cons.prems(1)
  proof (cases rule: replica_run_pass)
    case (led c0 lock c' ended' t1 c2 acts')
    show ?thesis
    proof (cases "LedWith token ended rel c \<in> set acts'")
      case True
      then show ?thesis using Cons.IH [OF led(5)] by auto
    next
      case False
      then have "Token lock = token" "rel = (\<not> rp_crashed p)" using led(4) Cons.prems(2) by auto
      then show ?thesis using led(1,2) by auto
    qed
  next
    case (idle act acts')
    then have "LedWith token ended rel c \<in> set acts'" using Cons.prems(2) idle(2) [of token ended rel c] by auto
    then show ?thesis using Cons.IH [OF idle(3)] by auto
  qed (use Cons.prems(2) in auto)
qed simp

lemma replica_run_writes:
  assumes "replica_run name seeds ps t = Some (acts, t')" and "w \<in> set (t_accepted t')"
  shows "w \<in> set (t_accepted t) \<or> (w_writer w = name \<and> (\<exists>ended rel c. LedWith (w_token w) ended rel c \<in> set acts)) \<or>
    (\<exists>p\<in>set ps. \<exists>at. OtherWrite at (w_writer w) (w_token w) \<in> set (rp_lead p))"
  using assms
proof (induction ps arbitrary: t acts)
  case (Cons p ps)
  show ?case
    using Cons.prems(1)
  proof (cases rule: replica_run_pass)
    case (led c0 lock c' ended' t1 c2 acts')
    have sub: "set acts' \<subseteq> set acts" and own: "\<exists>ended rel c. LedWith (Token lock) ended rel c \<in> set acts"
      unfolding led(4) by auto
    show ?thesis
      using Cons.IH [OF led(5) Cons.prems(2)]
    proof (elim disjE)
      assume "w \<in> set (t_accepted t1)"
      from lead_writes [OF led(3) this] show ?thesis using own by (elim disjE) auto
    next
      assume "w_writer w = name \<and> (\<exists>ended rel c. LedWith (w_token w) ended rel c \<in> set acts')"
      then show ?thesis using sub by blast
    next
      assume "\<exists>p\<in>set ps. \<exists>at. OtherWrite at (w_writer w) (w_token w) \<in> set (rp_lead p)"
      then show ?thesis by auto
    qed
  next
    case (idle act acts')
    have sub: "set acts' \<subseteq> set acts" unfolding idle(1) by auto
    show ?thesis using Cons.IH [OF idle(3) Cons.prems(2)] sub by (elim disjE) (blast, blast, auto)
  next
    case (fatal err)
    then show ?thesis using Cons.prems(2) by simp
  qed
qed simp

text \<open>The handles behind the writes of the program.\<close>

lemma fencing_main_writes:
  assumes "fencing_main env = Some (FencingDone said db stoppedB cl)"
  obtains lockA ca a lockB cb b s1 s2 s3 db1 db2 where "c_ownerID ca = ''worker-a''" "c_ownerID cb = ''worker-b''"
    "Client_Acquire (wk_call (fe_a env)) (wk_acquire (fe_a env)) ca fencingLock = Some (Inr lockA, a)"
    "WaitAcquire (wk_asks (fe_b env)) cb fencingLock = Some (Inr lockB, b)"
    "accountRow_write newRow ''worker-a'' (Token lockA) 100 = (s1, db1)"
    "accountRow_write db1 ''worker-b'' (Token lockB) 250 = (s2, db2)"
    "accountRow_write db2 ''worker-a'' (Token lockA) 90 = (s3, db)" "said = [s1, s2, s3]"
proof -
  obtain cluster lca lockA a where A: "startWorker (fe_a env) (Addrs cluster) ''worker-a'' = Some (Inr lca)"
      "Client_Acquire (wk_call (fe_a env)) (wk_acquire (fe_a env)) (snd (hbTo (wk_before (fe_a env)) lca)) fencingLock = Some (Inr lockA, a)"
      "fencingWrites env cluster lockA a = Some (FencingDone said db stoppedB cl)"
    using assms unfolding fencing_main_def by (auto split: option.splits prod.splits sum.splits)
  obtain lcb lockB b s1 s2 s3 db1 db2 where B: "startWorker (fe_b env) (Addrs cluster) ''worker-b'' = Some (Inr lcb)"
      "WaitAcquire (wk_asks (fe_b env)) (snd (hbTo (wk_before (fe_b env)) lcb)) fencingLock = Some (Inr lockB, b)"
      "accountRow_write newRow ''worker-a'' (Token lockA) 100 = (s1, db1)"
      "accountRow_write db1 ''worker-b'' (Token lockB) 250 = (s2, db2)"
      "accountRow_write db2 ''worker-a'' (Token lockA) 90 = (s3, db)" "said = [s1, s2, s3]"
    using A(3) unfolding fencingWrites_def by (auto split: option.splits prod.splits sum.splits)
  show ?thesis
    by (rule that [OF _ _ A(2) B(2-6)]) (simp_all add: startWorker_owner [OF A(1)] startWorker_owner [OF B(1)])
qed

text \<open>
  C27: The fencing example does what it says. Let the cluster answer from one log, worker B's
  requests at positions behind those of worker A. If the program gets to its end, A's first
  write was accepted, B's write was accepted with a larger token, A's late write was
  refused, and the account holds B's balance under B's token.
\<close>

theorem fencing_example:
  assumes log: "length cmds < 2 ^ 64 - 1" "ApplyAll NewFSM cmds = Ret (f, rs)"
    and run: "fencing_main env = Some (FencingDone said db stoppedB cl)"
    and a: "\<And>l p k conn resp. net_call (wk_acquire (fe_a env) fencingLock ''worker-a'' l False p k) conn = Inr resp \<Longrightarrow>
      \<exists>i < pos. grant_at cmds rs fencingLock ''worker-a'' (PbAcquire_FencingToken resp) i"
    and b: "\<And>q l p k conn resp. q \<in> set (wk_asks (fe_b env)) \<Longrightarrow>
      net_call (ask_net q fencingLock ''worker-b'' l True p k) conn = Inr resp \<Longrightarrow>
      \<exists>i \<ge> pos. grant_at cmds rs fencingLock ''worker-b'' (PbAcquire_FencingToken resp) i"
  shows "\<exists>ta tb. ta < tb \<and>
    said = [Accepted ''worker-a'' 100 ta, Accepted ''worker-b'' 250 tb, Rejected ''worker-a'' 90 ta tb] \<and>
    db = \<lparr>row_balance = 250, row_token = tb, row_writer = ''worker-b''\<rparr>"
proof -
  obtain lockA ca a' lockB cb b' s1 s2 s3 db1 db2 where w: "c_ownerID ca = ''worker-a''" "c_ownerID cb = ''worker-b''"
    "Client_Acquire (wk_call (fe_a env)) (wk_acquire (fe_a env)) ca fencingLock = Some (Inr lockA, a')"
    "WaitAcquire (wk_asks (fe_b env)) cb fencingLock = Some (Inr lockB, b')"
    "accountRow_write newRow ''worker-a'' (Token lockA) 100 = (s1, db1)"
    "accountRow_write db1 ''worker-b'' (Token lockB) 250 = (s2, db2)"
    "accountRow_write db2 ''worker-a'' (Token lockA) 90 = (s3, db)" "said = [s1, s2, s3]"
    by (rule fencing_main_writes [OF run])
  obtain i where i: "i < pos" "grant_at cmds rs fencingLock ''worker-a'' (Token lockA) i"
    using Client_acquire_answered [OF w(3) [unfolded Client_Acquire_def]] a w(1) by metis
  obtain q d d' where q: "q \<in> set (wk_asks (fe_b env))" "c_ownerID d = ''worker-b''"
      "Client_acquire (ask_call q) (ask_net q) d fencingLock True = Some (Inr lockB, d')"
    using WaitAcquire_handle [OF w(4)] w(2) by metis
  obtain j where j: "pos \<le> j" "grant_at cmds rs fencingLock ''worker-b'' (Token lockB) j"
    using Client_acquire_answered [OF q(3)] b [OF q(1)] q(2) by metis
  have less: "Token lockA < Token lockB"
    using grants_ordered [OF log i(2) j(2)] i(1) j(1) by simp
  then show ?thesis
    using w(5-8) by (auto simp: accountRow_write_def newRow_def split: if_splits)
qed

section \<open>A run of the fencing example\<close>

definition demo_poll :: "string \<Rightarrow> poll" where
  "demo_poll nid = (\<lparr>rv_state = (if nid = ''n1'' then Leader else Follower), rv_term = 1, rv_leaderAddr = ''r:1'', rv_leaderID = ''n1'',
     rv_config = Inr (map (\<lambda>nid. \<lparr>Server_Suffrage = Voter, Server_ID = nid, Server_Address = nid\<rparr>) [''n1'', ''n2'', ''n3''])\<rparr>,
     NewFSM\<lparr>endpoints := [(''n1'', ''a:1'')]\<rparr>)"

definition demo_node_env :: "string \<Rightarrow> string \<Rightarrow> node_env" where
  "demo_node_env nid addr = \<lparr>ne_raftAddr = Inr addr, ne_grpcAddr = Inr addr, ne_uuid = nid,
     ne_start = \<lparr>se_mkdir = None, se_storage = None, se_resolve = None, se_transport = None, se_raft = None, se_hasState = Inr False\<rparr>,
     ne_listen = None, ne_down = None, ne_polls = [[demo_poll nid]],
     ne_join = (\<lambda>m k. \<lparr>an_ctx = None, an_conn = None, an_op = (\<lambda>target. Inr (True, target)), an_wait = None\<rparr>)\<rparr>"

text \<open>The runtime of such a node, and what is read from it.\<close>

definition demo_runtime :: "nat \<Rightarrow> string \<Rightarrow> string \<Rightarrow> Runtime" where
  "demo_runtime i nid addr =
     \<lparr>rt_node = \<lparr>node_cfg = nodeConfig (localConfig ''/d'' i nid addr addr), node_fsm = NewFSM, node_leases = zeroTracker,
        node_lockQueues = newLockQueues, node_barrierTerm = 0\<rparr>,
      rt_run = \<lparr>rs_stopped = False, rs_open = [ResStorage, ResTransport, ResRaft]\<rparr>, rt_grpcOpen = True, rt_isStopped = False,
      rt_stopErr = None\<rparr>"

lemma demo_runtime_new:
  assumes "addr \<noteq> []"
  shows "fst (NewRuntime (ne_start (demo_node_env nid addr)) None None (localConfig ''/d'' i nid addr addr)) = Inr (demo_runtime i nid addr)"
  using assms
  by (simp add: NewRuntime_def NewNode_def nodeConfig_def withDefaults_def localConfig_def demo_node_env_def demo_runtime_def Let_def)

lemma demo_runtime_reads:
  "rt_isStopped (demo_runtime i nid addr) = False"
  "Cfg_NodeID (node_cfg (polled v (demo_runtime i nid addr))) = nid"
  "Cfg_GRPCAdvertiseAddr (node_cfg (polled v (demo_runtime i nid addr))) = addr"
  "node_fsm (polled v (demo_runtime i nid addr)) = snd v"
  by (simp_all add: demo_runtime_def polled_def nodeConfig_def localConfig_def)

lemmas poll_eval = demo_runtime_reads agreedLeader_def GetLeaderGRPCAddress_def GetLeaderID_def IsLeader_def GetEndpoint_def

lemma demo_joins: "JoinCluster (ne_join (demo_node_env nid addr)) target m = None"
  by (simp add: JoinCluster_def callLeader_def demo_node_env_def numeral_eq_Suc)

definition demo_cluster :: LocalCluster where
  "demo_cluster = \<lparr>lc_runtimes = [demo_runtime 0 ''n1'' ''a:1'', demo_runtime 1 ''n2'' ''a:2'', demo_runtime 2 ''n3'' ''a:3''],
     lc_addrs = [''a:1'', ''a:2'', ''a:3'']\<rparr>"

lemma demo_polled: "agreedLeader [demo_poll ''n1'', demo_poll ''n2'', demo_poll ''n3''] demo_cluster = Some 0"
  by (simp add: demo_cluster_def demo_poll_def poll_eval)

lemma demo_cluster_starts:
  "StartLocalCluster (\<lambda>i. None) ''/d'' [demo_node_env ''n1'' ''a:1'', demo_node_env ''n2'' ''a:2'', demo_node_env ''n3'' ''a:3'']
     [[demo_poll ''n1'', demo_poll ''n2'', demo_poll ''n3'']] = (None, demo_cluster)"
proof -
  have env: "freeLoopbackAddr (ne_raftAddr (demo_node_env nid addr)) = Inr addr" "freeLoopbackAddr (ne_grpcAddr (demo_node_env nid addr)) = Inr addr"
      "ne_listen (demo_node_env nid addr) = None" "ne_down (demo_node_env nid addr) = None" "ne_uuid (demo_node_env nid addr) = nid"
      "ne_polls (demo_node_env nid addr) = [[demo_poll nid]]" for nid addr
    by (simp_all add: demo_node_env_def freeLoopbackAddr_def)
  have first: "agreedLeader [demo_poll ''n1''] \<lparr>lc_runtimes = [demo_runtime 0 ''n1'' ''a:1''], lc_addrs = [''a:1'']\<rparr> = Some 0"
    by (simp add: demo_poll_def poll_eval)
  have "startNodes (\<lambda>i. None) ''/d'' 0 [demo_node_env ''n1'' ''a:1'', demo_node_env ''n2'' ''a:2'', demo_node_env ''n3'' ''a:3'']
      \<lparr>lc_runtimes = [], lc_addrs = []\<rparr> = (None, demo_cluster)"
    by (simp add: env demo_runtime_new first demo_joins demo_cluster_def numeral_2_eq_2)
  moreover have "length (Members (fst (demo_poll ''n1'')) n) = 3" for n
    by (simp add: Members_def demo_poll_def)
  ultimately show ?thesis by (simp add: StartLocalCluster_def demo_polled)
qed

definition demo_grant :: "uint64 \<Rightarrow> acquire_net" where
  "demo_grant token name owner i wait p k = \<lparr>net_ctx = None, net_dial = (\<lambda>a. Inr (Conn a k)), net_meanwhile = (\<lambda>r. r),
     net_call = (\<lambda>c. Inr \<lparr>PbAcquire_FencingToken = token, PbAcquire_LeaseTtlSeconds = 2\<rparr>), net_unresponsive = False\<rparr>"

definition demo_release :: "string \<Rightarrow> uint64 \<Rightarrow> nat \<Rightarrow> nat \<Rightarrow> bool net" where
  "demo_release name i p k = \<lparr>net_ctx = None, net_dial = (\<lambda>a. Inr (Conn a k)), net_meanwhile = (\<lambda>r. r),
     net_call = (\<lambda>c. Inr True), net_unresponsive = False\<rparr>"

definition demo_start :: "uint64 \<Rightarrow> start_net" where
  "demo_start lease = \<lparr>sn_sentAt = 0, sn_call = demo_call_env,
     sn_create = (\<lambda>owner ttl p k. \<lparr>net_ctx = None, net_dial = (\<lambda>a. Inr (Conn a k)), net_meanwhile = (\<lambda>r. r),
       net_call = (\<lambda>c. Inr \<lparr>PbCreate_LeaseId = lease, PbCreate_TtlSeconds = 2\<rparr>), net_unresponsive = False\<rparr>),
     sn_discover = demo_status, sn_dial = (\<lambda>a. Inr (Conn a 0)), sn_stream = Inr 1\<rparr>"

definition demo_worker :: "uint64 \<Rightarrow> uint64 \<Rightarrow> worker_env" where
  "demo_worker lease token = \<lparr>wk_start = demo_start lease, wk_started = 0, wk_before = [], wk_call = demo_call_env,
     wk_acquire = demo_grant token,
     wk_asks = [\<lparr>ask_call = demo_call_env, ask_net = demo_grant token, ask_ctx = None, ask_took = 0, ask_waitDone = None\<rparr>],
     wk_close = (\<lambda>c. None)\<rparr>"

lemma demo_session_ttl:
  assumes "c = \<lparr>c_ownerID = name, c_resolver = newResolver [''a:1'', ''a:2'', ''a:3''], c_session = newLeaseSession\<rparr>"
    and "\<not> sint ttl < sint second"
  shows "\<exists>loop c'. startSession (demo_start lease) 0 c ttl = Some (Inr loop, c') \<and>
    c_session c' = c_session c\<lparr>s_leaseID := lease, s_leaseTTL := 2 * second, s_heartbeat := Some 1, s_heartbeatCancel := Some 1\<rparr> \<and>
    hl_session loop = c_session c' \<and> hl_resolver loop = c_resolver c' \<and> c_ownerID c' = name \<and> current (c_resolver c') = ''a:1''"
  using assms(2) unfolding assms(1)
  by (simp add: startSession_def Client_Start_def demo_start_def callWithFailover_def callLoop.simps tryCandidates_def
      candidateAddrs_def newResolver_def tryLoop.simps connFor_def Let_def demo_call_env_def newLeaseSession_def startLease_def
      rememberAddr_def rememberSeedLocked_def current_def session_defs loop_start_def heartbeatLoop_def)

lemma demo_session_starts:
  assumes "c = \<lparr>c_ownerID = name, c_resolver = newResolver [''a:1'', ''a:2'', ''a:3''], c_session = newLeaseSession\<rparr>"
  shows "\<exists>loop c'. startSession (demo_start lease) 0 c (2 * second) = Some (Inr loop, c') \<and>
    c_session c' = c_session c\<lparr>s_leaseID := lease, s_leaseTTL := 2 * second, s_heartbeat := Some 1, s_heartbeatCancel := Some 1\<rparr> \<and>
    hl_session loop = c_session c' \<and> hl_resolver loop = c_resolver c' \<and> c_ownerID c' = name \<and> current (c_resolver c') = ''a:1''"
  by (rule demo_session_ttl [OF assms]) (simp add: second_def)

lemma demo_worker_starts:
  "\<exists>loop c. startWorker (demo_worker lease token) [''a:1'', ''a:2'', ''a:3''] name = Some (Inr (loop, c)) \<and>
    c_session (snd (hbTo [] (loop, c))) = newLeaseSession\<lparr>s_leaseID := lease, s_leaseTTL := 2 * second, s_heartbeat := Some 1, s_heartbeatCancel := Some 1\<rparr> \<and>
    current (c_resolver (snd (hbTo [] (loop, c)))) = ''a:1''"
  if "name \<noteq> []" "lease \<noteq> 0"
proof -
  let ?c = "\<lparr>c_ownerID = name, c_resolver = newResolver [''a:1'', ''a:2'', ''a:3''], c_session = newLeaseSession\<rparr>"
  have "NewClientWithSeeds [''a:1'', ''a:2'', ''a:3''] name = Inr ?c"
    using that by (simp add: NewClientWithSeeds_def normalizeSeedAddrs_def isSpace_def TrimSpace_def)
  then show ?thesis
    using demo_session_starts [OF refl, of lease name]
    by (auto simp: startWorker_def demo_worker_def hbTo_def)
qed

lemma demo_acquires:
  assumes "c_session c = newLeaseSession\<lparr>s_leaseID := lease, s_leaseTTL := 2 * second, s_heartbeat := Some 1, s_heartbeatCancel := Some 1\<rparr>"
    and "lease \<noteq> 0" and "current (c_resolver c) = ''a:1''"
  shows "\<exists>c'. Client_acquire demo_call_env (demo_grant token) c name w = Some (Inr \<lparr>l_name = name, l_fencingToken = token\<rparr>, c')"
proof -
  have loop: "\<exists>as. candidateLoop seeds (x # xs) = x # as" for seeds xs and x :: string
    by (induction seeds arbitrary: xs) auto
  obtain as where "candidateAddrs (c_resolver c) = ''a:1'' # as"
    using assms(3) loop [of "r_seedAddrs (c_resolver c)" "''a:1''" "[]"] by (auto simp: candidateAddrs_def current_def)
  then show ?thesis
    using assms(1,2)
    by (simp add: Client_acquire_def activeLeaseID_def newLeaseSession_def callWithFailover_def callLoop.simps tryCandidates_def
        tryLoop.simps connFor_def demo_grant_def demo_call_env_def Let_def split: option.splits) blast
qed

definition demo_fencing :: fencing_env where
  "demo_fencing = \<lparr>fe_temp = None, fe_dir = ''/d'',
     fe_nodes = (demo_node_env ''n1'' ''a:1'', demo_node_env ''n2'' ''a:2'', demo_node_env ''n3'' ''a:3''),
     fe_polls = [[demo_poll ''n1'', demo_poll ''n2'', demo_poll ''n3'']], fe_down = (\<lambda>i. None),
     fe_a = demo_worker 1 1, fe_b = demo_worker 2 2\<rparr>"

lemma demo_fencing_run:
  "\<exists>stoppedB cl. fencing_main demo_fencing = Some (FencingDone
     [Accepted ''worker-a'' 100 1, Accepted ''worker-b'' 250 2, Rejected ''worker-a'' 90 1 2]
     \<lparr>row_balance = 250, row_token = 2, row_writer = ''worker-b''\<rparr> stoppedB cl)"
proof -
  let ?seeds = "[''a:1'', ''a:2'', ''a:3'']"
  have cl: "Addrs demo_cluster = ?seeds" by (simp add: Addrs_def demo_cluster_def)
  obtain la ca where a: "startWorker (demo_worker 1 1) ?seeds ''worker-a'' = Some (Inr (la, ca))"
      "c_session (snd (hbTo [] (la, ca))) = newLeaseSession\<lparr>s_leaseID := 1, s_leaseTTL := 2 * second, s_heartbeat := Some 1, s_heartbeatCancel := Some 1\<rparr>"
      "current (c_resolver (snd (hbTo [] (la, ca)))) = ''a:1''"
    using demo_worker_starts [of "''worker-a''" 1 1] by auto
  obtain lb cb where b: "startWorker (demo_worker 2 2) ?seeds ''worker-b'' = Some (Inr (lb, cb))"
      "c_session (snd (hbTo [] (lb, cb))) = newLeaseSession\<lparr>s_leaseID := 2, s_leaseTTL := 2 * second, s_heartbeat := Some 1, s_heartbeatCancel := Some 1\<rparr>"
      "current (c_resolver (snd (hbTo [] (lb, cb)))) = ''a:1''"
    using demo_worker_starts [of "''worker-b''" 2 2] by auto
  obtain ca' where a': "Client_acquire demo_call_env (demo_grant 1) (snd (hbTo [] (la, ca))) fencingLock False =
      Some (Inr \<lparr>l_name = fencingLock, l_fencingToken = 1\<rparr>, ca')"
    using demo_acquires [OF a(2) _ a(3), of 1 fencingLock False] by auto
  obtain cb' where b': "Client_acquire demo_call_env (demo_grant 2) (snd (hbTo [] (lb, cb))) fencingLock True =
      Some (Inr \<lparr>l_name = fencingLock, l_fencingToken = 2\<rparr>, cb')"
    using demo_acquires [OF b(2) _ b(3), of 2 fencingLock True] by auto
  have fold: "foldl (\<lambda>firstErr conn. case firstErr of None \<Rightarrow> None | Some x \<Rightarrow> Some x) None xs = None" for xs
    by (induction xs) auto
  have stop: "\<exists>x y. Client_Stop (\<lambda>c. None) c = (None, x, y)" for c
    by (auto simp: Client_Stop_def resolver_close_def Let_def fold split: prod.splits)
  obtain x y where "Client_Stop (\<lambda>c. None) ca' = (None, x, y)" using stop by blast
  moreover have "fencingLock \<noteq> []" by (simp add: fencingLock_def)
  ultimately show ?thesis
    using cl a(1) b(1) a' b'
    by (simp add: fencing_main_def demo_cluster_starts demo_fencing_def fencingWrites_def demo_worker_def Client_Acquire_def WaitAcquire_def
        accountRow_write_def newRow_def Token_def)
qed

definition demo_fencing_log :: "CommandWrapper list" where
  "demo_fencing_log = [NewCreateLeaseCmd ''worker-a'' second 1000, NewCreateLeaseCmd ''worker-b'' second 1000,
     NewAcquireLockCmd fencingLock ''worker-a'' 1, NewExpireLeaseCmd 1, NewAcquireLockCmd fencingLock ''worker-b'' 2]"

lemma demo_fencing_log_run:
  "\<exists>f rs. ApplyAll NewFSM demo_fencing_log = Ret (f, rs) \<and>
     grant_at demo_fencing_log rs fencingLock ''worker-a'' 1 2 \<and> grant_at demo_fencing_log rs fencingLock ''worker-b'' 2 4"
  by (simp add: demo_fencing_log_def fsm_eval grant_at_def)

theorem fencing_example_witness:
  "\<exists>said db stoppedB cl. fencing_main demo_fencing = Some (FencingDone said db stoppedB cl) \<and> (\<exists>tb. db = \<lparr>row_balance = 250, row_token = tb, row_writer = ''worker-b''\<rparr>)"
proof -
  obtain f rs where log: "ApplyAll NewFSM demo_fencing_log = Ret (f, rs)"
      "grant_at demo_fencing_log rs fencingLock ''worker-a'' 1 2" "grant_at demo_fencing_log rs fencingLock ''worker-b'' 2 4"
    using demo_fencing_log_run by blast
  obtain stoppedB cl where run: "fencing_main demo_fencing = Some (FencingDone
      [Accepted ''worker-a'' 100 1, Accepted ''worker-b'' 250 2, Rejected ''worker-a'' 90 1 2]
      \<lparr>row_balance = 250, row_token = 2, row_writer = ''worker-b''\<rparr> stoppedB cl)"
    using demo_fencing_run by blast
  have short: "length demo_fencing_log < 2 ^ 64 - 1" by (simp add: demo_fencing_log_def)
  have env: "wk_acquire (fe_a demo_fencing) = demo_grant 1" "ask_net q = demo_grant 2" if "q \<in> set (wk_asks (fe_b demo_fencing))" for q
    using that by (simp_all add: demo_fencing_def demo_worker_def)
  have "\<exists>ta tb. ta < tb \<and> [Accepted ''worker-a'' 100 1, Accepted ''worker-b'' 250 2, Rejected ''worker-a'' 90 1 2] =
      [Accepted ''worker-a'' 100 ta, Accepted ''worker-b'' 250 tb, Rejected ''worker-a'' 90 ta tb] \<and>
    \<lparr>row_balance = 250, row_token = 2, row_writer = ''worker-b''\<rparr> = \<lparr>row_balance = 250, row_token = tb, row_writer = ''worker-b''\<rparr>"
    by (rule fencing_example [OF short log(1) run, of 3])
      (use log(2,3) env in \<open>auto simp: demo_grant_def demo_fencing_def demo_worker_def intro: exI [of _ 2] exI [of _ 4]\<close>)
  then show ?thesis using run by auto
qed

section \<open>The history of the failover example\<close>

lemma writes_append: "writes (xs @ ys) t = writes ys (writes xs t)"
  by (simp add: writes_def)

lemma waitForLeader_running:
  "LocalCluster_WaitForLeader polls c = Inr l \<Longrightarrow> l < length (lc_runtimes c)"
proof (induction polls)
  case (Cons views polls)
  show ?case
  proof (cases "agreedLeader views c")
    case (Some l')
    then have "length views = length (lc_runtimes c)"
      by (auto simp: agreedLeader_def list_all2_lengthD split: option.splits if_splits)
    from agreedLeader_Some [OF Some this] show ?thesis using Some Cons.prems by simp
  qed (use Cons in simp)
qed simp

lemma failover_main_returns: "failover_main env \<noteq> Panic"
proof -
  have "LocalCluster_StopNode down c l \<noteq> Panic" if "LocalCluster_WaitForLeader polls c = Inr l" for down polls c l
    using waitForLeader_running [OF that] by (simp add: LocalCluster_StopNode_def split: prod.splits)
  then show ?thesis
    unfolding failover_main_def by (auto split: option.splits prod.splits sum.splits go.splits)
qed

definition failoverWrites :: "failover_env \<Rightarrow> table_write list" where
  "failoverWrites env = fo_writes1 env @ fo_writes2 env @ fo_writes3 env @ fo_writes4 env"

lemma failover_main_done:
  assumes "failover_main env = Ret (FailoverDone said replicas db cl)"
  shows "db = writes (failoverWrites env) newTable \<and> last said = (case summarize db of (terms, n) \<Rightarrow> History terms n)"
proof -
  obtain said' where "failoverRest env (writes (fo_writes1 env) newTable) = (said', replicas, db)"
      "\<exists>xs. said = xs @ said'"
    using assms unfolding failover_main_def
    by (auto split: option.splits prod.splits sum.splits go.splits)
  then show ?thesis
    by (auto simp: failoverRest_def Let_def failoverWrites_def writes_append split: prod.splits)
qed

text \<open>
  A replica has led with a token: in a run of its loop, in which every answer to its requests
  for the lock is a grant of the log.
\<close>

definition led_by :: "CommandWrapper list \<Rightarrow> (goerr + response) list \<Rightarrow> string \<Rightarrow> uint64 \<Rightarrow> bool" where
  "led_by cmds rs name token \<longleftrightarrow>
     (\<exists>seeds ps t acts t' ended released c. replica_run name seeds ps t = Some (acts, t') \<and> LedWith token ended released c \<in> set acts \<and>
        (\<forall>p \<in> set ps. \<forall>q \<in> set (rp_asks p). \<forall>l k j conn resp.
           net_call (ask_net q failoverLock name l True k j) conn = Inr resp \<longrightarrow>
           (\<exists>i. grant_at cmds rs failoverLock name (PbAcquire_FencingToken resp) i)))"

lemma led_granted:
  assumes "led_by cmds rs name token"
  shows "\<exists>i. grant_at cmds rs failoverLock name token i"
proof -
  obtain seeds ps t acts t' ended released c where run: "replica_run name seeds ps t = Some (acts, t')"
      "LedWith token ended released c \<in> set acts"
    and net: "\<forall>p \<in> set ps. \<forall>q \<in> set (rp_asks p). \<forall>l k j conn resp. net_call (ask_net q failoverLock name l True k j) conn = Inr resp \<longrightarrow>
      (\<exists>i. grant_at cmds rs failoverLock name (PbAcquire_FencingToken resp) i)"
    using assms unfolding led_by_def by auto
  obtain p c0 lock c1 where p: "p \<in> set ps" "c_ownerID c0 = name" "Token lock = token"
      "WaitAcquire (rp_asks p) c0 failoverLock = Some (Inr lock, c1)"
    using replica_run_led [OF run] by blast
  obtain q d d' where q: "q \<in> set (rp_asks p)" "c_ownerID d = name"
      "Client_acquire (ask_call q) (ask_net q) d failoverLock True = Some (Inr lock, d')"
    using WaitAcquire_handle [OF p(4)] p(2) by metis
  show ?thesis
    using Client_acquire_answered [OF q(3)] net [rule_format, OF p(1) q(1)] q(2) p(3) by metis
qed

text \<open>
  C28: The history the failover example prints is right. The program never panics. Whatever
  happens to leaders and replicas, if every write is one of a replica that leads with its
  token, and the replicas' requests are answered from one log, the terms of the summary
  have strictly increasing tokens and exactly one writer each: spelled out, they are the
  accepted writes in order; and the count of stale writes is that of the others.
\<close>

theorem failover_history:
  assumes log: "length cmds < 2 ^ 64 - 1" "ApplyAll NewFSM cmds = Ret (f, rs)"
    and run: "failover_main env = Ret (FailoverDone said replicas db cl)"
    and holders: "\<And>at writer token. (at, writer, token) \<in> set (failoverWrites env) \<Longrightarrow>
      led_by cmds rs writer token"
  shows "(\<forall>env. failover_main env \<noteq> Panic) \<and> (\<exists>terms n. last said = History terms n \<and> sorted_wrt (<) (map fst terms) \<and>
    concat (map termWrites terms) = t_accepted db \<and>
    n + of_nat (length (t_accepted db)) = of_nat (length (failoverWrites env)))"
proof -
  have db: "db = writes (failoverWrites env) newTable" and
    last: "last said = History (summaryTerms (t_accepted db)) (t_rejected db)"
    using failover_main_done [OF run] unfolding summarize_def prod.case by blast+
  have granted: "\<exists>i. grant_at cmds rs failoverLock (w_writer w) (w_token w) i" if w: "w \<in> set (t_accepted db)" for w
  proof -
    obtain at where "(at, w_writer w, w_token w) \<in> set (failoverWrites env)"
      using puts_accepted [OF w [unfolded db writes_def]] by (auto simp: newTable_def)
    then show ?thesis by (rule led_granted [OF holders])
  qed
  have one: "w_writer w = w_writer w'"
    if mem: "w \<in> set (t_accepted db)" "w' \<in> set (t_accepted db)" and tok: "w_token w = w_token w'" for w w'
  proof -
    obtain i j where "grant_at cmds rs failoverLock (w_writer w) (w_token w) i"
        "grant_at cmds rs failoverLock (w_writer w') (w_token w) j"
      using granted [OF mem(1)] granted [OF mem(2)] tok by auto
    then show ?thesis by (rule token_owner [OF log])
  qed
  have "table_inv db" unfolding db writes_def by (rule table_inv_puts [OF table_inv_new])
  then have "sorted_wrt (<) (map fst (summaryTerms (t_accepted db)))"
    by (simp add: summary_sorted table_inv_def)
  moreover have "t_rejected db + of_nat (length (t_accepted db)) = of_nat (length (failoverWrites env))"
    using puts_counted [of newTable "failoverWrites env", folded writes_def, folded db] by (simp add: newTable_def)
  moreover have "concat (map termWrites (summaryTerms (t_accepted db))) = t_accepted db"
    by (rule summary_roundtrip) (rule one)
  ultimately show ?thesis using last failover_main_returns by blast
qed

definition demo_poll2 :: "string \<Rightarrow> poll" where
  "demo_poll2 nid = (\<lparr>rv_state = (if nid = ''n2'' then Leader else Follower), rv_term = 2, rv_leaderAddr = ''r:2'', rv_leaderID = ''n2'',
     rv_config = Inr []\<rparr>, NewFSM\<lparr>endpoints := [(''n2'', ''a:2'')]\<rparr>)"

definition demo_failover :: failover_env where
  "demo_failover = \<lparr>fo_temp = None, fo_dir = ''/d'',
     fo_nodes = (demo_node_env ''n1'' ''a:1'', demo_node_env ''n2'' ''a:2'', demo_node_env ''n3'' ''a:3''),
     fo_members = [[demo_poll ''n1'', demo_poll ''n2'', demo_poll ''n3'']], fo_down = (\<lambda>i. None),
     fo_polls = [[demo_poll ''n1'', demo_poll ''n2'', demo_poll ''n3'']], fo_writes1 = [(5, ''replica-1'', 1)], fo_crash = None,
     fo_polls2 = [[demo_poll2 ''n1'', demo_poll2 ''n2'', demo_poll2 ''n3'']], fo_writes2 = [(6, ''replica-1'', 1)], fo_now = 7,
     fo_writes3 = [], fo_writes4 = [(9, ''replica-2'', 2), (10, ''replica-1'', 1)]\<rparr>"

lemma demo_failover_run: "\<exists>said replicas db cl. failover_main demo_failover = Ret (FailoverDone said replicas db cl)"
proof -
  obtain rt where crash: "LocalCluster_StopNode None demo_cluster 0 = Ret (None, demo_cluster\<lparr>lc_runtimes := (lc_runtimes demo_cluster)[0 := rt]\<rparr>)"
      "rt_isStopped rt"
    by (simp add: LocalCluster_StopNode_def StopNow_def Shutdown_def demo_cluster_def demo_runtime_def)
  have "agreedLeader [demo_poll2 ''n1'', demo_poll2 ''n2'', demo_poll2 ''n3'']
      (demo_cluster\<lparr>lc_runtimes := (lc_runtimes demo_cluster)[0 := rt]\<rparr>) = Some 1"
    using crash(2) by (simp add: demo_cluster_def demo_poll2_def poll_eval)
  then show ?thesis
    using crash(1) by (simp add: failover_main_def demo_failover_def demo_cluster_starts demo_polled split: prod.splits)
qed

definition demo_failover_log :: "CommandWrapper list" where
  "demo_failover_log = [NewCreateLeaseCmd ''replica-1'' second 1000, NewCreateLeaseCmd ''replica-2'' second 1000,
     NewAcquireLockCmd failoverLock ''replica-1'' 1, NewExpireLeaseCmd 1, NewAcquireLockCmd failoverLock ''replica-2'' 2]"

lemma demo_failover_log_run:
  "\<exists>f rs. ApplyAll NewFSM demo_failover_log = Ret (f, rs) \<and>
     grant_at demo_failover_log rs failoverLock ''replica-1'' 1 2 \<and> grant_at demo_failover_log rs failoverLock ''replica-2'' 2 4"
  by (simp add: demo_failover_log_def fsm_eval grant_at_def)

text \<open>The passes of the two replicas: each leads until it crashes.\<close>

definition demo_pass :: "uint64 \<Rightarrow> uint64 \<Rightarrow> replica_pass" where
  "demo_pass lease token = \<lparr>rp_start = demo_start lease, rp_started = 0, rp_before = [], rp_asks = wk_asks (demo_worker lease token),
     rp_lead = [LeadTick 5, LeadCtxDone], rp_after = [], rp_crashed = True, rp_call = demo_call_env,
     rp_release = demo_release,
     rp_close = (\<lambda>c. None)\<rparr>"

lemma demo_leads:
  assumes "name \<noteq> []" and "lease \<noteq> 0"
  shows "\<exists>acts t' ended released c. replica_run name [''a:1'', ''a:2'', ''a:3''] [demo_pass lease token] newTable = Some (acts, t') \<and>
    LedWith token ended released c \<in> set acts"
proof -
  let ?c = "\<lparr>c_ownerID = name, c_resolver = newResolver [''a:1'', ''a:2'', ''a:3''], c_session = newLeaseSession\<rparr>"
  have new: "NewClientWithSeeds [''a:1'', ''a:2'', ''a:3''] name = Inr ?c"
    using assms(1) by (simp add: NewClientWithSeeds_def normalizeSeedAddrs_def isSpace_def TrimSpace_def)
  obtain loop c where s: "startSession (demo_start lease) 0 ?c (8 * second) = Some (Inr loop, c)"
      "c_session c = newLeaseSession\<lparr>s_leaseID := lease, s_leaseTTL := 2 * second, s_heartbeat := Some 1, s_heartbeatCancel := Some 1\<rparr>"
      "hl_session loop = c_session c" "current (c_resolver c) = ''a:1''"
    using demo_session_ttl [OF refl, of "8 * second" lease name] by (auto simp: second_def)
  obtain c' where "Client_acquire demo_call_env (demo_grant token) c failoverLock True =
      Some (Inr \<lparr>l_name = failoverLock, l_fencingToken = token\<rparr>, c')"
    using demo_acquires [OF s(2) assms(2) s(4)] by blast
  moreover have "hbTo [] (loop, c) = (loop\<lparr>hl_resolver := c_resolver c\<rparr>, c)" using s(3) by (simp add: hbTo_def)
  moreover have "failoverLock \<noteq> []" by (simp add: failoverLock_def)
  ultimately show ?thesis
    using new s(1) by (auto simp: demo_pass_def demo_worker_def WaitAcquire_def controllerTable_write_def newTable_def Token_def acted_def
        split: prod.splits)
qed

lemma demo_led_by:
  assumes "name \<noteq> []" and "grant_at cmds rs failoverLock name token i"
  shows "led_by cmds rs name token"
proof -
  have "ask_net q = demo_grant token" if "q \<in> set (rp_asks (demo_pass 1 token))" for q
    using that by (simp add: demo_pass_def demo_worker_def)
  then show ?thesis
    unfolding led_by_def using demo_leads [OF assms(1), of 1 token] assms(2)
    by (intro exI [of _ "[''a:1'', ''a:2'', ''a:3'']"] exI [of _ "[demo_pass 1 token]"] exI [of _ newTable]) (auto simp: demo_grant_def)
qed

theorem failover_history_witness:
  "\<exists>said replicas db cl terms n. failover_main demo_failover = Ret (FailoverDone said replicas db cl) \<and>
     last said = History terms n \<and> concat (map termWrites terms) = t_accepted db \<and> n + of_nat (length (t_accepted db)) = 4"
proof -
  obtain f rs where log: "ApplyAll NewFSM demo_failover_log = Ret (f, rs)"
      "grant_at demo_failover_log rs failoverLock ''replica-1'' 1 2" "grant_at demo_failover_log rs failoverLock ''replica-2'' 2 4"
    using demo_failover_log_run by blast
  have short: "length demo_failover_log < 2 ^ 64 - 1" by (simp add: demo_failover_log_def)
  obtain said replicas db cl where run: "failover_main demo_failover = Ret (FailoverDone said replicas db cl)"
    using demo_failover_run by blast
  have "length (failoverWrites demo_failover) = 4" by (simp add: failoverWrites_def demo_failover_def)
  moreover have "led_by demo_failover_log rs ''replica-1'' 1" "led_by demo_failover_log rs ''replica-2'' 2"
    using demo_led_by [OF _ log(2)] demo_led_by [OF _ log(3)] by simp_all
  then have "led_by demo_failover_log rs writer token" if "(at, writer, token) \<in> set (failoverWrites demo_failover)" for at writer token
    using that by (auto simp: failoverWrites_def demo_failover_def)
  ultimately show ?thesis using run failover_history [OF short log(1) run] by auto
qed

end
