(* ===== verification/Bench_Clients.thy ===== *)
theory Bench_Clients
  imports Bench_Stats Example_Programs
begin

text \<open>
  The parts the scenarios of \<open>clavis-bench\<close> share (\<open>cmd/clavis-bench/main.go\<close>, and the helpers of
  \<open>scenarios.go\<close>): configuration, the cluster a scenario runs against, its clients, one cycle
  of acquiring and releasing, and loops of cycles. The clock, the network and the progress
  of goroutines are the environment.
\<close>

section \<open>Configuration\<close>

record bench_config =
  bc_seeds :: "string list option"
  bc_nodes :: int
  bc_duration :: duration
  bc_ttl :: duration
  bc_rounds :: int
  bc_clients :: "int list"
  bc_sessions :: "int list"

text \<open>\<open>strconv.Atoi\<close>: an optional sign and decimal digits, within 64 bits.\<close>

fun digitsFrom :: "int \<Rightarrow> string \<Rightarrow> int option" where
  "digitsFrom n [] = Some n"
| "digitsFrom n (ch # s) =
     (if 48 \<le> (of_char ch :: int) \<and> (of_char ch :: int) \<le> 57 then digitsFrom (10 * n + (of_char ch - 48)) s else None)"

definition Atoi :: "string \<Rightarrow> int option" where
  "Atoi s =
     (let neg = (s \<noteq> [] \<and> hd s = CHR ''-'');
          ds = (if s \<noteq> [] \<and> hd s \<in> {CHR ''-'', CHR ''+''} then tl s else s)
      in if ds = [] then None
         else case digitsFrom 0 ds of
             None \<Rightarrow> None
           | Some n \<Rightarrow> (let v = (if neg then - n else n) in if - (2 ^ 63) \<le> v \<and> v < 2 ^ 63 then Some v else None))"

text \<open>\<open>None\<close> where the program exits with a message.\<close>

fun parseParts :: "string list \<Rightarrow> int list option" where
  "parseParts [] = Some []"
| "parseParts (part # parts) =
     (case Atoi (TrimSpace part) of
        None \<Rightarrow> None
      | Some n \<Rightarrow> if n < 0 then None else map_option ((#) n) (parseParts parts))"

definition parseInts :: "string \<Rightarrow> int list option" where
  "parseInts s = parseParts (splitComma s)"

section \<open>The target\<close>

text \<open>\<open>tg_onDisk\<close>: the data directory has not been removed.\<close>

record target =
  tg_seeds :: "string list"
  tg_cluster :: "LocalCluster option"
  tg_dataDir :: string
  tg_onDisk :: bool

record target_env =
  te_temp :: "goerr + string"
  te_nodes :: "nat \<Rightarrow> node_env"
  te_polls :: "poll list list"
  te_down :: "nat \<Rightarrow> goerr option"

definition newTarget :: "target_env \<Rightarrow> bench_config \<Rightarrow> app_err + target" where
  "newTarget env cfg =
     (case bc_seeds cfg of
        Some seeds \<Rightarrow> Inr \<lparr>tg_seeds = seeds, tg_cluster = None, tg_dataDir = [], tg_onDisk = False\<rparr>
      | None \<Rightarrow>
          (case te_temp env of
             Inl err \<Rightarrow> Inl (NodeErr err)
           | Inr dataDir \<Rightarrow>
               (case StartLocalCluster (te_down env) dataDir (map (te_nodes env) [0..<nat (bc_nodes cfg)]) (te_polls env) of
                  (Some err, _) \<Rightarrow> Inl err
                | (None, cluster) \<Rightarrow>
                    Inr \<lparr>tg_seeds = Addrs cluster, tg_cluster = Some cluster, tg_dataDir = dataDir, tg_onDisk = True\<rparr>)))"

definition target_close :: "target_env \<Rightarrow> target \<Rightarrow> target" where
  "target_close env t =
     (case tg_cluster t of
        None \<Rightarrow> t
      | Some cluster \<Rightarrow> t\<lparr>tg_cluster := Some (LocalCluster_Close (te_down env) cluster), tg_onDisk := False\<rparr>)"

section \<open>Clients\<close>

text \<open>A client with its heartbeat loop, and what opening its session meets.\<close>

type_synonym running = "hb_loop \<times> Client"

record session_env =
  ss_start :: start_net
  ss_started :: time

type_synonym close_env = "conn \<Rightarrow> client_err option"

definition stopClient :: "close_env \<Rightarrow> Client \<Rightarrow> Client" where
  "stopClient closeConn c = fst (snd (Client_Stop closeConn c))"

text \<open>On the left, with the error, the client that was stopped, if there was one.\<close>

definition startClient :: "session_env \<Rightarrow> close_env \<Rightarrow> string list \<Rightarrow> string \<Rightarrow> duration \<Rightarrow>
    (client_err \<times> Client list + running) option" where
  "startClient env closeConn seeds owner ttl =
     (case NewClientWithSeeds seeds owner of
        Inl err \<Rightarrow> Some (Inl (err, []))
      | Inr c \<Rightarrow>
          (case startSession (ss_start env) (ss_started env) c ttl of
             None \<Rightarrow> None
           | Some (Inl err, c') \<Rightarrow> Some (Inl (ClientWrapped (''start session '' @ owner) err, [stopClient closeConn c']))
           | Some (Inr loop, c') \<Rightarrow> Some (Inr (loop, c'))))"

text \<open>An error of a scenario; \<open>errors.Join\<close> keeps a list.\<close>

datatype bench_err = BenchErr app_err | JoinErr "client_err list"

definition stopAll :: "close_env \<Rightarrow> running list \<Rightarrow> Client list" where
  "stopAll closeConn clients = map (\<lambda>(_, c). stopClient closeConn c) clients"

text \<open>
  The sessions are opened in parallel and do not share anything. The result is on the right
  if all were opened; otherwise the clients on the left are stopped.
\<close>

definition startClients :: "(nat \<Rightarrow> session_env) \<Rightarrow> close_env \<Rightarrow> string list \<Rightarrow> string \<Rightarrow> nat \<Rightarrow> nat \<Rightarrow> duration \<Rightarrow>
    (bench_err \<times> Client list + running list) option" where
  "startClients env closeConn seeds base from n ttl =
     (let results = map (\<lambda>i. startClient (env i) closeConn seeds (base @ ''-'' @ itoa (from + i)) ttl) [0..<n] in
      if None \<in> set results then None
      else
        let ended = map the results;
            errs = map (fst \<circ> projl) (filter isl ended);
            clients = map projr (filter (Not \<circ> isl) ended)
        in if errs \<noteq> [] then Some (Inl (JoinErr errs, concat (map (snd \<circ> projl) (filter isl ended)) @ stopAll closeConn clients))
           else Some (Inr clients))"

definition countLost :: "running list \<Rightarrow> nat" where
  "countLost clients = length (filter (\<lambda>(_, c). Client_Done c) clients)"

section \<open>Cycles\<close>

text \<open>\<open>Time.Sub\<close>, which saturates.\<close>

definition time_Sub :: "time \<Rightarrow> time \<Rightarrow> duration" where
  "time_Sub t u = word_of_int (max (- (2 ^ 63)) (min (2 ^ 63 - 1) (t - u)))"

record cycle_env =
  cy_before :: "hb_event list"
  cy_start :: time
  cy_call :: call_env
  cy_acquire :: acquire_net
  cy_acquired :: time
  cy_between :: "hb_event list"
  cy_rcall :: call_env
  cy_release :: "string \<Rightarrow> uint64 \<Rightarrow> nat \<Rightarrow> nat \<Rightarrow> bool net"
  cy_end :: time

definition cycle :: "cycle_env \<Rightarrow> running \<Rightarrow> string \<Rightarrow> ((client_err + duration \<times> duration) \<times> running) option" where
  "cycle env rc lockName =
     (case hbTo (cy_before env) rc of (loop, c) \<Rightarrow>
      (case Client_Acquire (cy_call env) (cy_acquire env) c lockName of
        None \<Rightarrow> None
      | Some (Inl err, c1) \<Rightarrow> Some (Inl err, loop, c1)
      | Some (Inr lock, c1) \<Rightarrow>
      (case hbTo (cy_between env) (loop, c1) of (loop', c2) \<Rightarrow>
      (case Lock_Release (cy_rcall env) (cy_release env) c2 lock of
        None \<Rightarrow> None
      | Some (Some err, c3) \<Rightarrow> Some (Inl err, loop', c3)
      | Some (None, c3) \<Rightarrow>
          Some (Inr (time_Sub (cy_acquired env) (cy_start env), time_Sub (cy_end env) (cy_acquired env)), loop', c3)))))"

text \<open>
  Cycles until a deadline: what the clock shows at each test of the loop, and the cycle that
  follows it. A list that ends before the deadline is a loop that has not ended.
\<close>

fun cycleUntil :: "time \<Rightarrow> string \<Rightarrow> (time \<times> cycle_env) list \<Rightarrow> running \<Rightarrow> ((client_err + (duration \<times> duration) list) \<times> running) option" where
  "cycleUntil till lockName [] rc = None"
| "cycleUntil till lockName ((now, env) # rest) rc =
     (if \<not> now < till then Some (Inr [], rc)
      else case cycle env rc lockName of
          None \<Rightarrow> None
        | Some (Inl err, rc') \<Rightarrow> Some (Inl err, rc')
        | Some (Inr d, rc') \<Rightarrow> map_option (map_prod (map_sum id ((#) d)) id) (cycleUntil till lockName rest rc'))"

fun warmup :: "string \<Rightarrow> cycle_env list \<Rightarrow> running \<Rightarrow> (client_err option \<times> running) option" where
  "warmup lockName [] rc = Some (None, rc)"
| "warmup lockName (env # rest) rc =
     (case cycle env rc lockName of
        None \<Rightarrow> None
      | Some (Inl err, rc') \<Rightarrow> Some (Some err, rc')
      | Some (Inr d, rc') \<Rightarrow> warmup lockName rest rc')"

definition halves :: "(duration \<times> duration) list \<Rightarrow> samples" where
  "halves ds = map (\<lambda>(acquire, release). acquire + release) ds"

end
