(* ===== verification/Bench_Scenarios.thy ===== *)
theory Bench_Scenarios
  imports Bench_Clients
begin

text \<open>
  The scenarios of \<open>clavis-bench\<close> (\<open>cmd/clavis-bench/scenarios.go\<close>) and its main program
  (\<open>main.go\<close>). A scenario comes to an error or to the lines and tables it prints, the clients
  it has stopped and the targets it has closed.
\<close>

datatype bench_said =
    CyclesLine nat
  | HandoffsLine nat nat
  | CrashLine nat
  | ExpiryLine duration duration
  | Table "cell list list"

record outcome =
  out_err :: "bench_err option"
  out_said :: "bench_said list"
  out_stopped :: "Client list"
  out_targets :: "target list"

definition failedWith :: "bench_err \<Rightarrow> Client list \<Rightarrow> target list \<Rightarrow> outcome" where
  "failedWith err clients targets = \<lparr>out_err = Some err, out_said = [], out_stopped = clients, out_targets = targets\<rparr>"

definition reported :: "bench_said list \<Rightarrow> Client list \<Rightarrow> target list \<Rightarrow> outcome" where
  "reported said clients targets = \<lparr>out_err = None, out_said = said, out_stopped = clients, out_targets = targets\<rparr>"

abbreviation callFailed :: "client_err \<Rightarrow> bench_err" where
  "callFailed err \<equiv> BenchErr (CallErr err)"

section \<open>Latency\<close>

record latency_env =
  la_target :: target_env
  la_session :: session_env
  la_warm :: "nat \<Rightarrow> cycle_env"
  la_now :: time
  la_cycles :: "(time \<times> cycle_env) list"
  la_close :: close_env

definition latencyTable :: "(duration \<times> duration) list \<Rightarrow> bench_said list" where
  "latencyTable ds =
     (let acquires = map fst ds; releases = map snd ds in
      [CyclesLine (length acquires),
       Table [[Text ''op'', Text ''p50'', Text ''p99'', Text ''max''],
              [Text ''acquire'', msCell (pct acquires 50), msCell (pct acquires 99), msCell (samples_max acquires)],
              [Text ''release'', msCell (pct releases 50), msCell (pct releases 99), msCell (samples_max releases)]]])"

definition runLatency :: "latency_env \<Rightarrow> bench_config \<Rightarrow> outcome option" where
  "runLatency env cfg =
     (case newTarget (la_target env) cfg of
        Inl err \<Rightarrow> Some (failedWith (BenchErr err) [] [])
      | Inr t \<Rightarrow>
      (let shut = [target_close (la_target env) t] in
      (case startClient (la_session env) (la_close env) (tg_seeds t) ''bench-latency'' (bc_ttl cfg) of
        None \<Rightarrow> None
      | Some (Inl (err, ended)) \<Rightarrow> Some (failedWith (callFailed err) ended shut)
      | Some (Inr rc) \<Rightarrow>
      (case warmup ''bench/latency'' (map (la_warm env) [0..<20]) rc of
        None \<Rightarrow> None
      | Some (Some err, rc') \<Rightarrow> Some (failedWith (callFailed err) (stopAll (la_close env) [rc']) shut)
      | Some (None, rc') \<Rightarrow>
      (case cycleUntil (time_add (la_now env) (bc_duration cfg)) ''bench/latency'' (la_cycles env) rc' of
        None \<Rightarrow> None
      | Some (Inl err, rc'') \<Rightarrow> Some (failedWith (callFailed err) (stopAll (la_close env) [rc'']) shut)
      | Some (Inr ds, rc'') \<Rightarrow> Some (reported (latencyTable ds) (stopAll (la_close env) [rc'']) shut))))))"

section \<open>Throughput\<close>

text \<open>
  One level: its sessions, the clock when they are open, the cycles of each worker, and the
  order in which the workers end. All workers end before the level does.
\<close>

record level_env =
  lv_sessions :: "nat \<Rightarrow> session_env"
  lv_now :: time
  lv_cycles :: "nat \<Rightarrow> (time \<times> cycle_env) list"
  lv_order :: "nat list"
  lv_close :: close_env

definition throughputLevel :: "level_env \<Rightarrow> string list \<Rightarrow> bench_config \<Rightarrow> nat \<Rightarrow> ((bench_err + cell list) \<times> Client list) option" where
  "throughputLevel env seeds cfg n =
     (case startClients (lv_sessions env) (lv_close env) seeds ''bench-throughput'' 0 n (bc_ttl cfg) of
        None \<Rightarrow> None
      | Some (Inl (err, ended)) \<Rightarrow> Some (Inl err, ended)
      | Some (Inr clients) \<Rightarrow>
      (let deadline = time_add (lv_now env) (bc_duration cfg);
          runs = map (\<lambda>i. cycleUntil deadline (''bench/throughput/'' @ itoa i) (lv_cycles env i) (clients ! i)) [0..<n] in
      if None \<in> set runs \<or> mset (lv_order env) \<noteq> mset [0..<n] then None
      else
        let results = map (\<lambda>i. fst (the (runs ! i))) (lv_order env);
            ended = stopAll (lv_close env) (map (snd \<circ> the) runs);
            cycles = concat (map (halves \<circ> projr) (filter (Not \<circ> isl) results))
        in case filter isl results of
             err # _ \<Rightarrow> Some (Inl (callFailed (projl err)), ended)
           | [] \<Rightarrow> Some (Inr [Count (int n), rateCell (float64 (of_nat (length cycles))) (bc_duration cfg),
                    msCell (pct cycles 50), msCell (pct cycles 99)], ended)))"

fun throughputLevels :: "(nat \<Rightarrow> level_env) \<Rightarrow> string list \<Rightarrow> bench_config \<Rightarrow> nat \<Rightarrow> int list \<Rightarrow>
    ((bench_err + cell list list) \<times> Client list) option" where
  "throughputLevels env seeds cfg k [] = Some (Inr [], [])"
| "throughputLevels env seeds cfg k (n # ns) =
     (if n = 0 then throughputLevels env seeds cfg (Suc k) ns
      else case throughputLevel (env k) seeds cfg (nat n) of
          None \<Rightarrow> None
        | Some (Inl err, ended) \<Rightarrow> Some (Inl err, ended)
        | Some (Inr row, ended) \<Rightarrow>
            map_option (map_prod (map_sum id ((#) row)) ((@) ended)) (throughputLevels env seeds cfg (Suc k) ns))"

definition runThroughput :: "target_env \<Rightarrow> (nat \<Rightarrow> level_env) \<Rightarrow> bench_config \<Rightarrow> outcome option" where
  "runThroughput tenv env cfg =
     (case newTarget tenv cfg of
        Inl err \<Rightarrow> Some (failedWith (BenchErr err) [] [])
      | Inr t \<Rightarrow>
          (case throughputLevels env (tg_seeds t) cfg 0 (bc_clients cfg) of
             None \<Rightarrow> None
           | Some (Inl err, ended) \<Rightarrow> Some (failedWith err ended [target_close tenv t])
           | Some (Inr rows, ended) \<Rightarrow>
               Some (reported [Table ([Text ''clients'', Text ''cycles/s'', Text ''p50 cycle'', Text ''p99 cycle''] # rows)]
                 ended [target_close tenv t])))"

section \<open>Handoff\<close>

text \<open>
  The contenders share, under one mutex, the instant of the last release, the handoffs and
  the wins. An event is a step of one contender: its loop finds the run over, its wait
  returns and it passes the mutex, or its release returns.
\<close>

datatype contender = Asking | Holding ClientLock | Finished

datatype handoff_event =
    RunOver nat
  | WaitReturns nat "hb_event list" "ask list" bool time time
  | ReleaseReturns nat "hb_event list" call_env "string \<Rightarrow> uint64 \<Rightarrow> nat \<Rightarrow> nat \<Rightarrow> bool net"

record handoff_state =
  hs_clients :: "running list"
  hs_phases :: "contender list"
  hs_lastRelease :: time
  hs_handoffs :: samples
  hs_wins :: "nat list"
  hs_errs :: "client_err list"

definition handoffStart :: "running list \<Rightarrow> handoff_state" where
  "handoffStart clients = \<lparr>hs_clients = clients, hs_phases = replicate (length clients) Asking, hs_lastRelease = zero_time,
     hs_handoffs = [], hs_wins = replicate (length clients) 0, hs_errs = []\<rparr>"

definition phaseOf :: "handoff_state \<Rightarrow> nat \<Rightarrow> contender" where
  "phaseOf s i = (if i < length (hs_phases s) then hs_phases s ! i else Finished)"

definition moved :: "nat \<Rightarrow> running \<Rightarrow> contender \<Rightarrow> handoff_state \<Rightarrow> handoff_state" where
  "moved i rc ph s = s\<lparr>hs_clients := (hs_clients s)[i := rc], hs_phases := (hs_phases s)[i := ph]\<rparr>"

text \<open>The critical section of a contender that has the lock: the clock is read twice in it.\<close>

definition wins :: "nat \<Rightarrow> time \<Rightarrow> time \<Rightarrow> handoff_state \<Rightarrow> handoff_state" where
  "wins i now now' s =
     s\<lparr>hs_handoffs := (if is_zero (hs_lastRelease s) then hs_handoffs s
                       else hs_handoffs s @ [time_Sub now (hs_lastRelease s)]),
       hs_wins := (hs_wins s)[i := hs_wins s ! i + 1],
       hs_lastRelease := now'\<rparr>"

fun handoffStep :: "handoff_state \<Rightarrow> handoff_event \<Rightarrow> handoff_state option" where
  "handoffStep s (RunOver i) =
     (if phaseOf s i = Asking then Some (moved i (hs_clients s ! i) Finished s) else None)"
| "handoffStep s (WaitReturns i before asks over now now') =
     (if phaseOf s i \<noteq> Asking then None
      else case hbTo before (hs_clients s ! i) of (loop, c) \<Rightarrow>
        (case WaitAcquire asks c ''bench/handoff'' of
          None \<Rightarrow> None
        | Some (Inl err, c') \<Rightarrow>
            Some (moved i (loop, c') Finished (s\<lparr>hs_errs := hs_errs s @ (if over then [] else [err])\<rparr>))
        | Some (Inr lock, c') \<Rightarrow> Some (moved i (loop, c') (Holding lock) (wins i now now' s))))"
| "handoffStep s (ReleaseReturns i before env net) =
     (case phaseOf s i of
        Holding lock \<Rightarrow>
          (case hbTo before (hs_clients s ! i) of (loop, c) \<Rightarrow>
             (case Lock_Release env net c lock of
               None \<Rightarrow> None
             | Some (Some err, c') \<Rightarrow> Some (moved i (loop, c') Finished (s\<lparr>hs_errs := hs_errs s @ [err]\<rparr>))
             | Some (None, c') \<Rightarrow> Some (moved i (loop, c') Asking s)))
      | _ \<Rightarrow> None)"

record handoff_env =
  ho_target :: target_env
  ho_sessions :: "nat \<Rightarrow> session_env"
  ho_events :: "handoff_event list"
  ho_close :: close_env

definition handoffTable :: "handoff_state \<Rightarrow> bench_said list" where
  "handoffTable s =
     [HandoffsLine (length (hs_handoffs s)) 4,
      Table [[Text ''p50'', Text ''p99'', Text ''max'', Text ''fewest wins'', Text ''most wins''],
             [msCell (pct (hs_handoffs s) 50), msCell (pct (hs_handoffs s) 99), msCell (samples_max (hs_handoffs s)),
              Count (int (Min (set (hs_wins s)))), Count (int (Max (set (hs_wins s))))]]]"

definition runHandoff :: "handoff_env \<Rightarrow> bench_config \<Rightarrow> outcome option" where
  "runHandoff env cfg =
     (case newTarget (ho_target env) cfg of
        Inl err \<Rightarrow> Some (failedWith (BenchErr err) [] [])
      | Inr t \<Rightarrow>
      (let shut = [target_close (ho_target env) t] in
      (case startClients (ho_sessions env) (ho_close env) (tg_seeds t) ''bench-handoff'' 0 4 (bc_ttl cfg) of
        None \<Rightarrow> None
      | Some (Inl (err, ended)) \<Rightarrow> Some (failedWith err ended shut)
      | Some (Inr clients) \<Rightarrow>
      (case run_opt handoffStep (handoffStart clients) (ho_events env) of
        None \<Rightarrow> None
      | Some s \<Rightarrow>
          if \<not> list_all ((=) Finished) (hs_phases s) then None
          else (case hs_errs s of
                  err # _ \<Rightarrow> Some (failedWith (callFailed err) (stopAll (ho_close env) (hs_clients s)) shut)
                | [] \<Rightarrow> Some (reported (handoffTable s) (stopAll (ho_close env) (hs_clients s)) shut))))))"

section \<open>Sessions\<close>

record idle_env =
  il_sessions :: "nat \<Rightarrow> session_env"
  il_now :: time
  il_cycles :: "(time \<times> cycle_env) list"
  il_beats :: "nat \<Rightarrow> hb_event list"

text \<open>
  The levels in turn: the sessions that are missing are opened, the probe cycles until the
  deadline, and the sessions that have failed by then are counted. The result has the rows
  so far, the probe, the idle clients, and the clients stopped because others did not start.
\<close>

fun sessionLevels :: "(nat \<Rightarrow> idle_env) \<Rightarrow> close_env \<Rightarrow> string list \<Rightarrow> bench_config \<Rightarrow> nat \<Rightarrow> int list \<Rightarrow> running \<Rightarrow> running list \<Rightarrow>
    ((bench_err + cell list list) \<times> running \<times> running list \<times> Client list) option" where
  "sessionLevels env closeConn seeds cfg k [] probe idle = Some (Inr [], probe, idle, [])"
| "sessionLevels env closeConn seeds cfg k (level # levels) probe idle =
     (case (if level - int (length idle) > 0
            then startClients (il_sessions (env k)) closeConn seeds ''bench-idle'' (length idle) (nat (level - int (length idle))) (bc_ttl cfg)
            else Some (Inr [])) of
        None \<Rightarrow> None
      | Some (Inl (err, ended)) \<Rightarrow> Some (Inl err, probe, idle, ended)
      | Some (Inr started) \<Rightarrow>
      (case cycleUntil (time_add (il_now (env k)) (bc_duration cfg)) ''bench/sessions'' (il_cycles (env k)) probe of
        None \<Rightarrow> None
      | Some (Inl err, probe') \<Rightarrow> Some (Inl (callFailed err), probe', idle @ started, [])
      | Some (Inr ds, probe') \<Rightarrow>
      (let cycles = halves ds;
          idle' = map (\<lambda>i. hbTo (il_beats (env k) i) ((idle @ started) ! i)) [0..<length (idle @ started)];
          row = [Count level, rateCell (float64 (float64 (of_int level) * 3)) (bc_ttl cfg), msCell (pct cycles 50), msCell (pct cycles 99),
                 Count (int (countLost idle'))]
      in map_option (map_prod (map_sum id ((#) row)) id) (sessionLevels env closeConn seeds cfg (Suc k) levels probe' idle'))))"

record sessions_env =
  se_target :: target_env
  se_probe :: session_env
  se_levels :: "nat \<Rightarrow> idle_env"
  se_close :: close_env

definition runSessions :: "sessions_env \<Rightarrow> bench_config \<Rightarrow> outcome option" where
  "runSessions env cfg =
     (case newTarget (se_target env) cfg of
        Inl err \<Rightarrow> Some (failedWith (BenchErr err) [] [])
      | Inr t \<Rightarrow>
      (let shut = [target_close (se_target env) t] in
      (case startClient (se_probe env) (se_close env) (tg_seeds t) ''bench-sessions-probe'' (bc_ttl cfg) of
        None \<Rightarrow> None
      | Some (Inl (err, ended)) \<Rightarrow> Some (failedWith (callFailed err) ended shut)
      | Some (Inr probe) \<Rightarrow>
      (case sessionLevels (se_levels env) (se_close env) (tg_seeds t) cfg 0 (sort (bc_sessions cfg)) probe [] of
        None \<Rightarrow> None
      | Some (Inl err, probe', idle, ended) \<Rightarrow> Some (failedWith err (ended @ stopAll (se_close env) (probe' # idle)) shut)
      | Some (Inr rows, probe', idle, ended) \<Rightarrow>
          Some (reported [Table ([Text ''idle sessions'', Text ''heartbeats/s'', Text ''p50 cycle'', Text ''p99 cycle'', Text ''sessions lost''] # rows)]
            (ended @ stopAll (se_close env) (probe' # idle)) shut)))))"

section \<open>Failover\<close>

text \<open>One pass of a worker's loop: whether the run is over, its cycle, and the clock after it.\<close>

record failover_pass =
  fp_over :: bool
  fp_cycle :: cycle_env
  fp_now :: time

fun failoverWorker :: "string \<Rightarrow> failover_pass list \<Rightarrow> running \<Rightarrow> (time list \<times> running) option" where
  "failoverWorker lockName [] rc = None"
| "failoverWorker lockName (p # ps) rc =
     (if fp_over p then Some ([], rc)
      else
        (case cycle (fp_cycle p) rc lockName of
           None \<Rightarrow> None
         | Some (Inr d, rc') \<Rightarrow> map_option (map_prod ((#) (fp_now p)) id) (failoverWorker lockName ps rc')
         | Some (Inl err, rc') \<Rightarrow>
             if client_Is err ErrLeaseUnavailable then Some ([], rc') else failoverWorker lockName ps rc'))"

text \<open>\<open>slices.BinarySearchFunc\<close>: the first position whose element is not before the target.\<close>

function searchFrom :: "time list \<Rightarrow> time \<Rightarrow> nat \<Rightarrow> nat \<Rightarrow> nat" where
  "searchFrom xs target i j =
     (if i < j then
        (let h = (i + j) div 2
         in if xs ! h < target then searchFrom xs target (h + 1) j else searchFrom xs target i h)
      else i)"
  by pat_completeness auto

termination
  by (relation "measure (\<lambda>(xs, target, i, j). j - i)") (auto simp: Let_def)

declare searchFrom.simps [simp del]

definition BinarySearchFunc :: "time list \<Rightarrow> time \<Rightarrow> nat" where
  "BinarySearchFunc xs target = searchFrom xs target 0 (length xs)"

fun recoveries :: "time \<Rightarrow> time list list \<Rightarrow> samples" where
  "recoveries crashAt [] = []"
| "recoveries crashAt (ts # rest) =
     (let i = BinarySearchFunc ts crashAt
      in if i < length ts then time_Sub (ts ! i) crashAt # recoveries crashAt rest else recoveries crashAt rest)"

record crash_round =
  cr_target :: target_env
  cr_sessions :: "nat \<Rightarrow> session_env"
  cr_polls :: "poll list list"
  cr_passes :: "nat \<Rightarrow> failover_pass list"
  cr_crashAt :: time
  cr_down :: "goerr option"
  cr_polls2 :: "poll list list"
  cr_elected :: time
  cr_beats :: "nat \<Rightarrow> hb_event list"
  cr_close :: close_env

text \<open>
  After the second election: the workers run on until the round is over, then the recoveries
  and the lost sessions are counted.
\<close>

definition crashRow :: "crash_round \<Rightarrow> nat \<Rightarrow> running list \<Rightarrow> (cell list \<times> Client list) option" where
  "crashRow env k clients =
     (let runs = map (\<lambda>i. failoverWorker (''bench/failover/'' @ itoa i) (cr_passes env i) (clients ! i)) [0..<8] in
      if None \<in> set runs then None
      else
        (let clients' = map (\<lambda>i. hbTo (cr_beats env i) (snd (the (runs ! i)))) [0..<8];
             rec = recoveries (cr_crashAt env) (map (fst \<circ> the) runs)
         in Some ([Count (int k), msCell (time_Sub (cr_elected env) (cr_crashAt env)), msCell (pct rec 50), msCell (samples_max rec),
                   OutOf (countLost clients') 8],
                  stopAll (cr_close env) clients')))"

text \<open>A round; without a cluster of its own there is a nil cluster to wait for.\<close>

definition crashRound :: "crash_round \<Rightarrow> bench_config \<Rightarrow> nat \<Rightarrow> ((bench_err + cell list) \<times> Client list \<times> target list) option go" where
  "crashRound env cfg k =
     (case newTarget (cr_target env) cfg of
        Inl err \<Rightarrow> Ret (Some (Inl (BenchErr err), [], []))
      | Inr t \<Rightarrow>
      (case startClients (cr_sessions env) (cr_close env) (tg_seeds t) ''bench-failover'' 0 8 (bc_ttl cfg) of
         None \<Rightarrow> Ret None
       | Some (Inl (err, ended)) \<Rightarrow> Ret (Some (Inl err, ended, [target_close (cr_target env) t]))
       | Some (Inr clients) \<Rightarrow>
      (case tg_cluster t of
         None \<Rightarrow> Panic
       | Some cluster \<Rightarrow>
      (case LocalCluster_WaitForLeader (cr_polls env) cluster of
         Inl err \<Rightarrow> Ret (Some (Inl (BenchErr (NodeErr err)), [], [target_close (cr_target env) t]))
       | Inr leader \<Rightarrow>
      (case LocalCluster_StopNode (cr_down env) cluster leader of
         Panic \<Rightarrow> Panic
       | Ret (Some err, cluster') \<Rightarrow>
           Ret (Some (Inl (BenchErr (NodeErr err)), [], [target_close (cr_target env) (t\<lparr>tg_cluster := Some cluster'\<rparr>)]))
       | Ret (None, cluster') \<Rightarrow>
      (case LocalCluster_WaitForLeader (cr_polls2 env) cluster' of
         Inl err \<Rightarrow> Ret (Some (Inl (BenchErr (NodeErr err)), [], [target_close (cr_target env) (t\<lparr>tg_cluster := Some cluster'\<rparr>)]))
       | Inr newLeader \<Rightarrow>
           Ret (case crashRow env k clients of
                  None \<Rightarrow> None
                | Some (row, ended) \<Rightarrow>
                    Some (Inr row, ended, [target_close (cr_target env) (t\<lparr>tg_cluster := Some cluster'\<rparr>)]))))))))"

fun crashRounds :: "(nat \<Rightarrow> crash_round) \<Rightarrow> bench_config \<Rightarrow> nat list \<Rightarrow> ((bench_err + cell list list) \<times> Client list \<times> target list) option go" where
  "crashRounds env cfg [] = Ret (Some (Inr [], [], []))"
| "crashRounds env cfg (k # ks) =
     (case crashRound (env k) cfg k of
        Panic \<Rightarrow> Panic
      | Ret None \<Rightarrow> Ret None
      | Ret (Some (Inl err, ended, shut)) \<Rightarrow> Ret (Some (Inl err, ended, shut))
      | Ret (Some (Inr row, ended, shut)) \<Rightarrow>
          (case crashRounds env cfg ks of
             Panic \<Rightarrow> Panic
           | Ret None \<Rightarrow> Ret None
           | Ret (Some (rows, ended', shut')) \<Rightarrow> Ret (Some (map_sum id ((#) row) rows, ended @ ended', shut @ shut'))))"

definition runFailover :: "(nat \<Rightarrow> crash_round) \<Rightarrow> bench_config \<Rightarrow> outcome option go" where
  "runFailover env cfg =
     (case crashRounds env cfg [1..<Suc (nat (bc_rounds cfg))] of
        Panic \<Rightarrow> Panic
      | Ret None \<Rightarrow> Ret None
      | Ret (Some (Inl err, ended, shut)) \<Rightarrow> Ret (Some (failedWith err ended shut))
      | Ret (Some (Inr rows, ended, shut)) \<Rightarrow>
          Ret (Some (reported [CrashLine 8,
            Table ([Text ''round'', Text ''election'', Text ''p50 recovery'', Text ''max recovery'', Text ''sessions lost''] # rows)] ended shut)))"

section \<open>Handover\<close>

record handover_round =
  hv_holder :: session_env
  hv_before :: "hb_event list"
  hv_call :: call_env
  hv_acquire :: acquire_net
  hv_waiter :: session_env
  hv_waits :: "hb_event list"
  hv_asks :: "ask list"
  hv_beats :: "hb_event list"
  hv_crashAt :: time
  hv_acquired :: time
  hv_close :: close_env

text \<open>
  A round: the holder takes the lock and is stopped while the waiter waits. The holder and
  the waiter of a round that fails are not stopped.
\<close>

definition handoverRound :: "handover_round \<Rightarrow> string list \<Rightarrow> nat \<Rightarrow> ((client_err + duration) \<times> Client list) option" where
  "handoverRound env seeds k =
     (case startClient (hv_holder env) (hv_close env) seeds (''bench-holder-'' @ itoa k) (3 * second) of
        None \<Rightarrow> None
      | Some (Inl (err, ended)) \<Rightarrow> Some (Inl err, ended)
      | Some (Inr holder) \<Rightarrow>
      (case hbTo (hv_before env) holder of (loop, c) \<Rightarrow>
      (case Client_Acquire (hv_call env) (hv_acquire env) c (''bench/handover/'' @ itoa k) of
         None \<Rightarrow> None
       | Some (Inl err, c') \<Rightarrow> Some (Inl err, [])
       | Some (Inr lock, c') \<Rightarrow>
      (case startClient (hv_waiter env) (hv_close env) seeds (''bench-waiter-'' @ itoa k) (3 * second) of
         None \<Rightarrow> None
       | Some (Inl (err, ended)) \<Rightarrow> Some (Inl err, ended)
       | Some (Inr waiter) \<Rightarrow>
      (let stoppedHolder = stopAll (hv_close env) [hbTo (hv_beats env) (loop, c')] in
      (case WaitAcquire (hv_asks env) (snd (hbTo (hv_waits env) waiter)) (''bench/handover/'' @ itoa k) of
         None \<Rightarrow> None
       | Some (Inl err, w) \<Rightarrow> Some (Inl (ClientWrapped ''waiter never acquired the lock'' err), stoppedHolder)
       | Some (Inr lock', w) \<Rightarrow>
           Some (Inr (time_Sub (hv_acquired env) (hv_crashAt env)), stoppedHolder @ [stopClient (hv_close env) w])))))))"

fun handoverRounds :: "(nat \<Rightarrow> handover_round) \<Rightarrow> string list \<Rightarrow> nat list \<Rightarrow> ((client_err + samples) \<times> Client list) option" where
  "handoverRounds env seeds [] = Some (Inr [], [])"
| "handoverRounds env seeds (k # ks) =
     (case handoverRound (env k) seeds k of
        None \<Rightarrow> None
      | Some (Inl err, ended) \<Rightarrow> Some (Inl err, ended)
      | Some (Inr d, ended) \<Rightarrow> map_option (map_prod (map_sum id ((#) d)) ((@) ended)) (handoverRounds env seeds ks))"

definition runHandover :: "target_env \<Rightarrow> (nat \<Rightarrow> handover_round) \<Rightarrow> bench_config \<Rightarrow> outcome option" where
  "runHandover tenv env cfg =
     (case newTarget tenv cfg of
        Inl err \<Rightarrow> Some (failedWith (BenchErr err) [] [])
      | Inr t \<Rightarrow>
      (case handoverRounds env (tg_seeds t) [0..<nat (bc_rounds cfg)] of
         None \<Rightarrow> None
       | Some (Inl err, ended) \<Rightarrow> Some (failedWith (callFailed err) ended [target_close tenv t])
       | Some (Inr handovers, ended) \<Rightarrow>
           Some (reported [ExpiryLine (go_div (3 * second * 2) 3) (3 * second),
             Table [[Text ''rounds'', Text ''min'', Text ''p50'', Text ''max''],
                    [Count (bc_rounds cfg), msCell (samples_min handovers), msCell (pct handovers 50), msCell (samples_max handovers)]]]
             ended [target_close tenv t])))"

section \<open>The main program\<close>

datatype bench_run = RunLatency | RunThroughput | RunHandoff | RunSessions | RunFailover | RunHandover

record scenario =
  sc_name :: string
  sc_inProcessOnly :: bool
  sc_run :: bench_run

definition scenarios :: "scenario list" where
  "scenarios =
     [\<lparr>sc_name = ''latency'', sc_inProcessOnly = False, sc_run = RunLatency\<rparr>,
      \<lparr>sc_name = ''throughput'', sc_inProcessOnly = False, sc_run = RunThroughput\<rparr>,
      \<lparr>sc_name = ''handoff'', sc_inProcessOnly = False, sc_run = RunHandoff\<rparr>,
      \<lparr>sc_name = ''sessions'', sc_inProcessOnly = False, sc_run = RunSessions\<rparr>,
      \<lparr>sc_name = ''failover'', sc_inProcessOnly = True, sc_run = RunFailover\<rparr>,
      \<lparr>sc_name = ''handover'', sc_inProcessOnly = False, sc_run = RunHandover\<rparr>]"

fun findIn :: "string \<Rightarrow> scenario list \<Rightarrow> scenario option" where
  "findIn name [] = None"
| "findIn name (s # rest) = (if sc_name s = name then Some s else findIn name rest)"

definition findScenario :: "string \<Rightarrow> scenario option" where
  "findScenario name = findIn name scenarios"

record scenario_env =
  sv_latency :: latency_env
  sv_target :: target_env
  sv_throughput :: "nat \<Rightarrow> level_env"
  sv_handoff :: handoff_env
  sv_sessions :: sessions_env
  sv_failover :: "nat \<Rightarrow> crash_round"
  sv_handover :: "nat \<Rightarrow> handover_round"

fun runScenario :: "scenario_env \<Rightarrow> bench_config \<Rightarrow> bench_run \<Rightarrow> outcome option go" where
  "runScenario env cfg RunLatency = Ret (runLatency (sv_latency env) cfg)"
| "runScenario env cfg RunThroughput = Ret (runThroughput (sv_target env) (sv_throughput env) cfg)"
| "runScenario env cfg RunHandoff = Ret (runHandoff (sv_handoff env) cfg)"
| "runScenario env cfg RunSessions = Ret (runSessions (sv_sessions env) cfg)"
| "runScenario env cfg RunFailover = runFailover (sv_failover env) cfg"
| "runScenario env cfg RunHandover = Ret (runHandover (sv_target env) (sv_handover env) cfg)"

record bench_flags =
  bf_seeds :: string
  bf_nodes :: int
  bf_duration :: duration
  bf_ttl :: duration
  bf_rounds :: int
  bf_clients :: string
  bf_sessions :: string
  bf_args :: "string list"

text \<open>How the program ends: exit status 2 before anything ran, 1 at the scenario that failed, or 0.\<close>

datatype bench_exit = BadCount | UnknownScenario string | ScenarioFailed string bench_err | BenchDone

datatype ran = Skipped string | Ran string outcome

fun selectScenarios :: "string list \<Rightarrow> string + scenario list" where
  "selectScenarios [] = Inr []"
| "selectScenarios (name # names) =
     (case findScenario name of
        None \<Rightarrow> Inl name
      | Some s \<Rightarrow> map_sum id ((#) s) (selectScenarios names))"

fun runAll :: "(nat \<Rightarrow> scenario_env) \<Rightarrow> bench_config \<Rightarrow> nat \<Rightarrow> scenario list \<Rightarrow> (bench_exit \<times> ran list) option go" where
  "runAll env cfg k [] = Ret (Some (BenchDone, []))"
| "runAll env cfg k (s # rest) =
     (if sc_inProcessOnly s \<and> bc_seeds cfg \<noteq> None
      then map_go (map_option (map_prod id ((#) (Skipped (sc_name s))))) (runAll env cfg (Suc k) rest)
      else
        (case runScenario (env k) cfg (sc_run s) of
           Panic \<Rightarrow> Panic
         | Ret None \<Rightarrow> Ret None
         | Ret (Some out) \<Rightarrow>
             (case out_err out of
                Some err \<Rightarrow> Ret (Some (ScenarioFailed (sc_name s) err, [Ran (sc_name s) out]))
              | None \<Rightarrow> map_go (map_option (map_prod id ((#) (Ran (sc_name s) out)))) (runAll env cfg (Suc k) rest))))"

definition benchConfig :: "bench_flags \<Rightarrow> int list \<Rightarrow> int list \<Rightarrow> bench_config" where
  "benchConfig fl clients sessions =
     \<lparr>bc_seeds = (if bf_seeds fl \<noteq> [] then Some (splitComma (bf_seeds fl)) else None), bc_nodes = bf_nodes fl,
      bc_duration = bf_duration fl, bc_ttl = bf_ttl fl, bc_rounds = bf_rounds fl, bc_clients = clients, bc_sessions = sessions\<rparr>"

definition bench_main :: "(nat \<Rightarrow> scenario_env) \<Rightarrow> bench_flags \<Rightarrow> (bench_exit \<times> ran list) option go" where
  "bench_main env fl =
     (case parseInts (bf_clients fl) of
        None \<Rightarrow> Ret (Some (BadCount, []))
      | Some clients \<Rightarrow>
      (case parseInts (bf_sessions fl) of
         None \<Rightarrow> Ret (Some (BadCount, []))
       | Some sessions \<Rightarrow>
      (case (if bf_args fl = [] then Inr scenarios else selectScenarios (bf_args fl)) of
         Inl name \<Rightarrow> Ret (Some (UnknownScenario name, []))
       | Inr selected \<Rightarrow> runAll env (benchConfig fl clients sessions) 0 selected)))"

end
