(* ===== verification/Bench_Properties.thy ===== *)
theory Bench_Properties
  imports Bench_Scenarios
begin

text \<open>
  What \<open>clavis-bench\<close> does right: it runs the scenarios it was asked for, a scenario closes
  its cluster and stops its clients, and what it counts is what happened.
\<close>

section \<open>Targets are closed, clients are stopped\<close>

definition target_closed :: "target \<Rightarrow> bool" where
  "target_closed t \<longleftrightarrow> \<not> tg_onDisk t \<and>
     (case tg_cluster t of None \<Rightarrow> True | Some c \<Rightarrow> \<forall>rt \<in> set (lc_runtimes c). rt_isStopped rt)"

lemma close_newTarget: "newTarget env cfg = Inr t \<Longrightarrow> target_closed (target_close env' t)"
  by (auto simp: newTarget_def target_close_def target_closed_def Close_stops split: option.splits sum.splits prod.splits)

lemma close_crashed [simp]: "target_closed (target_close env (t\<lparr>tg_cluster := Some c\<rparr>))"
  by (simp add: target_close_def target_closed_def Close_stops)

lemma stopClient_done [simp]: "Client_Done (stopClient closeConn c)"
  by (simp add: stopClient_def Client_Stop_def Client_Done_def session_stop_def runCancel_def Let_def split: prod.splits option.splits)

lemma stopAll_done [simp]: "list_all Client_Done (stopAll closeConn clients)" "length (stopAll closeConn clients) = length clients"
  by (auto simp: stopAll_def list_all_iff)

lemma startClient_left: "startClient env closeConn seeds owner ttl = Some (Inl (err, ended)) \<Longrightarrow> list_all Client_Done ended"
  by (auto simp: startClient_def split: sum.splits option.splits prod.splits)

text \<open>
  The sessions of \<open>startClients\<close> are all opened or all stopped, and those that are opened have
  the owners they should.
\<close>

lemma startClient_owner: "startClient env closeConn seeds owner ttl = Some (Inr rc) \<Longrightarrow> c_ownerID (snd rc) = owner"
  by (auto simp: startClient_def dest!: NewClient_owner startSession_owner split: sum.splits option.splits prod.splits)

lemma startClients_all:
  assumes "startClients env closeConn seeds base from n ttl = Some (Inr clients)"
  shows "length clients = n \<and> (\<forall>i < n. startClient (env i) closeConn seeds (base @ ''-'' @ itoa (from + i)) ttl = Some (Inr (clients ! i)))"
proof -
  define rs where "rs = map (\<lambda>i. startClient (env i) closeConn seeds (base @ ''-'' @ itoa (from + i)) ttl) [0..<n]"
  have none: "None \<notin> set rs" and errs: "filter isl (map the rs) = []" and cs: "clients = map projr (filter (Not \<circ> isl) (map the rs))"
    using assms unfolding startClients_def Let_def rs_def by (auto split: if_splits)
  have all: "\<not> isl (the r)" "r \<noteq> None" if "r \<in> set rs" for r
  proof -
    show "\<not> isl (the r)" using errs that by (auto simp: filter_empty_conv)
    show "r \<noteq> None" using none that by metis
  qed
  then have "filter (Not \<circ> isl) (map the rs) = map the rs" by (simp add: filter_id_conv)
  then have cs': "clients = map (projr \<circ> the) rs" using cs by simp
  have "rs ! i = Some (Inr (clients ! i))" if "i < n" for i
    using all [of "rs ! i"] that by (cases "rs ! i"; cases "the (rs ! i)") (auto simp: cs' rs_def)
  then show ?thesis by (simp add: cs' rs_def)
qed

lemma startClients_none:
  assumes "startClients env closeConn seeds base from n ttl = Some (Inl (err, ended))"
  shows "list_all Client_Done ended"
proof -
  define rs where "rs = map (\<lambda>i. startClient (env i) closeConn seeds (base @ ''-'' @ itoa (from + i)) ttl) [0..<n]"
  have none: "None \<notin> set rs"
    and ended: "\<exists>cs. ended = concat (map (snd \<circ> projl) (filter isl (map the rs))) @ stopAll closeConn cs"
    using assms unfolding startClients_def Let_def rs_def by (auto split: if_splits)
  have "list_all Client_Done (snd (projl (the r)))" if r: "r \<in> set rs" "isl (the r)" for r
  proof -
    have "r \<noteq> None" using r(1) none by metis
    then obtain x where "r = Some (Inl x)" using r(2) by (auto simp: isl_def)
    then show ?thesis using r(1) by (cases x) (auto simp: rs_def dest: startClient_left [OF sym])
  qed
  then show ?thesis using ended by (auto simp: list_all_iff stopAll_def)
qed

text \<open>A tidy outcome; one without an error has stopped \<open>n\<close> clients and closed \<open>m\<close> targets.\<close>

definition tidy :: "nat \<Rightarrow> nat \<Rightarrow> outcome \<Rightarrow> bool" where
  "tidy n m out \<longleftrightarrow> list_all target_closed (out_targets out) \<and> list_all Client_Done (out_stopped out) \<and>
     (out_err out = None \<longrightarrow> length (out_stopped out) = n \<and> length (out_targets out) = m)"

lemma tidy_failed [simp]: "tidy n m (failedWith err ended shut) \<longleftrightarrow> list_all target_closed shut \<and> list_all Client_Done ended"
  by (simp add: tidy_def failedWith_def)

lemma tidy_reported [simp]: "tidy n m (reported said ended shut) \<longleftrightarrow>
    list_all target_closed shut \<and> list_all Client_Done ended \<and> length ended = n \<and> length shut = m"
  by (auto simp: tidy_def reported_def)

lemma runLatency_tidy: "runLatency env cfg = Some out \<Longrightarrow> tidy 1 1 out"
  by (auto simp: runLatency_def Let_def close_newTarget dest: startClient_left split: sum.splits option.splits prod.splits)

lemma throughputLevel_tidy:
  assumes "throughputLevel env seeds cfg n = Some (r, ended)"
  shows "list_all Client_Done ended \<and> (\<not> isl r \<longrightarrow> length ended = n)"
  using assms by (auto simp: throughputLevel_def Let_def dest: startClients_none split: option.splits sum.splits prod.splits if_splits list.splits)

lemma throughputLevels_tidy:
  "throughputLevels env seeds cfg k ns = Some (r, ended) \<Longrightarrow>
     list_all Client_Done ended \<and> (\<not> isl r \<longrightarrow> length ended = sum_list (map nat ns))"
proof (induction ns arbitrary: k r ended)
  case (Cons n ns)
  show ?case
  proof (cases "n = 0")
    case False
    then obtain r1 e1 where l: "throughputLevel (env k) seeds cfg (nat n) = Some (r1, e1)"
      using Cons.prems by (auto split: option.splits)
    note one = throughputLevel_tidy [OF l]
    show ?thesis
    proof (cases r1)
      case (Inl err)
      then show ?thesis using Cons.prems False l one by auto
    next
      case (Inr row)
      then obtain r2 e2 where "throughputLevels env seeds cfg (Suc k) ns = Some (r2, e2)" "r = map_sum id ((#) row) r2" "ended = e1 @ e2"
        using Cons.prems False l by auto
      then show ?thesis using Cons.IH [of "Suc k" r2 e2] one Inr by (cases r2) auto
    qed
  qed (use Cons in simp)
qed simp

lemma runThroughput_tidy: "runThroughput tenv env cfg = Some out \<Longrightarrow> tidy (sum_list (map nat (bc_clients cfg))) 1 out"
  by (auto simp: runThroughput_def close_newTarget dest: throughputLevels_tidy split: sum.splits option.splits prod.splits)

text \<open>What every step keeps holds after a run.\<close>

lemma run_opt_keeps:
  assumes "run_opt step s es = Some s'" and "P s"
    and "\<And>s e s'. e \<in> set es \<Longrightarrow> P s \<Longrightarrow> step s e = Some s' \<Longrightarrow> P s'"
  shows "P s'"
  using assms
proof (induction es arbitrary: s)
  case (Cons e es)
  from Cons.prems obtain t where t: "step s e = Some t" "run_opt step t es = Some s'" by (auto split: option.splits)
  show ?case by (rule Cons.IH [OF t(2)]) (use Cons.prems t(1) in auto)
qed simp

lemma handoffStep_clients: "handoffStep s e = Some s' \<Longrightarrow> length (hs_clients s') = length (hs_clients s)"
  by (cases "(s, e)" rule: handoffStep.cases)
    (auto simp: moved_def wins_def split: if_splits option.splits sum.splits prod.splits contender.splits)

lemma runHandoff_tidy:
  assumes "runHandoff env cfg = Some out"
  shows "tidy 4 1 out"
proof -
  have "length (hs_clients s) = n" if "run_opt handoffStep (handoffStart clients) evs = Some s" "length clients = n" for s clients evs n
    by (rule run_opt_keeps [OF that(1), of "\<lambda>s. length (hs_clients s) = n"])
      (use that(2) handoffStep_clients in \<open>auto simp: handoffStart_def\<close>)
  then show ?thesis
    using assms by (auto simp: runHandoff_def Let_def close_newTarget dest: startClients_none startClients_all
        split: sum.splits option.splits prod.splits if_splits list.splits)
qed

text \<open>The levels of \<open>runSessions\<close> keep every idle client, and leave as many as the highest level asks for.\<close>

lemma sessionLevels_tidy:
  "sessionLevels env closeConn seeds cfg k levels probe idle = Some (r, probe', idle', ended) \<Longrightarrow>
     list_all Client_Done ended \<and> (\<not> isl r \<longrightarrow> ended = [] \<and> length idle' = foldl max (length idle) (map nat levels))"
proof (induction levels arbitrary: k probe idle r)
  case (Cons level levels)
  let ?open = "if level - int (length idle) > 0
      then startClients (il_sessions (env k)) closeConn seeds ''bench-idle'' (length idle) (nat (level - int (length idle))) (bc_ttl cfg)
      else Some (Inr [])"
  obtain res where res: "?open = Some res" using Cons.prems by (cases ?open) auto
  show ?case
  proof (cases res)
    case (Inl x)
    then show ?thesis using Cons.prems res startClients_none by (cases x) (auto split: if_splits)
  next
    case (Inr started)
    have len: "length (idle @ started) = max (length idle) (nat level)"
      using res Inr by (auto split: if_splits dest!: startClients_all)
    obtain out probe1 where c: "cycleUntil (time_add (il_now (env k)) (bc_duration cfg)) ''bench/sessions'' (il_cycles (env k)) probe = Some (out, probe1)"
      using Cons.prems res Inr by (auto split: option.splits)
    show ?thesis
    proof (cases out)
      case err: (Inl err)
      then show ?thesis using Cons.prems res Inr c by auto
    next
      case ds: (Inr ds)
      then obtain r2 row idle1 where "sessionLevels env closeConn seeds cfg (Suc k) levels probe1 idle1 = Some (r2, probe', idle', ended)"
          "r = map_sum id ((#) row) r2" "length idle1 = length (idle @ started)"
        using Cons.prems res Inr c by (auto simp: Let_def)
      then show ?thesis using Cons.IH [of "Suc k" probe1 idle1 r2] len by (cases r2) auto
    qed
  qed
qed simp

lemma runSessions_tidy: "runSessions env cfg = Some out \<Longrightarrow> tidy (Suc (foldl max 0 (map nat (sort (bc_sessions cfg))))) 1 out"
  by (auto simp: runSessions_def Let_def close_newTarget dest: startClient_left sessionLevels_tidy split: sum.splits option.splits prod.splits)

lemma crashRow_tidy: "crashRow env k clients = Some (row, ended) \<Longrightarrow> list_all Client_Done ended \<and> length ended = 8"
  by (auto simp: crashRow_def Let_def split: if_splits)

lemma crashRound_tidy:
  assumes "crashRound env cfg k = Ret (Some (r, ended, shut))"
  shows "list_all Client_Done ended \<and> list_all target_closed shut \<and> (\<not> isl r \<longrightarrow> length ended = 8 \<and> length shut = 1)"
  using assms unfolding crashRound_def
  by (auto simp: close_newTarget dest: startClients_none crashRow_tidy split: sum.splits option.splits prod.splits go.splits)

lemma crashRounds_tidy:
  "crashRounds env cfg ks = Ret (Some (r, ended, shut)) \<Longrightarrow>
     list_all Client_Done ended \<and> list_all target_closed shut \<and> (\<not> isl r \<longrightarrow> length ended = 8 * length ks \<and> length shut = length ks)"
proof (induction ks arbitrary: r ended shut)
  case (Cons k ks)
  obtain r1 e1 s1 where one: "crashRound (env k) cfg k = Ret (Some (r1, e1, s1))"
    using Cons.prems by (auto split: go.splits option.splits)
  note t = crashRound_tidy [OF one]
  show ?case
  proof (cases r1)
    case (Inl err)
    then show ?thesis using Cons.prems one t by auto
  next
    case (Inr row)
    then obtain r2 e2 s2 where "crashRounds env cfg ks = Ret (Some (r2, e2, s2))"
        "r = map_sum id ((#) row) r2" "ended = e1 @ e2" "shut = s1 @ s2"
      using Cons.prems one by (auto split: go.splits option.splits)
    then show ?thesis using Cons.IH [of r2 e2 s2] t Inr by (cases r2) auto
  qed
qed simp

lemma runFailover_tidy: "runFailover env cfg = Ret (Some out) \<Longrightarrow> tidy (8 * nat (bc_rounds cfg)) (nat (bc_rounds cfg)) out"
  by (auto simp: runFailover_def dest: crashRounds_tidy split: go.splits option.splits sum.splits prod.splits)

lemma handoverRound_tidy:
  assumes "handoverRound env seeds k = Some (r, ended)"
  shows "list_all Client_Done ended \<and> (\<not> isl r \<longrightarrow> length ended = 2)"
  using assms unfolding handoverRound_def
  by (auto simp: Let_def stopAll_def dest: startClient_left split: option.splits sum.splits prod.splits)

lemma handoverRounds_tidy:
  "handoverRounds env seeds ks = Some (r, ended) \<Longrightarrow> list_all Client_Done ended \<and> (\<not> isl r \<longrightarrow> length ended = 2 * length ks)"
proof (induction ks arbitrary: r ended)
  case (Cons k ks)
  obtain r1 e1 where one: "handoverRound (env k) seeds k = Some (r1, e1)"
    using Cons.prems by (auto split: option.splits)
  note t = handoverRound_tidy [OF one]
  show ?case
  proof (cases r1)
    case (Inl err)
    then show ?thesis using Cons.prems one t by auto
  next
    case (Inr d)
    then obtain r2 e2 where "handoverRounds env seeds ks = Some (r2, e2)" "r = map_sum id ((#) d) r2" "ended = e1 @ e2"
      using Cons.prems one by auto
    then show ?thesis using Cons.IH [of r2 e2] t Inr by (cases r2) auto
  qed
qed simp

lemma runHandover_tidy: "runHandover tenv env cfg = Some out \<Longrightarrow> tidy (2 * nat (bc_rounds cfg)) 1 out"
  by (auto simp: runHandover_def close_newTarget dest: handoverRounds_tidy split: sum.splits option.splits prod.splits)

text \<open>How many sessions a scenario opens, and how many targets.\<close>

fun sessionsOf :: "bench_config \<Rightarrow> bench_run \<Rightarrow> nat" where
  "sessionsOf cfg RunLatency = 1"
| "sessionsOf cfg RunThroughput = sum_list (map nat (bc_clients cfg))"
| "sessionsOf cfg RunHandoff = 4"
| "sessionsOf cfg RunSessions = Suc (foldl max 0 (map nat (sort (bc_sessions cfg))))"
| "sessionsOf cfg RunFailover = 8 * nat (bc_rounds cfg)"
| "sessionsOf cfg RunHandover = 2 * nat (bc_rounds cfg)"

definition targetsOf :: "bench_config \<Rightarrow> bench_run \<Rightarrow> nat" where
  "targetsOf cfg run = (if run = RunFailover then nat (bc_rounds cfg) else 1)"

lemma runScenario_tidy: "runScenario env cfg run = Ret (Some out) \<Longrightarrow> tidy (sessionsOf cfg run) (targetsOf cfg run) out"
  using runLatency_tidy runThroughput_tidy runHandoff_tidy runSessions_tidy runFailover_tidy runHandover_tidy
  by (cases run) (simp_all add: targetsOf_def)


definition demo_target :: target_env where
  "demo_target = \<lparr>te_temp = Inr ''/d'', te_nodes = (\<lambda>i. [demo_node_env ''n1'' ''a:1'', demo_node_env ''n2'' ''a:2'', demo_node_env ''n3'' ''a:3''] ! i),
     te_polls = [[demo_poll ''n1'', demo_poll ''n2'', demo_poll ''n3'']], te_down = (\<lambda>i. None)\<rparr>"

definition demo_bench :: bench_config where
  "demo_bench = \<lparr>bc_seeds = None, bc_nodes = 3, bc_duration = second, bc_ttl = 2 * second, bc_rounds = 1, bc_clients = [1], bc_sessions = []\<rparr>"

definition demo_sessions :: sessions_env where
  "demo_sessions = \<lparr>se_target = demo_target, se_probe = \<lparr>ss_start = demo_start 1, ss_started = 0\<rparr>,
     se_levels = (\<lambda>k. \<lparr>il_sessions = (\<lambda>i. \<lparr>ss_start = demo_start 1, ss_started = 0\<rparr>), il_now = 0, il_cycles = [], il_beats = (\<lambda>i. [])\<rparr>),
     se_close = (\<lambda>c. None)\<rparr>"

lemma demo_newTarget: "newTarget demo_target demo_bench =
    Inr \<lparr>tg_seeds = Addrs demo_cluster, tg_cluster = Some demo_cluster, tg_dataDir = ''/d'', tg_onDisk = True\<rparr>"
  by (simp add: newTarget_def demo_bench_def demo_target_def demo_cluster_starts upt_rec numeral_nat)

lemma demo_sessions_run: "\<exists>out. runSessions demo_sessions demo_bench = Some out \<and> out_err out = None"
proof -
  have seeds: "Addrs demo_cluster = [''a:1'', ''a:2'', ''a:3'']" by (simp add: Addrs_def demo_cluster_def)
  let ?c = "\<lparr>c_ownerID = ''bench-sessions-probe'', c_resolver = newResolver [''a:1'', ''a:2'', ''a:3''], c_session = newLeaseSession\<rparr>"
  have "NewClientWithSeeds [''a:1'', ''a:2'', ''a:3''] ''bench-sessions-probe'' = Inr ?c"
    by (simp add: NewClientWithSeeds_def normalizeSeedAddrs_def isSpace_def TrimSpace_def)
  moreover obtain loop c' where "startSession (demo_start 1) 0 ?c (2 * second) = Some (Inr loop, c')"
    using demo_session_starts [OF refl, of 1 "''bench-sessions-probe''"] by blast
  ultimately have "startClient (se_probe demo_sessions) (se_close demo_sessions) [''a:1'', ''a:2'', ''a:3''] ''bench-sessions-probe'' (bc_ttl demo_bench) =
      Some (Inr (loop, c'))"
    by (simp add: startClient_def demo_sessions_def demo_bench_def)
  moreover have "se_target demo_sessions = demo_target" "bc_sessions demo_bench = []" by (simp_all add: demo_sessions_def demo_bench_def)
  ultimately show ?thesis by (simp add: runSessions_def demo_newTarget seeds reported_def)
qed


section \<open>The scenarios that run\<close>

fun ranName :: "ran \<Rightarrow> string" where
  "ranName (Skipped name) = name"
| "ranName (Ran name out) = name"

text \<open>An entry of the run stands for a scenario: it is skipped or it is what running it came to.\<close>

fun entryOf :: "scenario_env \<Rightarrow> bench_config \<Rightarrow> scenario \<Rightarrow> ran \<Rightarrow> bool" where
  "entryOf env cfg s (Skipped name) \<longleftrightarrow> name = sc_name s \<and> sc_inProcessOnly s \<and> bc_seeds cfg \<noteq> None"
| "entryOf env cfg s (Ran name out) \<longleftrightarrow> name = sc_name s \<and> \<not> (sc_inProcessOnly s \<and> bc_seeds cfg \<noteq> None) \<and>
     runScenario env cfg (sc_run s) = Ret (Some out)"

fun ranFine :: "ran \<Rightarrow> bool" where
  "ranFine (Skipped name) = True"
| "ranFine (Ran name out) \<longleftrightarrow> out_err out = None"

definition endsWith :: "bench_exit \<Rightarrow> scenario list \<Rightarrow> ran list \<Rightarrow> bool" where
  "endsWith exit ss rs \<longleftrightarrow>
     (exit = BenchDone \<and> length rs = length ss \<and> list_all ranFine rs) \<or>
     (\<exists>name err out rs'. exit = ScenarioFailed name err \<and> rs = rs' @ [Ran name out] \<and> out_err out = Some err \<and> list_all ranFine rs')"

lemma endsWith_Cons: "endsWith exit ss rs \<Longrightarrow> ranFine r \<Longrightarrow> endsWith exit (s # ss) (r # rs)"
  unfolding endsWith_def by (metis append_Cons length_Cons list.pred_inject(2))

lemma endsWith_failed: "out_err out = Some err \<Longrightarrow> endsWith (ScenarioFailed name err) ss [Ran name out]"
  unfolding endsWith_def by (metis append_Nil list.pred_inject(1))

lemma runAll_entries:
  "runAll env cfg k ss = Ret (Some (exit, rs)) \<Longrightarrow>
     length rs \<le> length ss \<and> (\<forall>i < length rs. entryOf (env (k + i)) cfg (ss ! i) (rs ! i)) \<and> endsWith exit ss rs"
proof (induction ss arbitrary: k rs)
  case Nil
  then show ?case by (simp add: endsWith_def)
next
  case (Cons s ss)
  have step: ?case if "rs = r # rs'" "runAll env cfg (Suc k) ss = Ret (Some (exit, rs'))" "entryOf (env k) cfg s r" "ranFine r" for r rs'
    using Cons.IH [OF that(2)] that(1,3) endsWith_Cons [OF _ that(4)] by (auto simp: nth_Cons split: nat.splits)
  show ?case
  proof (cases "sc_inProcessOnly s \<and> bc_seeds cfg \<noteq> None")
    case True
    then obtain rs' where "runAll env cfg (Suc k) ss = Ret (Some (exit, rs'))" "rs = Skipped (sc_name s) # rs'"
      using Cons.prems by (cases "runAll env cfg (Suc k) ss") auto
    then show ?thesis using step True by auto
  next
    case False
    then obtain out where out: "runScenario (env k) cfg (sc_run s) = Ret (Some out)"
      using Cons.prems by (auto split: go.splits option.splits)
    show ?thesis
    proof (cases "out_err out")
      case None
      then obtain rs' where "runAll env cfg (Suc k) ss = Ret (Some (exit, rs'))" "rs = Ran (sc_name s) out # rs'"
        using Cons.prems False out by (cases "runAll env cfg (Suc k) ss") auto
      then show ?thesis using step False out None by auto
    next
      case (Some err)
      then show ?thesis using Cons.prems False out endsWith_failed [OF Some] by auto
    qed
  qed
qed

text \<open>A scenario that needs a cluster of its own does not run without one.\<close>

lemma crashRound_returns:
  assumes "bc_seeds cfg = None"
  shows "crashRound env cfg k \<noteq> Panic"
proof -
  have "LocalCluster_StopNode down c l \<noteq> Panic" if "LocalCluster_WaitForLeader polls c = Inr l" for down polls c l
    using waitForLeader_running [OF that] by (simp add: LocalCluster_StopNode_def split: prod.splits)
  moreover have own: "\<exists>c. tg_cluster t = Some c" if "newTarget tenv cfg = Inr t" for tenv t
    using that assms by (auto simp: newTarget_def split: sum.splits prod.splits option.splits)
  ultimately show ?thesis
    unfolding crashRound_def by (auto dest: own split: option.splits prod.splits sum.splits go.splits)
qed

lemma runFailover_returns: "bc_seeds cfg = None \<Longrightarrow> runFailover env cfg \<noteq> Panic"
proof -
  assume "bc_seeds cfg = None"
  then have "crashRounds env cfg ks \<noteq> Panic" for ks
    by (induction ks) (auto dest: crashRound_returns split: go.splits option.splits sum.splits prod.splits)
  then show ?thesis by (auto simp: runFailover_def split: go.splits option.splits sum.splits prod.splits)
qed

lemma scenarios_guarded: "s \<in> set scenarios \<Longrightarrow> sc_run s = RunFailover \<Longrightarrow> sc_inProcessOnly s"
  by (auto simp: scenarios_def)

lemma runAll_returns: "set ss \<subseteq> set scenarios \<Longrightarrow> runAll env cfg k ss \<noteq> Panic"
proof (induction ss arbitrary: k)
  case (Cons s ss)
  have rest: "runAll env cfg (Suc k) ss \<noteq> Panic" using Cons by simp
  show ?case
  proof (cases "sc_inProcessOnly s \<and> bc_seeds cfg \<noteq> None")
    case True
    then show ?thesis using rest by (cases "runAll env cfg (Suc k) ss") simp_all
  next
    case False
    then have "runScenario (env k) cfg (sc_run s) \<noteq> Panic"
      using scenarios_guarded [of s] Cons.prems runFailover_returns by (cases "sc_run s") auto
    then show ?thesis using False rest by (cases "runAll env cfg (Suc k) ss") (auto split: go.splits option.splits)
  qed
qed simp

lemma findIn_Some: "findIn name ss = Some s \<Longrightarrow> s \<in> set ss \<and> sc_name s = name"
  by (induction ss) (auto split: if_splits)

lemma selectScenarios_names:
  "selectScenarios names = Inr ss \<Longrightarrow> set ss \<subseteq> set scenarios \<and> map sc_name ss = names"
proof (induction names arbitrary: ss)
  case (Cons name names)
  then obtain s where s: "findScenario name = Some s" by (auto split: option.splits)
  then obtain ss' where "selectScenarios names = Inr ss'" "ss = s # ss'" using Cons.prems by (cases "selectScenarios names") auto
  then show ?case using Cons.IH findIn_Some s by (auto simp: findScenario_def)
qed simp

text \<open>
  C38: \<open>clavis-bench\<close> runs what it was asked to run. With counts that parse and scenarios that
  exist, it never dereferences a missing cluster; it takes the scenarios of the command line
  in their order, or all of them; it skips exactly those that crash nodes when it was
  given the seeds of a running cluster; and it ends after the last one, or at the first
  that fails, with that scenario's error.
\<close>

theorem bench_runs_selected:
  assumes counts: "parseInts (bf_clients fl) = Some clients" "parseInts (bf_sessions fl) = Some sessions"
    and sel: "(if bf_args fl = [] then Inr scenarios else selectScenarios (bf_args fl)) = Inr selected"
  shows "bench_main env fl \<noteq> Panic \<and> (bf_args fl \<noteq> [] \<longrightarrow> map sc_name selected = bf_args fl) \<and>
    (\<forall>exit rs. bench_main env fl = Ret (Some (exit, rs)) \<longrightarrow>
       length rs \<le> length selected \<and> endsWith exit selected rs \<and>
       (\<forall>i < length rs. entryOf (env i) (benchConfig fl clients sessions) (selected ! i) (rs ! i)))"
proof -
  have main: "bench_main env fl = runAll env (benchConfig fl clients sessions) 0 selected"
    using counts sel by (simp add: bench_main_def)
  have known: "set selected \<subseteq> set scenarios" "bf_args fl \<noteq> [] \<longrightarrow> map sc_name selected = bf_args fl"
    using sel selectScenarios_names by (auto split: if_splits)
  show ?thesis
    unfolding main using known runAll_returns [OF known(1)] runAll_entries [of env "benchConfig fl clients sessions" 0 selected] by auto
qed

definition demo_bench_flags :: bench_flags where
  "demo_bench_flags = \<lparr>bf_seeds = ''a:1,a:2'', bf_nodes = 3, bf_duration = 5 * second, bf_ttl = 10 * second, bf_rounds = 0,
     bf_clients = ''1, 8'', bf_sessions = ''0'', bf_args = [''failover'', ''handover'']\<rparr>"

lemma demo_counts: "parseInts ''1, 8'' = Some [1, 8]" "parseInts ''0'' = Some [0]"
  by (simp_all add: parseInts_def Atoi_def TrimSpace_def isSpace_def of_char_def)

lemma demo_selected: "\<exists>s1 s2. selectScenarios [''failover'', ''handover''] = Inr [s1, s2]"
  by (simp add: findScenario_def scenarios_def)

lemma demo_bench_run:
  "\<exists>out. bench_main env demo_bench_flags = Ret (Some (BenchDone, [Skipped ''failover'', Ran ''handover'' out]))"
  by (simp add: bench_main_def demo_bench_flags_def demo_counts findScenario_def scenarios_def benchConfig_def runHandover_def newTarget_def
      reported_def)

theorem bench_runs_selected_witness:
  "\<forall>env. \<exists>out selected. bench_main env demo_bench_flags = Ret (Some (BenchDone, [Skipped ''failover'', Ran ''handover'' out])) \<and>
     map sc_name selected = [''failover'', ''handover''] \<and> endsWith BenchDone selected [Skipped ''failover'', Ran ''handover'' out]"
proof
  fix env
  obtain out where run: "bench_main env demo_bench_flags = Ret (Some (BenchDone, [Skipped ''failover'', Ran ''handover'' out]))"
    using demo_bench_run by blast
  obtain s1 s2 where "selectScenarios [''failover'', ''handover''] = Inr [s1, s2]" using demo_selected by blast
  then have "(if bf_args demo_bench_flags = [] then Inr scenarios else selectScenarios (bf_args demo_bench_flags)) = Inr [s1, s2]"
    by (simp add: demo_bench_flags_def)
  from bench_runs_selected [OF _ _ this, of "[1, 8]" "[0]" env]
  show "\<exists>out selected. bench_main env demo_bench_flags = Ret (Some (BenchDone, [Skipped ''failover'', Ran ''handover'' out])) \<and>
     map sc_name selected = [''failover'', ''handover''] \<and> endsWith BenchDone selected [Skipped ''failover'', Ran ''handover'' out]"
    using run demo_counts by (intro exI [of _ out] exI [of _ "[s1, s2]"]) (simp add: demo_bench_flags_def)
qed

section \<open>Handoffs\<close>

fun clock_set :: "handoff_event \<Rightarrow> bool" where
  "clock_set (WaitReturns i before asks over now now') \<longleftrightarrow> now' \<noteq> zero_time"
| "clock_set e \<longleftrightarrow> True"

definition handoffs_ok :: "handoff_state \<Rightarrow> bool" where
  "handoffs_ok s \<longleftrightarrow> length (hs_wins s) = length (hs_phases s) \<and>
     (if is_zero (hs_lastRelease s) then hs_handoffs s = [] \<and> sum_list (hs_wins s) = 0
      else sum_list (hs_wins s) = length (hs_handoffs s) + 1)"

lemma phaseOf_moved: "phaseOf s i \<noteq> Finished \<Longrightarrow> i < length (hs_phases s)"
  by (auto simp: phaseOf_def split: if_splits)

lemma handoffs_ok_moved [simp]: "handoffs_ok (moved i rc ph s) \<longleftrightarrow> handoffs_ok s"
  by (simp add: handoffs_ok_def moved_def)

lemma handoffs_ok_errs [simp]: "handoffs_ok (s\<lparr>hs_errs := errs\<rparr>) \<longleftrightarrow> handoffs_ok s"
  by (simp add: handoffs_ok_def)

lemma handoffs_ok_wins:
  assumes "handoffs_ok s" and "i < length (hs_phases s)" and "now' \<noteq> zero_time"
  shows "handoffs_ok (wins i now now' s)"
proof -
  have "sum_list ((hs_wins s)[i := hs_wins s ! i + 1]) = Suc (sum_list (hs_wins s))"
    using assms(1,2) by (simp add: handoffs_ok_def sum_list_update)
  then show ?thesis using assms by (auto simp: handoffs_ok_def wins_def is_zero_def split: if_splits)
qed

lemma handoffs_ok_step: "handoffStep s e = Some s' \<Longrightarrow> clock_set e \<Longrightarrow> handoffs_ok s \<Longrightarrow> handoffs_ok s'"
  by (cases "(s, e)" rule: handoffStep.cases)
    (auto intro!: handoffs_ok_wins phaseOf_moved split: if_splits option.splits sum.splits prod.splits contender.splits)

text \<open>
  The handoffs are the wins but one. However the contenders' waits, critical sections and
  releases interleave, each win but the first is one handoff, measured from the release
  before it: whatever the scenario reports, the handoffs it counts are one fewer than the
  wins of all contenders together, unless nobody won.
\<close>

theorem handoffs_counted:
  assumes "run_opt handoffStep (handoffStart clients) events = Some s" and "list_all clock_set events"
  shows "length (hs_wins s) = length clients \<and> length (hs_handoffs s) = sum_list (hs_wins s) - 1"
proof -
  have "handoffs_ok s \<and> length (hs_wins s) = length clients"
  proof (rule run_opt_keeps [OF assms(1)])
    show "handoffs_ok (handoffStart clients) \<and> length (hs_wins (handoffStart clients)) = length clients"
      by (simp add: handoffs_ok_def handoffStart_def is_zero_def)
  next
    fix s e s'
    assume e: "e \<in> set events" "handoffs_ok s \<and> length (hs_wins s) = length clients" "handoffStep s e = Some s'"
    then have "handoffs_ok s'" using handoffs_ok_step assms(2) by (auto simp: list_all_iff)
    moreover have "length (hs_wins s') = length (hs_wins s)"
      using e(3) by (cases "(s, e)" rule: handoffStep.cases)
        (auto simp: moved_def wins_def split: if_splits option.splits sum.splits prod.splits contender.splits)
    ultimately show "handoffs_ok s' \<and> length (hs_wins s') = length clients" using e(2) by simp
  qed
  then show ?thesis by (auto simp: handoffs_ok_def simp del: sum_list_eq_0_iff split: if_splits)
qed

text \<open>Two contenders, of whom each wins once.\<close>

definition demo_contender :: running where
  "demo_contender = (loop_start demo_session (newResolver [''a:1'']) 0 0, demo_client)"

definition demo_handoff :: "handoff_event list" where
  "demo_handoff =
     (let ask = \<lparr>ask_call = demo_call_env, ask_net = demo_acquire_net, ask_ctx = None, ask_took = 0, ask_waitDone = None\<rparr>
      in [WaitReturns 0 [] [ask] False 100 110, ReleaseReturns 0 [] demo_call_env demo_release, WaitReturns 1 [] [ask] False 150 160,
          RunOver 0, ReleaseReturns 1 [] demo_call_env demo_release, RunOver 1])"

lemma handoffs_counted_witness:
  "\<exists>s. run_opt handoffStep (handoffStart [demo_contender, demo_contender]) demo_handoff = Some s \<and>
     hs_wins s = [1, 1] \<and> length (hs_handoffs s) = 1"
proof -
  obtain s where run: "run_opt handoffStep (handoffStart [demo_contender, demo_contender]) demo_handoff = Some s" "hs_wins s = [1, 1]"
    by (simp add: demo_handoff_def demo_contender_def handoffStart_def phaseOf_def hbTo_def loop_start_def heartbeatLoop_def WaitAcquire_def
        client_eval callLoop.simps tryLoop.simps moved_def wins_def is_zero_def zero_time_def Lock_Release_def Client_Release_def
        demo_release_def rememberAddr_def rememberSeedLocked_def)
  have "list_all clock_set demo_handoff" by (simp add: demo_handoff_def Let_def zero_time_def)
  from handoffs_counted [OF run(1) this] show ?thesis using run by simp
qed

section \<open>Recoveries\<close>

definition splits :: "time list \<Rightarrow> time \<Rightarrow> nat \<Rightarrow> nat \<Rightarrow> bool" where
  "splits xs target i j \<longleftrightarrow> j \<le> length xs \<and> (\<forall>k < i. xs ! k < target) \<and> (\<forall>k. j \<le> k \<and> k < length xs \<longrightarrow> target \<le> xs ! k)"

lemma splits_up:
  assumes "splits xs target i j" and "sorted xs" and "h < j" and "xs ! h < target"
  shows "splits xs target (h + 1) j"
proof -
  have "xs ! k < target" if "k < h + 1" for k
    using sorted_nth_mono [OF assms(2), of k h] assms(1,3,4) that by (simp add: splits_def)
  then show ?thesis using assms(1) by (simp add: splits_def)
qed

lemma splits_down:
  assumes "splits xs target i j" and "sorted xs" and "h < j" and "\<not> xs ! h < target"
  shows "splits xs target i h"
proof -
  have "target \<le> xs ! k" if "h \<le> k" "k < length xs" for k
    using sorted_nth_mono [OF assms(2) that] assms(4) by simp
  then show ?thesis using assms(1,3) by (simp add: splits_def)
qed

lemma searchFrom_splits:
  "splits xs target i j \<Longrightarrow> sorted xs \<Longrightarrow> i \<le> j \<Longrightarrow> splits xs target (searchFrom xs target i j) (searchFrom xs target i j)"
proof (induction xs target i j rule: searchFrom.induct)
  case (1 xs target i j)
  show ?case
  proof (cases "i < j")
    case True
    define h where "h = (i + j) div 2"
    have h: "i \<le> h" "h < j" using True by (simp_all add: h_def)
    show ?thesis
    proof (cases "xs ! h < target")
      case below: True
      then have "searchFrom xs target i j = searchFrom xs target (h + 1) j"
        by (subst searchFrom.simps) (simp add: True h_def)
      then show ?thesis
        using 1(1) [OF True h_def below splits_up [OF 1(3,4) h(2) below] 1(4)] h(2) by simp
    next
      case False
      then have "searchFrom xs target i j = searchFrom xs target i h"
        by (subst searchFrom.simps) (simp add: True h_def)
      then show ?thesis
        using 1(2) [OF True h_def False splits_down [OF 1(3,4) h(2) False] 1(4) h(1)] by simp
    qed
  next
    case False
    then have "searchFrom xs target i j = i" "i = j" using 1(5) by (simp_all add: searchFrom.simps)
    then show ?thesis using 1(3) by simp
  qed
qed

text \<open>On sorted instants the search gives the number of those before the target.\<close>

lemma BinarySearchFunc_spec:
  assumes "sorted xs"
  shows "BinarySearchFunc xs target = length (takeWhile (\<lambda>x. x < target) xs)"
proof -
  let ?r = "BinarySearchFunc xs target"
  have "splits xs target 0 (length xs)" by (simp add: splits_def)
  from searchFrom_splits [OF this assms] have r: "splits xs target ?r ?r" by (simp add: BinarySearchFunc_def)
  have "takeWhile (\<lambda>x. x < target) xs = take ?r xs"
    by (rule takeWhile_eq_take_P_nth) (use r in \<open>auto simp: splits_def not_less\<close>)
  then show ?thesis using r by (simp add: splits_def)
qed

text \<open>What the workers measure: the first success that is not before the crash, of each that has one.\<close>

definition firstSuccess :: "time \<Rightarrow> time list \<Rightarrow> time option" where
  "firstSuccess crashAt ts = find (\<lambda>t. crashAt \<le> t) ts"

lemma find_takeWhile:
  "find (\<lambda>t. crashAt \<le> t) ts =
     (if length (takeWhile (\<lambda>t. t < crashAt) ts) < length ts then Some (ts ! length (takeWhile (\<lambda>t. t < crashAt) ts)) else None)"
  for ts :: "time list"
  by (induction ts) auto

lemma recoveries_first:
  "list_all sorted successes \<Longrightarrow>
     recoveries crashAt successes = map (\<lambda>t. time_Sub t crashAt) (List.map_filter (firstSuccess crashAt) successes)"
  by (induction successes) (simp_all add: BinarySearchFunc_spec firstSuccess_def find_takeWhile Let_def)

lemma failoverWorker_clock: "failoverWorker lockName ps rc = Some (ts, rc') \<Longrightarrow> subseq ts (map fp_now ps)"
proof (induction ps arbitrary: rc ts)
  case (Cons p ps)
  show ?case
  proof (cases "fp_over p")
    case False
    then obtain res rc1 where c: "cycle (fp_cycle p) rc lockName = Some (res, rc1)" using Cons.prems by (auto split: option.splits)
    show ?thesis
    proof (cases res)
      case (Inl err)
      then show ?thesis using Cons.prems Cons.IH [of rc1 ts] c False by (auto split: if_splits)
    next
      case (Inr d)
      then obtain ts' where "failoverWorker lockName ps rc1 = Some (ts', rc')" "ts = fp_now p # ts'" using Cons.prems c False by auto
      then show ?thesis using Cons.IH by simp
    qed
  qed (use Cons.prems in simp)
qed simp

text \<open>
  C40: The recovery times of the failover scenario. When each worker's clock runs forwards,
  the row of a round shows the median and the maximum of what one gets by looking, among
  the instants at which each worker's cycles succeeded, for the first that is not before
  the crash: one sample for each worker that has one, and none for a worker that never
  succeeded again. The binary search of the sources finds exactly these.
\<close>

theorem recoveries_exact:
  assumes run: "crashRow env k clients = Some (row, ended)"
    and clock: "\<And>i. i < 8 \<Longrightarrow> sorted (map fp_now (cr_passes env i))"
  shows "\<exists>successes rec. length successes = 8 \<and>
    (\<forall>i < 8. \<exists>rc. failoverWorker (''bench/failover/'' @ itoa i) (cr_passes env i) (clients ! i) = Some (successes ! i, rc)) \<and>
    rec = map (\<lambda>t. time_Sub t (cr_crashAt env)) (List.map_filter (firstSuccess (cr_crashAt env)) successes) \<and>
    row ! 2 = msCell (pct rec 50) \<and> row ! 3 = msCell (samples_max rec)"
proof -
  define runs where "runs = map (\<lambda>i. failoverWorker (''bench/failover/'' @ itoa i) (cr_passes env i) (clients ! i)) [0..<8]"
  define successes where "successes = map (fst \<circ> the) runs"
  have none: "None \<notin> set runs" and row: "row ! 2 = msCell (pct (recoveries (cr_crashAt env) successes) 50)"
      "row ! 3 = msCell (samples_max (recoveries (cr_crashAt env) successes))"
    using run unfolding crashRow_def Let_def runs_def successes_def by (auto split: if_splits)
  have worker: "\<exists>rc. failoverWorker (''bench/failover/'' @ itoa i) (cr_passes env i) (clients ! i) = Some (successes ! i, rc)" if i: "i < 8" for i
  proof -
    have "runs ! i \<in> set runs" using i by (simp add: runs_def)
    then have "runs ! i \<noteq> None" using none by metis
    then obtain y where "runs ! i = Some y" by blast
    then show ?thesis using i by (cases y) (simp add: runs_def successes_def)
  qed
  have len: "length successes = 8" by (simp add: successes_def runs_def)
  have "sorted (successes ! i)" if i: "i < 8" for i
    using worker [OF i] failoverWorker_clock clock [OF i] sorted_nths by (metis subseq_conv_nths)
  then have "list_all sorted successes" using len by (simp add: list_all_length)
  from recoveries_first [OF this] show ?thesis using worker len row by metis
qed

definition demo_pass_at :: "time \<Rightarrow> bool \<Rightarrow> failover_pass" where
  "demo_pass_at now over = \<lparr>fp_over = over,
     fp_cycle = \<lparr>cy_before = [], cy_start = 0, cy_call = demo_call_env, cy_acquire = demo_acquire_net, cy_acquired = 1, cy_between = [],
       cy_rcall = demo_call_env, cy_release = demo_release, cy_end = 2\<rparr>, fp_now = now\<rparr>"

definition demo_crash :: "target_env \<Rightarrow> crash_round" where
  "demo_crash t = \<lparr>cr_target = t, cr_sessions = (\<lambda>i. \<lparr>ss_start = demo_start 1, ss_started = 0\<rparr>), cr_polls = [],
     cr_passes = (\<lambda>i. [demo_pass_at 5 False, demo_pass_at 15 False, demo_pass_at 16 True]), cr_crashAt = 10, cr_down = None, cr_polls2 = [],
     cr_elected = 12, cr_beats = (\<lambda>i. []), cr_close = (\<lambda>c. None)\<rparr>"

lemma demo_worker_run:
  "\<exists>rc. failoverWorker lockName [demo_pass_at 5 False, demo_pass_at 15 False, demo_pass_at 16 True] demo_contender = Some ([5, 15], rc)"
  by (simp add: demo_pass_at_def demo_contender_def cycle_def hbTo_def loop_start_def heartbeatLoop_def Client_Acquire_def
      client_eval callLoop.simps tryLoop.simps Lock_Release_def Client_Release_def demo_release_def rememberAddr_def rememberSeedLocked_def)

theorem recoveries_exact_witness:
  "\<exists>row ended. crashRow (demo_crash demo_target) 1 (replicate 8 demo_contender) = Some (row, ended) \<and> row ! 3 = msCell 5"
proof -
  let ?env = "demo_crash demo_target" and ?cs = "replicate 8 demo_contender"
  have passes: "cr_passes ?env i = [demo_pass_at 5 False, demo_pass_at 15 False, demo_pass_at 16 True]" "cr_crashAt ?env = 10" for i
    by (simp_all add: demo_crash_def)
  have worker: "\<exists>rc. failoverWorker lockName (cr_passes ?env i) (?cs ! i) = Some ([5, 15], rc)" if "i < 8" for i lockName
    using demo_worker_run [of lockName] that by (simp add: passes)
  have "None \<notin> set (map (\<lambda>i. failoverWorker (''bench/failover/'' @ itoa i) (cr_passes ?env i) (?cs ! i)) [0..<8])"
  proof
    assume "None \<in> set (map (\<lambda>i. failoverWorker (''bench/failover/'' @ itoa i) (cr_passes ?env i) (?cs ! i)) [0..<8])"
    then obtain i where "i < 8" "failoverWorker (''bench/failover/'' @ itoa i) (cr_passes ?env i) (?cs ! i) = None" by auto
    then show False using worker [of i "''bench/failover/'' @ itoa i"] by simp
  qed
  then obtain row ended where run: "crashRow ?env 1 ?cs = Some (row, ended)" by (simp add: crashRow_def Let_def)
  have "sorted (map fp_now (cr_passes ?env i))" for i by (simp add: passes demo_pass_at_def)
  from recoveries_exact [OF run this] obtain successes where s: "length successes = 8"
      "\<forall>i < 8. \<exists>rc. failoverWorker (''bench/failover/'' @ itoa i) (cr_passes ?env i) (?cs ! i) = Some (successes ! i, rc)"
      "row ! 3 = msCell (samples_max (map (\<lambda>t. time_Sub t 10) (List.map_filter (firstSuccess 10) successes)))"
    by (auto simp: passes)
  have "successes ! i = [5, 15]" if "i < 8" for i
    using s(2) worker [OF that, of "''bench/failover/'' @ itoa i"] that by fastforce
  then have "successes = replicate 8 [5, 15]" using s(1) by (simp add: list_eq_iff_nth_eq)
  then show ?thesis using run s(3)
    by (simp add: firstSuccess_def List.map_filter_simps numeral_nat time_Sub_def samples_max_def)
qed

section \<open>Counts on the command line\<close>

text \<open>\<open>strings.Join\<close> with a comma.\<close>

fun joinComma :: "string list \<Rightarrow> string" where
  "joinComma [] = []"
| "joinComma [part] = part"
| "joinComma (part # parts) = part @ CHR '','' # joinComma parts"

lemma splitComma_part: "CHR '','' \<notin> set part \<Longrightarrow> splitComma part = [part]"
  by (induction part) auto

lemma splitComma_append: "CHR '','' \<notin> set part \<Longrightarrow> splitComma (part @ CHR '','' # s) = part # splitComma s"
  by (induction part) auto

lemma splitComma_join: "parts \<noteq> [] \<Longrightarrow> \<forall>part \<in> set parts. CHR '','' \<notin> set part \<Longrightarrow> splitComma (joinComma parts) = parts"
  by (induction parts rule: joinComma.induct) (simp_all add: splitComma_part splitComma_append)

definition isDigit :: "char \<Rightarrow> bool" where
  "isDigit ch \<longleftrightarrow> 48 \<le> (of_char ch :: int) \<and> (of_char ch :: int) \<le> 57"

lemma isDigit_char_of: "d < 10 \<Longrightarrow> isDigit (char_of (48 + d :: nat)) \<and> (of_char (char_of (48 + d)) :: int) = 48 + int d" for d :: nat
  using of_nat_of_char [of "char_of (48 + d)", where ?'a = int] by (simp add: isDigit_def of_char_of)

lemma digitsFrom_append: "digitsFrom n (xs @ ys) = Option.bind (digitsFrom n xs) (\<lambda>m. digitsFrom m ys)"
  by (induction xs arbitrary: n) auto

lemma itoa_digits: "list_all isDigit (itoa n) \<and> itoa n \<noteq> [] \<and> digitsFrom 0 (itoa n) = Some (int n)"
proof (induction n rule: itoa.induct)
  case (1 n)
  show ?case
  proof (cases "n < 10")
    case True
    then show ?thesis using isDigit_char_of [of n] by (simp add: itoa.simps [of n] isDigit_def)
  next
    case False
    have "int n = 10 * int (n div 10) + int (n mod 10)" by presburger
    then show ?thesis using False 1 isDigit_char_of [of "n mod 10"]
      by (simp add: itoa.simps [of n] digitsFrom_append isDigit_def)
  qed
qed

lemma digit_not: "isDigit ch \<Longrightarrow> ch \<noteq> CHR '','' \<and> ch \<noteq> CHR ''-'' \<and> ch \<noteq> CHR ''+'' \<and> \<not> isSpace ch"
  by (auto simp: isDigit_def isSpace_def)

lemma TrimSpace_digits:
  assumes "list_all isDigit s"
  shows "TrimSpace s = s"
proof -
  have "dropWhile isSpace s' = s'" if "list_all isDigit s'" for s'
    using that digit_not by (cases s') auto
  then show ?thesis using assms by (simp add: TrimSpace_def list_all_rev)
qed

lemma Atoi_itoa:
  assumes "n < 2 ^ 63"
  shows "Atoi (TrimSpace (itoa n)) = Some (int n)"
proof -
  obtain ch s where s: "itoa n = ch # s" "isDigit ch" using itoa_digits [of n] by (cases "itoa n") auto
  have d: "list_all isDigit (itoa n)" "digitsFrom 0 (itoa n) = Some (int n)" using itoa_digits by blast+
  have "int n < 2 ^ 63" using assms by simp
  then show ?thesis using d(2) digit_not [OF s(2)] unfolding TrimSpace_digits [OF d(1)] by (simp add: Atoi_def s(1))
qed

text \<open>
  Counts survive the command line. A non-empty list of counts, printed in decimal and
  joined with commas as the flags take them, is parsed back to the same list, for all
  counts an \<open>int\<close> can hold.
\<close>

theorem counts_roundtrip:
  assumes "ns \<noteq> []" and "\<forall>n \<in> set ns. n < 2 ^ 63"
  shows "parseInts (joinComma (map itoa ns)) = Some (map int ns)"
proof -
  have "CHR '','' \<notin> set (itoa n)" for n
    using itoa_digits [of n] digit_not by (auto simp: list_all_iff)
  then have "splitComma (joinComma (map itoa ns)) = map itoa ns" using assms(1) by (intro splitComma_join) auto
  moreover have "parseParts (map itoa ns) = Some (map int ns)"
    using assms(2) by (induction ns) (simp_all add: Atoi_itoa)
  ultimately show ?thesis by (simp add: parseInts_def)
qed

lemma counts_roundtrip_witness: "parseInts ''1,8,64'' = Some [1, 8, 64]"
  using counts_roundtrip [of "[1, 8, 64]"] by (simp add: itoa.simps char_of_def bit_0)

end
