(* ===== verification/Spec2Isabelle.thy ===== *)
theory Spec2Isabelle
  imports FSM_Operations Lock_Waiting Bench_Properties
begin

text \<open>
  Clavis is a distributed lock service. Clients hold leases, which they keep alive with
  heartbeats, and acquire named locks under a lease; every grant carries a fencing token.
  The state of leases and locks is replicated with Raft; the leader alone tracks when
  leases were renewed, and proposes their expiry. This development models the program under
  \<open>src/\<close> and proves what it promises.

  \<^bold>\<open>Parts and theories.\<close>
  \<^item> \<open>Clavis_Prelude\<close>: machine integers (64-bit words), instants, pointers (options), panics
    (the type \<open>go\<close>), Go maps as association lists with their laws (locale \<open>go_map\<close>), and runs
    of calls with the promises they keep (locales \<open>machine\<close>, \<open>promise\<close>, \<open>paid_promise\<close>).
  \<^item> \<open>Domain_Model\<close>, \<open>Raftlog\<close>: \<open>internal/domain\<close> and \<open>internal/raftlog\<close>, the records of leases,
    locks and members, the errors, and the replicated commands with their nil-safe getters.
  \<^item> \<open>FSM_Model\<close>: \<open>internal/state/fsm.go\<close>, one definition per handler of a command and per
    read. \<open>FSM_Invariants\<close>: the invariant \<open>fsm_inv\<close> and that every command keeps it.
    \<open>FSM_Refinement\<close>: the specification \<open>spec_apply\<close> on maps and the refinement of \<open>Apply\<close>.
    \<open>FSM_History\<close>: logs, fencing tokens over a log and mutual exclusion.
    \<open>FSM_Operations\<close>: the outcome of each command on every branch.
  \<^item> \<open>Json_Codec\<close>, \<open>Raft_FSM\<close>: \<open>internal/state/raft_fsm.go\<close>, log entries, snapshots as JSON
    trees, and \<open>Restore\<close> with its validation.
  \<^item> \<open>Lease_Tracker\<close>: \<open>internal/cluster/lease.go\<close>, the deadlines of the leader.
  \<^item> \<open>Lock_Queues\<close>: \<open>internal/cluster/lockqueue.go\<close>, the queues of waiting callers.
  \<^item> \<open>Cluster_Node\<close>, \<open>Cluster_Members\<close>: \<open>internal/cluster/node.go\<close>, \<open>lease.go\<close> and \<open>member.go\<close>,
    proposals, renewals with their barrier, the expiry loop, membership, start and shutdown.
  \<^item> \<open>Storage_Migration\<close>: \<open>internal/cluster/storage.go\<close>, the stores and the migration.
  \<^item> \<open>Lock_Service\<close>, \<open>Lock_Waiting\<close>: \<open>internal/service\<close>, the operations of the service, and the
    interleaving of waiting callers as a step relation.
  \<^item> \<open>Grpc_Server\<close>: \<open>internal/transport\<close>, the handlers, and errors as statuses and hints.
  \<^item> \<open>Client_Resolver\<close>, \<open>Client_Session\<close>, \<open>Client_Locks\<close>: \<open>pkg/client\<close>, failover between the
    nodes, the session with its heartbeat loop, and the operations of a client.
  \<^item> \<open>App_Identity\<close>, \<open>App_Runtime\<close>: \<open>internal/app\<close>, the identity and the addresses of a node,
    its runtime, the administrative calls and the local cluster.
  \<^item> \<open>Commands\<close>: the programs \<open>cmd/clavis\<close> and \<open>jepsen/holder\<close>.
  \<^item> \<open>Lock_Grants\<close>: what an acquisition that the server answers has done to the state, and the
    grants of a log by position. It joins the server, the service, the node and the log.
  \<^item> \<open>Fenced_Stores\<close>: the stores of \<open>examples/fencing.go\<close> and \<open>examples/failover.go\<close>.
    \<open>Example_Programs\<close>: the two programs, with their workers and replicas.
  \<^item> \<open>Bench_Stats\<close>, \<open>Bench_Clients\<close>, \<open>Bench_Scenarios\<close>: \<open>cmd/clavis-bench\<close>, the statistics with
    their floating-point ranks, the targets and clients, the six scenarios and the main
    program. \<open>Bench_Properties\<close>: what it counts, runs and cleans up.

  \<^bold>\<open>How they interact.\<close> A call of the client (\<open>Client_Locks\<close>) goes through the failover of the
  resolver to a handler of the server, from there to the service and the node, which
  proposes a command; the committed entry is applied to the state machine, whose hook wakes
  the head of a queue. The node's state \<open>Node\<close> holds the state machine, the lease tracker,
  the queues and the term of the last barrier; operations take it and return it. Locks
  and mutexes of the source make the modelled operations atomic; where the source gives up
  a lock between two steps, the steps are separate (the rounds of a waiting caller, the
  control points of the heartbeat loop, the states of a directory during the migration).

  \<^bold>\<open>Correspondence.\<close> Definitions have the names of the source; a prefix (\<open>Service_\<close>, \<open>Server_\<close>,
  \<open>Client_\<close>, \<open>Runtime_\<close>, \<open>LocalCluster_\<close>) tells apart methods of the same name. Structures are
  records, error values the type \<open>goerr\<close> (\<open>client_err\<close> in the client), results sums with the
  error on the left, a nil dereference or a write to a nil map the value \<open>Panic\<close>. What
  belongs to libraries is a parameter: what a call reads from Raft (\<open>raft_view\<close>) and how its
  futures resolve (\<open>apply_future\<close>, \<open>renew_env\<close>), the protobuf codec (with the hypothesis
  \<open>codec_ok\<close>, that decoding inverts encoding), the stores of Raft, UUIDs (\<open>uuid_ok\<close>), the
  network of each attempt (\<open>net\<close>, \<open>admin_net\<close>), and the instants a clock shows.

  \<^bold>\<open>What is shown.\<close> On the state machine: it refines its specification, never panics on a
  state it can reach, mints tokens in order, gives a lock to one lease at a time, and gives
  a later holder a larger token; snapshots stand for the prefix they replace. On the
  leader: an acknowledged renewal protects its lease and the locks for one TTL, a claimed lease is
  not renewed, a new leader grants a grace period, a tick expires exactly what is due. On
  waiting: no wake-up is lost, callers are served in the order of arrival, and every way
  out leaves the queue. On the transport: each error has the status its class calls for,
  and a heartbeat response stands for a renewal. On the client: the failover returns, finds
  a leader it can be led to, the heartbeat loop never outlives its proof, an ended session
  refuses. On a node: its identity is
  stable, its addresses are routable, its migration survives a crash at any point.
  On the programs around the service: the fencing example ends with the stale write refused,
  the history the failover example prints is that of the accepted writes, one writer to a
  token; the benchmarks run what they were asked to, close what they started, and report
  exact percentiles and recovery times.
  This theory composes them: \<open>valid_session_owns_locks\<close> joins the heartbeat loop of the client,
  the handler of the server and the expiry loop of the leader; \<open>handle_is_held\<close> joins the
  client's calls, their failover, the server, the node and the state machine; and
  \<open>stale_holder_is_fenced_off\<close> joins the log and the stores downstream.

  \<^bold>\<open>Bounds.\<close> Counters are 64 bits wide and wrap; theorems on logs assume fewer than
  \<open>2 ^ 64 - 1\<close> commands (\<open>log_ok\<close>), which no log reaches, so that neither lease identifiers nor
  tokens repeat. The failover loops are partial functions without fuel: that they return is
  proved, from the deadline of the call and the bound of two attempts per address. The loops of
  \<open>WaitAcquire\<close>, of a waiting caller and of the polls take the list of what each round meets;
  a list that ends early is a call that has not returned yet. The bound of ten attempts
  in \<open>callLeader\<close> is the source's. Ranks of percentiles are exact below \<open>2 ^ 40\<close> samples.

  \<^bold>\<open>Not modelled.\<close> Raft, gRPC, protobuf and the stores themselves, which are libraries; the
  text of JSON, of log lines and of printed tables, of which the models have the values;
  generated code apart from the messages that the models use. The one-line accessors that
  return a field or wrap another object (\<open>Service\<close>, \<open>Server\<close>, \<open>RaftFSM\<close>, \<open>GetFSM\<close>, \<open>GetState\<close>)
  are the fields and parameters of the models. \<open>Runtime.Start\<close> only launches the library's
  server, whose failure is an event of the main program. Sleeping is the clock of the
  environment. Goroutines that share nothing are run one by one; those that share state
  are interleaved (waiting callers, contenders of a benchmark, replicas and their table).
  Wall-clock jumps are not modelled: instants come from one monotonic clock.
\<close>

section \<open>A session and its leader\<close>

text \<open>
  Events on the leader from \<open>start\<close> up to and including \<open>until\<close>, where the lease is not expired
  by an entry of another leader and its locks \<open>L\<close> are not released.
\<close>

fun event_until :: "'d codec \<Rightarrow> Lease \<Rightarrow> (string \<rightharpoonup> Lock) \<Rightarrow> time \<Rightarrow> time \<Rightarrow> 'd node_event \<Rightarrow> bool" where
  "event_until c lease L start until (TickEvent rv now outcome) = (start \<le> now \<and> now \<le> until)"
| "event_until c lease L start until (RenewEvent env leaseID) =
     (start \<le> re_now env \<and> re_now env \<le> until \<and> list_all (spares c lease L) (re_pending env))"
| "event_until c lease L start until (CheckEvent tm now leaseID) = (start \<le> now \<and> now \<le> until)"
| "event_until c lease L start until (EntryEvent d) = spares c lease L d"

lemma event_until_within:
  "event_until c lease L start until e \<Longrightarrow> until < ttl_after start lease \<Longrightarrow> event_within c lease L start e"
  by (cases e) auto


definition demo_owner :: Lease where
  "demo_owner = \<lparr>Lease_LeaseID = 7, Lease_OwnerID = ''a'', Lease_ExpiresAtUnixNano = 3000000000, Lease_TTL = 3000000000\<rparr>"

definition demo_owned :: "string \<rightharpoonup> Lock" where
  "demo_owned = [''x'' \<mapsto> \<lparr>Lock_Name = ''x'', Lock_OwnerID = ''a'', Lock_FencingToken = 1, Lock_LeaseID = 7\<rparr>]"

definition demo_leader :: Node where
  "demo_leader = demo_node\<lparr>node_fsm := \<lparr>locks = [(''x'', demo_owned ''x'')], leases = [(7, Some demo_owner)],
     endpoints = [], fencingCounter = 1, nextLeaseID = 8\<rparr>\<rparr>"

definition demo_round :: "CommandWrapper heartbeat_round" where
  "demo_round = (demo_heartbeat 7)\<lparr>hr_renew := \<lparr>re_term = 1, re_barrier = None, re_pending = [], re_now = 1000500000, re_verify = None\<rparr>\<rparr>"

lemma demo_leader_ok:
  "fsm_inv (node_fsm demo_leader)" "locks_held demo_owner demo_owned (node_fsm demo_leader)"
  "tracker_wf (node_leases demo_leader)" "lease_at (node_fsm demo_leader) 7 = Some demo_owner"
  by (rule fsm_invI; auto simp: demo_leader_def demo_owner_def demo_owned_def fsm_wf_def map_ok_def lease_at_def lock_at_def
      lease_ok_def lock_ok_def GetEndpoint_def split: if_splits)
    (simp_all add: demo_leader_def demo_node_def demo_owned_def demo_owner_def locks_held_def lock_at_def lease_at_def tracker_wf_zero)

lemma demo_acknowledged:
  "\<exists>n'. acknowledges demo_codec demo_round demo_leader \<lparr>PbHeartbeat_LeaseId = 7, PbHeartbeat_TtlSeconds = go_div 3000000000 second\<rparr> n' \<and>
     node_fsm n' = node_fsm demo_leader"
  by (simp add: acknowledges_def demo_round_def demo_heartbeat_def IsLeader_def demo_view_def RenewLease_def awaitTermApplied_def
      GetLease_def demo_leader_def demo_node_def tracker_eval demo_owner_def)


section \<open>A handle and its grant\<close>

text \<open>Every answer to the request comes from the handler of the server, run on some node in a consistent state.\<close>

definition served :: "transport \<Rightarrow> 'd codec \<Rightarrow> acquire_net \<Rightarrow> string \<Rightarrow> string \<Rightarrow> uint64 \<Rightarrow> bool \<Rightarrow> bool" where
  "served tp cd net name owner i wait \<longleftrightarrow>
     (\<forall>p k conn resp. net_call (net name owner i wait p k) conn = Inr resp \<longrightarrow>
        (\<exists>env rounds n n'. list_all keeps_state rounds \<and> fsm_inv (node_fsm n) \<and>
           Server_AcquireLock tp cd env rounds n name owner i wait = Ret (Some (Inr resp, n'))))"

lemma answered_is_held:
  assumes "codec_ok cd" and run: "Client_acquire env net c name wait = Some (Inr lock, c')"
    and net: "served tp cd net name (c_ownerID c) (s_leaseID (c_session c)) wait"
  shows "activeLeaseID (c_session c) = Inr (s_leaseID (c_session c)) \<and> l_name lock = name \<and>
    (\<exists>senv rounds n resp n'. Server_AcquireLock tp cd senv rounds n name (c_ownerID c) (s_leaseID (c_session c)) wait =
        Ret (Some (Inr resp, n')) \<and> IsLeader (sv_view senv) \<and>
      granted_to n' name (c_ownerID c) (s_leaseID (c_session c)) (Token lock))"
  using Client_acquire_answered [OF run] net Server_AcquireLock_grants [OF assms(1)]
  unfolding served_def by metis

text \<open>
  C4: A handle is a grant. When \<open>Acquire\<close> or \<open>WaitAcquire\<close> gives a client a handle, its session is
  active, and a leader has run the acquisition for this client and its lease: in the state
  in which the leader's handler returned, the lock exists, belongs to the client's owner
  name and lease, and has the handle's token. This holds whatever the failover between the
  nodes went through and however often the client had to ask.
\<close>

theorem handle_is_held:
  assumes "codec_ok cd"
    and "Client_Acquire env net c name = Some (Inr lock, c') \<or> WaitAcquire asks c name = Some (Inr lock, c')"
    and "served tp cd net name (c_ownerID c) (s_leaseID (c_session c)) False"
    and "\<And>a. a \<in> set asks \<Longrightarrow> served tp cd (ask_net a) name (c_ownerID c) (s_leaseID (c_session c)) True"
  shows "activeLeaseID (c_session c) = Inr (s_leaseID (c_session c)) \<and> l_name lock = name \<and>
    (\<exists>wait senv rounds n resp n'. Server_AcquireLock tp cd senv rounds n name (c_ownerID c) (s_leaseID (c_session c)) wait =
        Ret (Some (Inr resp, n')) \<and> IsLeader (sv_view senv) \<and>
      granted_to n' name (c_ownerID c) (s_leaseID (c_session c)) (Token lock))"
  using assms(2)
proof
  assume "Client_Acquire env net c name = Some (Inr lock, c')"
  then have "Client_acquire env net c name False = Some (Inr lock, c')" by (simp add: Client_Acquire_def split: if_splits)
  from answered_is_held [OF assms(1) this assms(3)] show ?thesis by blast
next
  assume "WaitAcquire asks c name = Some (Inr lock, c')"
  then obtain a d d' where a: "a \<in> set asks" "Client_acquire (ask_call a) (ask_net a) d name True = Some (Inr lock, d')"
      and same: "c_session d = c_session c" "c_ownerID d = c_ownerID c"
    using WaitAcquire_handle by blast
  from answered_is_held [OF assms(1) a(2), of tp] assms(4) [OF a(1)] show ?thesis unfolding same by blast
qed

definition demo_asker :: Client where
  "demo_asker = demo_client\<lparr>c_ownerID := ''a''\<rparr>"

definition demo_answer :: Pb_AcquireLockResponse where
  "demo_answer = \<lparr>PbAcquire_FencingToken = 2, PbAcquire_LeaseTtlSeconds = 3\<rparr>"

definition demo_served :: acquire_net where
  "demo_served name owner i wait p k = (demo_acquire_net name owner i wait p k)\<lparr>net_call := (\<lambda>conn. Inr demo_answer)\<rparr>"

lemma demo_leader_answers:
  "\<exists>n'. Server_AcquireLock demo_transport demo_codec \<lparr>sv_view = demo_view, sv_now = 90, sv_future = ApplyDone\<rparr> [] demo_leader
     ''y'' ''a'' 7 False = Ret (Some (Inr demo_answer, n'))"
  by (simp add: Server_AcquireLock_def Service_AcquireLock_def ensureLeader_def IsLeader_def demo_view_def LockHasWaiters_def
      demo_leader_def demo_node_def newLockQueues_def queueOf_def demo_owner_def demo_owned_def acquire_def CheckLeaseAlive_def GetLease_def tracker_eval
      Node_Apply_def demo_codec_def applyEntry_def RaftFSM_Apply_def Apply_def command_type_defs
      applyAcquireLock_def as_typed_def Let_def demo_answer_def go_div_def second_def signed_divide_int_def)

lemma demo_asker_gets: "\<exists>c'. Client_Acquire demo_call_env demo_served demo_asker ''y'' = Some (Inr \<lparr>l_name = ''y'', l_fencingToken = 2\<rparr>, c')"
  by (simp add: Client_Acquire_def demo_asker_def demo_served_def demo_answer_def client_eval callLoop.simps tryLoop.simps)

theorem handle_is_held_witness:
  "\<exists>c' wait senv rounds n resp n'. Client_Acquire demo_call_env demo_served demo_asker ''y'' = Some (Inr \<lparr>l_name = ''y'', l_fencingToken = 2\<rparr>, c') \<and>
     Server_AcquireLock demo_transport demo_codec senv rounds n ''y'' ''a'' 7 wait = Ret (Some (Inr resp, n')) \<and>
     granted_to n' ''y'' ''a'' 7 2"
proof -
  obtain c' where run: "Client_Acquire demo_call_env demo_served demo_asker ''y'' = Some (Inr \<lparr>l_name = ''y'', l_fencingToken = 2\<rparr>, c')"
    using demo_asker_gets by blast
  have asker: "c_ownerID demo_asker = ''a''" "s_leaseID (c_session demo_asker) = 7"
    by (simp_all add: demo_asker_def demo_client_def demo_session_def)
  have "served demo_transport demo_codec demo_served ''y'' ''a'' 7 False"
    using demo_leader_answers demo_leader_ok(1) unfolding served_def demo_served_def
    by (intro allI impI) (rule exI, rule exI [of _ "[]"], rule exI [of _ demo_leader], auto)
  then show ?thesis
    using handle_is_held [of demo_codec demo_call_env demo_served demo_asker "''y''" _ c' "[]" demo_transport, OF demo_codec_ok disjI1 [OF run]] run
    unfolding asker by (auto simp: Token_def) blast
qed

section \<open>Stale holders downstream\<close>

text \<open>
  C5: Fencing tokens stop stale holders. Two different leases acquired the same lock, one after
  the other in the log. Once a store that checks tokens has accepted a write of the later
  holder, then whatever is written to it next, every write of the earlier holder is
  refused, by the account row as by the controller table, and a replica that still leads
  with the earlier holder's lock steps down at its next tick.
\<close>

theorem stale_holder_is_fenced_off:
  assumes "length cmds < 2 ^ 64 - 1" and "ApplyAll NewFSM cmds = Ret (f, rs)" and "i < j" and "j < length cmds"
    and "command_of (Some (cmds ! i)) = AcquireLock m o1 l1" and "rs ! i = Inr (RespAcquireLock r1)"
    and "command_of (Some (cmds ! j)) = AcquireLock m o2 l2" and "rs ! j = Inr (RespAcquireLock r2)" and "l1 \<noteq> l2"
    and old: "old = AcquireResp_FencingToken r1" and new: "new = AcquireResp_FencingToken r2"
  shows "(row_put row (writer2, new, bal2) = (True, row') \<longrightarrow>
      \<not> fst (row_put (foldl (\<lambda>r w. snd (row_put r w)) row' rws) (writer1, old, bal1))) \<and>
    (table_put t (at2, writer2, new) = (True, t') \<longrightarrow>
      \<not> fst (table_put (foldl (\<lambda>t w. snd (table_put t w)) t' tws) (at1, writer1, old)) \<and>
      fst (lead writer1 \<lparr>l_name = m, l_fencingToken = old\<rparr> t'
        (map (\<lambda>(now, writer, token). OtherWrite now writer token) tws @ LeadTick at1 # rest)) = SteppedDown errStaleToken)"
proof -
  have less: "old < new" using tokens_grow [OF assms(1-8)] assms(9) old new by (simp add: word_less_nat_alt)
  have "t_token t' = new" if "table_put t (at2, writer2, new) = (True, t')"
    using that by (auto simp: table_put_def controllerTable_write_def split: if_splits)
  then show ?thesis
    using less row.old_refused [of row "(writer2, new, bal2)" row' "(writer1, old, bal1)" rws]
      table.old_refused [of t "(at2, writer2, new)" t' "(at1, writer1, old)" tws]
      lead_overtaken [of "\<lparr>l_name = m, l_fencingToken = old\<rparr>" t' writer1 tws at1 rest]
    by (simp add: Token_def)
qed

theorem stale_holder_is_fenced_off_witness:
  "fst (lead ''a'' \<lparr>l_name = ''x'', l_fencingToken = 1\<rparr> (snd (table_put newTable (5, ''b'', 2)))
     [OtherWrite 6 ''b'' 2, LeadTick 7]) = SteppedDown errStaleToken"
proof -
  let ?t = "snd (table_put newTable (5, ''b'', 2))"
  have "table_put newTable (5, ''b'', 2) = (True, ?t)" by (simp add: table_put_def controllerTable_write_def newTable_def)
  then show ?thesis
    using stale_holder_is_fenced_off [OF sample_log_short sample_run, of 2 4, OF _ _ sample_commands(1) _ sample_commands(2) _ _ refl refl,
        where ?r1.0 = "\<lparr>AcquireResp_FencingToken = 1, AcquireResp_LeaseTTL = second\<rparr>"
          and ?r2.0 = "\<lparr>AcquireResp_FencingToken = 2, AcquireResp_LeaseTTL = second\<rparr>" and t = newTable and ?t' = ?t and ?at2.0 = 5 and ?writer2.0 = "''b''" and tws = "[(6, ''b'', 2)]" and ?at1.0 = 7
          and ?writer1.0 = "''a''" and rest = "[]"]
    by (simp add: sample_log_def sample_answers_def)
qed

text \<open>
  A release is not safe to repeat, although the failover of the client repeats it: the second
  of two equal releases reports that the lock does not exist.
\<close>

theorem release_not_repeatable:
  assumes "log_ok f 1" and "command_of (Some cmd) = ReleaseLock m i" and "Apply f (Some cmd) = Ret (Inr resp, f', freed)"
    and "Apply f' (Some cmd) = Ret (r, f'', freed')"
  shows "r = Inl (Sentinel ErrLockNotFound)"
proof -
  have inv: "fsm_inv f" "fsm_inv f'"
    using assms(1) log_ok_step [of f 0, OF _ assms(3)] by (simp_all add: log_ok_def)
  have "spec_apply (abs_fsm f) (ReleaseLock m i) = (Inr resp, abs_fsm f', set freed)"
    using Apply_spec(1) [OF inv(1) assms(3)] assms(2) by simp
  then have "lock_at f' = sp_locks (fst (snd (spec_apply (abs_fsm f) (ReleaseLock m i))))"
      "Inr resp = fst (spec_apply (abs_fsm f) (ReleaseLock m i))" by simp_all
  then have free: "lock_at f' m = None" by (auto split: option.splits if_splits)
  have "r = fst (spec_apply (abs_fsm f') (ReleaseLock m i))"
    using Apply_spec(1) [OF inv(2) assms(4)] assms(2) by simp
  then show ?thesis using free by simp
qed

end
